(* ===== verification/Prelude.thy ===== *)
theory Prelude
  imports Main
begin

text \<open>
  Shared vocabulary of the development: bytes and ASCII classes, the string operations of
  Rust's standard library that several components use (prefix, suffix and substring tests,
  trimming, decimal printing and parsing), bounds of the machine integers, and the generic
  list lemmas the component theories share.

  A Rust \<^verbatim>\<open>&str\<close> or \<^verbatim>\<open>&[u8]\<close> is a \<^typ>\<open>string\<close>: a list of \<^typ>\<open>char\<close>, each of which is one
  byte, so lengths and offsets are byte lengths and byte offsets as in the source.
\<close>

named_theorems byte_class \<open>definitions of the ASCII byte classes\<close>
named_theorems scan_simps \<open>facts about prefixes, suffixes and scans of byte strings\<close>

section \<open>Bytes\<close>

abbreviation code_of :: "char \<Rightarrow> nat" where
  "code_of c \<equiv> of_char c"

definition is_ascii :: "char \<Rightarrow> bool" where
  [byte_class]: "is_ascii c \<longleftrightarrow> code_of c < 128"

definition is_ascii_digit :: "char \<Rightarrow> bool" where
  [byte_class]: "is_ascii_digit c \<longleftrightarrow> 48 \<le> code_of c \<and> code_of c \<le> 57"

definition is_ascii_upper :: "char \<Rightarrow> bool" where
  [byte_class]: "is_ascii_upper c \<longleftrightarrow> 65 \<le> code_of c \<and> code_of c \<le> 90"

definition is_ascii_lower :: "char \<Rightarrow> bool" where
  [byte_class]: "is_ascii_lower c \<longleftrightarrow> 97 \<le> code_of c \<and> code_of c \<le> 122"

definition is_ascii_alphabetic :: "char \<Rightarrow> bool" where
  [byte_class]: "is_ascii_alphabetic c \<longleftrightarrow> is_ascii_upper c \<or> is_ascii_lower c"

definition is_ascii_alphanumeric :: "char \<Rightarrow> bool" where
  [byte_class]: "is_ascii_alphanumeric c \<longleftrightarrow> is_ascii_alphabetic c \<or> is_ascii_digit c"

definition is_ascii_hexdigit :: "char \<Rightarrow> bool" where
  [byte_class]: "is_ascii_hexdigit c \<longleftrightarrow>
     is_ascii_digit c \<or> (65 \<le> code_of c \<and> code_of c \<le> 70) \<or> (97 \<le> code_of c \<and> code_of c \<le> 102)"

text \<open>Rust's \<^verbatim>\<open>u8::is_ascii_whitespace\<close>: space, tab, line feed, form feed, carriage return.\<close>

definition is_ascii_whitespace :: "char \<Rightarrow> bool" where
  [byte_class]: "is_ascii_whitespace c \<longleftrightarrow> code_of c \<in> {32, 9, 10, 12, 13}"

definition to_lower :: "char \<Rightarrow> char" where
  "to_lower c = (if is_ascii_upper c then char_of (code_of c + 32) else c)"

definition to_upper :: "char \<Rightarrow> char" where
  "to_upper c = (if is_ascii_lower c then char_of (code_of c - 32) else c)"

definition to_ascii_lowercase :: "string \<Rightarrow> string" where
  "to_ascii_lowercase s = map to_lower s"

definition to_ascii_uppercase :: "string \<Rightarrow> string" where
  "to_ascii_uppercase s = map to_upper s"

definition eq_ignore_ascii_case :: "string \<Rightarrow> string \<Rightarrow> bool" where
  "eq_ignore_ascii_case s t \<longleftrightarrow> to_ascii_lowercase s = to_ascii_lowercase t"

lemma code_of_lt_256: "code_of c < 256"
  by simp

lemma code_of_to_lower:
  "code_of (to_lower c) = (if is_ascii_upper c then code_of c + 32 else code_of c)"
  by (auto simp: to_lower_def byte_class)

lemma to_lower_not_upper [simp]: "\<not> is_ascii_upper (to_lower c)"
  by (auto simp: byte_class code_of_to_lower)

lemma to_lower_idem [simp]: "to_lower (to_lower c) = to_lower c"
  by (subst to_lower_def) simp

lemma to_lower_ascii [simp]: "is_ascii (to_lower c) = is_ascii c"
  by (auto simp: byte_class code_of_to_lower)

lemma to_ascii_lowercase_idem [simp]:
  "to_ascii_lowercase (to_ascii_lowercase s) = to_ascii_lowercase s"
  by (simp add: to_ascii_lowercase_def)

lemma length_to_ascii_lowercase [simp]: "length (to_ascii_lowercase s) = length s"
  by (simp add: to_ascii_lowercase_def)

section \<open>Prefixes, suffixes and substrings\<close>

definition starts_with :: "string \<Rightarrow> string \<Rightarrow> bool" where
  "starts_with s p \<longleftrightarrow> take (length p) s = p"

definition ends_with :: "string \<Rightarrow> string \<Rightarrow> bool" where
  "ends_with s p \<longleftrightarrow> length p \<le> length s \<and> drop (length s - length p) s = p"

text \<open>The least offset at which \<open>p\<close> occurs in \<open>s\<close> (\<^verbatim>\<open>str::find\<close>, \<^verbatim>\<open>windows(n).position\<close>).\<close>

fun find_sub :: "string \<Rightarrow> string \<Rightarrow> nat option" where
  "find_sub p [] = (if p = [] then Some 0 else None)"
| "find_sub p (c # s) =
     (if starts_with (c # s) p then Some 0 else map_option Suc (find_sub p s))"

definition contains_sub :: "string \<Rightarrow> string \<Rightarrow> bool" where
  "contains_sub s p \<longleftrightarrow> find_sub p s \<noteq> None"

lemma starts_with_iff: "starts_with s p \<longleftrightarrow> (\<exists>r. s = p @ r)"
  by (metis append_eq_conv_conj append_take_drop_id starts_with_def)

lemma starts_with_append [simp]: "starts_with (p @ r) p"
  by (simp add: starts_with_def)

lemma starts_with_length: "starts_with s p \<Longrightarrow> length p \<le> length s"
  by (auto simp: starts_with_iff)

lemma starts_with_take: "length p \<le> m \<Longrightarrow> starts_with (take m s) p = starts_with s p"
  by (simp add: starts_with_def min_def)

lemma starts_with_cut: "starts_with (take m s) p \<Longrightarrow> starts_with s p"
  by (metis append.assoc append_take_drop_id starts_with_iff)

lemma starts_with_Nil [simp]: "starts_with [] p \<longleftrightarrow> p = []"
  by (auto simp: starts_with_def)

lemma ends_with_iff: "ends_with s p \<longleftrightarrow> (\<exists>r. s = r @ p)"
proof
  assume "ends_with s p"
  then have "s = take (length s - length p) s @ p"
    by (metis append_take_drop_id ends_with_def)
  then show "\<exists>r. s = r @ p" by blast
qed (auto simp: ends_with_def)

lemma find_sub_Some:
  "find_sub p s = Some n \<Longrightarrow> n + length p \<le> length s \<and> take (length p) (drop n s) = p"
proof (induction p s arbitrary: n rule: find_sub.induct)
  case (1 p)
  then show ?case by (simp split: if_splits)
next
  case (2 p c s)
  show ?case
  proof (cases "starts_with (c # s) p")
    case True
    then have "length p \<le> length (c # s)" by (rule starts_with_length)
    with True 2(2) show ?thesis by (auto simp: starts_with_def)
  next
    case False
    with 2 show ?thesis by auto
  qed
qed

lemma find_sub_bound: "find_sub p s = Some n \<Longrightarrow> n + length p \<le> length s"
  by (simp add: find_sub_Some)

lemma find_sub_least:
  "find_sub p s = Some n \<Longrightarrow> m < n \<Longrightarrow> take (length p) (drop m s) \<noteq> p"
proof (induction p s arbitrary: n m rule: find_sub.induct)
  case (1 p)
  then show ?case by (simp split: if_splits)
next
  case (2 p c s)
  then show ?case
    by (cases m) (auto simp: starts_with_def split: if_splits)
qed

lemma find_sub_None_iff:
  "p \<noteq> [] \<Longrightarrow> find_sub p s = None \<longleftrightarrow> (\<forall>u v. s \<noteq> u @ p @ v)"
proof (induction p s rule: find_sub.induct)
  case (1 p)
  then show ?case by simp
next
  case (2 p c s)
  show ?case
  proof (cases "starts_with (c # s) p")
    case True
    then obtain r where "c # s = p @ r" by (auto simp: starts_with_iff)
    with True show ?thesis by (metis append_Nil find_sub.simps(2) option.distinct(1))
  next
    case False
    have "(\<exists>u v. c # s = u @ p @ v) \<longleftrightarrow> (\<exists>u v. s = u @ p @ v)"
    proof
      assume "\<exists>u v. c # s = u @ p @ v"
      then obtain u v where uv: "c # s = u @ p @ v" by blast
      show "\<exists>u v. s = u @ p @ v"
      proof (cases u)
        case Nil
        with uv False show ?thesis by (auto simp: starts_with_iff)
      next
        case (Cons d us)
        with uv show ?thesis by auto
      qed
    qed (metis append_Cons)
    with False 2 show ?thesis by auto
  qed
qed

lemma contains_sub_iff: "p \<noteq> [] \<Longrightarrow> contains_sub s p \<longleftrightarrow> (\<exists>u v. s = u @ p @ v)"
  using find_sub_None_iff [of p s] by (auto simp: contains_sub_def)

section \<open>Scanning runs of bytes\<close>

lemma take_length_takeWhile [simp]: "take (length (takeWhile P s)) s = takeWhile P s"
  by (metis takeWhile_eq_take)

lemma drop_length_takeWhile [simp]: "drop (length (takeWhile P s)) s = dropWhile P s"
  by (metis dropWhile_eq_drop)

lemma takeWhile_take:
  "length (takeWhile P s) \<le> m \<Longrightarrow> takeWhile P (take m s) = takeWhile P s"
proof (induction s arbitrary: m)
  case (Cons a s)
  then show ?case by (cases m) auto
qed simp

lemma takeWhile_append_stop:
  "takeWhile P (t @ z) = t \<Longrightarrow> takeWhile P (t @ take m z) = t"
proof (induction t)
  case Nil
  then show ?case by (cases z; cases m) (auto split: if_splits)
next
  case (Cons a t)
  then show ?case by (auto split: if_splits)
qed

section \<open>Decimal text\<close>

definition digit_char :: "nat \<Rightarrow> char" where
  "digit_char d = char_of (48 + d)"

fun nat_str :: "nat \<Rightarrow> string" where
  "nat_str n = (if n < 10 then [digit_char n] else nat_str (n div 10) @ [digit_char (n mod 10)])"

declare nat_str.simps [simp del]

definition int_str :: "int \<Rightarrow> string" where
  "int_str i = (if i < 0 then CHR ''-'' # nat_str (nat (- i)) else nat_str (nat i))"

definition digit_val :: "char \<Rightarrow> nat" where
  "digit_val c = code_of c - 48"

definition digits_val :: "string \<Rightarrow> nat" where
  "digits_val s = foldl (\<lambda>v c. v * 10 + digit_val c) 0 s"

text \<open>Left padding with zeros, as \<^verbatim>\<open>{:02}\<close> does.\<close>

definition pad0 :: "nat \<Rightarrow> string \<Rightarrow> string" where
  "pad0 w s = replicate (w - length s) CHR ''0'' @ s"

text \<open>
  \<^verbatim>\<open>str::parse\<close> for a signed integer type with the range \<open>lo..hi\<close>: an optional sign, at
  least one digit, nothing else, and the value in range.
\<close>

definition parse_int :: "int \<Rightarrow> int \<Rightarrow> string \<Rightarrow> int option" where
  "parse_int lo hi s =
     (let (neg, ds) = (case s of [] \<Rightarrow> (False, [])
                       | c # r \<Rightarrow> if c = CHR ''-'' then (True, r)
                                 else if c = CHR ''+'' then (False, r) else (False, s));
          v = (if neg then - int (digits_val ds) else int (digits_val ds))
      in if ds \<noteq> [] \<and> list_all is_ascii_digit ds \<and> lo \<le> v \<and> v \<le> hi then Some v else None)"

lemma digits_val_append:
  "digits_val (s @ t) = digits_val s * 10 ^ length t + digits_val t"
proof -
  have gen: "foldl (\<lambda>v c. v * 10 + digit_val c) a t = a * 10 ^ length t + digits_val t" for a
  proof (induction t rule: rev_induct)
    case Nil
    then show ?case by (simp add: digits_val_def)
  next
    case (snoc c t)
    then show ?case by (simp add: digits_val_def algebra_simps)
  qed
  show ?thesis using gen [of "digits_val s"] by (simp add: digits_val_def)
qed

lemma digits_val_single [simp]: "digits_val [c] = digit_val c"
  by (simp add: digits_val_def)

lemma digits_val_Nil [simp]: "digits_val [] = 0"
  by (simp add: digits_val_def)

lemma digit_val_char [simp]: "d < 10 \<Longrightarrow> digit_val (digit_char d) = d"
  by (simp add: digit_val_def digit_char_def)

lemma digit_char_digit [simp]: "d < 10 \<Longrightarrow> is_ascii_digit (digit_char d)"
  by (simp add: digit_char_def byte_class)

lemma nat_str_nonempty [simp]: "nat_str n \<noteq> []"
  by (subst nat_str.simps) simp

lemma nat_str_digits: "list_all is_ascii_digit (nat_str n)"
proof (induction n rule: nat_str.induct)
  case (1 n)
  then show ?case by (subst nat_str.simps) simp
qed

lemma digits_val_nat_str [simp]: "digits_val (nat_str n) = n"
proof (induction n rule: nat_str.induct)
  case (1 n)
  then show ?case by (subst nat_str.simps) (simp add: digits_val_append)
qed

lemma nat_str_inj: "nat_str m = nat_str n \<Longrightarrow> m = n"
  by (metis digits_val_nat_str)

lemma length_nat_str_le: "n < 10 ^ k \<Longrightarrow> 0 < k \<Longrightarrow> length (nat_str n) \<le> k"
proof (induction n arbitrary: k rule: nat_str.induct)
  case (1 n)
  show ?case
  proof (cases "n < 10")
    case True
    with "1.prems" show ?thesis by (subst nat_str.simps) simp
  next
    case False
    obtain j where j: "k = Suc j" "0 < j"
    proof (cases k)
      case (Suc j)
      with False "1.prems" have "0 < j" by (cases j) auto
      with Suc that show ?thesis by blast
    qed (use "1.prems" in simp)
    with "1.prems" have "n div 10 < 10 ^ j" by (simp add: less_mult_imp_div_less mult.commute)
    with "1.IH" False j have "length (nat_str (n div 10)) \<le> j" by simp
    with False j show ?thesis by (subst nat_str.simps) simp
  qed
qed

lemma length_pad0 [simp]: "length (pad0 w s) = max w (length s)"
  by (simp add: pad0_def)

lemma digits_val_zeros [simp]: "digits_val (replicate k CHR ''0'') = 0"
  by (induction k) (auto simp: digits_val_def digit_val_def)

lemma digits_val_pad0 [simp]: "digits_val (pad0 w s) = digits_val s"
  by (simp add: pad0_def digits_val_append)

lemma pad0_digits [simp]: "list_all is_ascii_digit (pad0 w s) = list_all is_ascii_digit s"
  by (auto simp: pad0_def list_all_iff byte_class)

section \<open>Machine integer bounds\<close>

definition u32_max :: nat where "u32_max = 2 ^ 32 - 1"
definition u64_max :: nat where "u64_max = 2 ^ 64 - 1"
definition usize_max :: nat where "usize_max = 2 ^ 64 - 1"
definition i64_min :: int where "i64_min = - (2 ^ 63)"
definition i64_max :: int where "i64_max = 2 ^ 63 - 1"
definition i128_min :: int where "i128_min = - (2 ^ 127)"
definition i128_max :: int where "i128_max = 2 ^ 127 - 1"

definition sat_add :: "nat \<Rightarrow> nat \<Rightarrow> nat \<Rightarrow> nat" where
  "sat_add m a b = min m (a + b)"

definition sat_mul :: "nat \<Rightarrow> nat \<Rightarrow> nat \<Rightarrow> nat" where
  "sat_mul m a b = min m (a * b)"

lemma sat_add_le [simp]: "sat_add m a b \<le> m"
  by (simp add: sat_add_def)

lemma sat_add_mono: "a \<le> a' \<Longrightarrow> b \<le> b' \<Longrightarrow> sat_add m a b \<le> sat_add m a' b'"
  by (auto simp: sat_add_def)

section \<open>Sums\<close>

lemma map_sum_Inr: "map_sum f g z = Inr y \<longleftrightarrow> (\<exists>x. z = Inr x \<and> g x = y)"
  by (cases z) auto

end
