(* ===== verification/Utf8.thy ===== *)
theory Utf8
  imports Prelude
begin

text \<open>
  UTF-8 as Rust's standard library sees it: which byte strings \<^verbatim>\<open>str::from_utf8\<close> accepts (so
  which are a \<^verbatim>\<open>&str\<close>), where a \<^verbatim>\<open>&str\<close> may be sliced (\<^verbatim>\<open>is_char_boundary\<close>), the encoding of
  one scalar value, and \<^verbatim>\<open>str::trim\<close> with Unicode white space.

  The lemmas show that the scalar boundaries of a valid string are exactly the offsets that
  are not continuation bytes, so a scanner that cuts only next to ASCII bytes never slices
  inside a scalar (slicing there panics in Rust).
\<close>

definition is_cont :: "char \<Rightarrow> bool" where
  [byte_class]: "is_cont c \<longleftrightarrow> 128 \<le> code_of c \<and> code_of c \<le> 191"

definition second_ok :: "char \<Rightarrow> char \<Rightarrow> bool" where
  "second_ok a b \<longleftrightarrow>
     (if code_of a = 224 then 160 else if code_of a = 240 then 144 else 128) \<le> code_of b \<and>
     code_of b \<le> (if code_of a = 237 then 159 else if code_of a = 244 then 143 else 191)"

definition sc1 :: "char \<Rightarrow> bool" where
  "sc1 a \<longleftrightarrow> code_of a < 128"

definition sc2 :: "char \<Rightarrow> char \<Rightarrow> bool" where
  "sc2 a b \<longleftrightarrow> 194 \<le> code_of a \<and> code_of a \<le> 223 \<and> is_cont b"

definition sc3 :: "char \<Rightarrow> char \<Rightarrow> char \<Rightarrow> bool" where
  "sc3 a b c \<longleftrightarrow> 224 \<le> code_of a \<and> code_of a \<le> 239 \<and> second_ok a b \<and> is_cont c"

definition sc4 :: "char \<Rightarrow> char \<Rightarrow> char \<Rightarrow> char \<Rightarrow> bool" where
  "sc4 a b c d \<longleftrightarrow> 240 \<le> code_of a \<and> code_of a \<le> 244 \<and> second_ok a b \<and> is_cont c \<and> is_cont d"

text \<open>The width of the well-formed scalar at the head of \<open>s\<close>, 0 if there is none.\<close>

definition utf8_head :: "string \<Rightarrow> nat" where
  "utf8_head s =
     (if 1 \<le> length s \<and> sc1 (s ! 0) then 1
      else if 2 \<le> length s \<and> sc2 (s ! 0) (s ! 1) then 2
      else if 3 \<le> length s \<and> sc3 (s ! 0) (s ! 1) (s ! 2) then 3
      else if 4 \<le> length s \<and> sc4 (s ! 0) (s ! 1) (s ! 2) (s ! 3) then 4
      else 0)"

lemma utf8_head_le: "utf8_head s \<le> length s"
  by (simp add: utf8_head_def)

function valid_utf8 :: "string \<Rightarrow> bool" where
  "valid_utf8 s =
     (if s = [] then True else if utf8_head s = 0 then False
      else valid_utf8 (drop (utf8_head s) s))"
  by pat_completeness auto
termination
  by (relation "measure length") auto

declare valid_utf8.simps [simp del]

lemma valid_utf8_Nil [simp]: "valid_utf8 []"
  by (simp add: valid_utf8.simps)

lemma valid_utf8_unfold:
  "s \<noteq> [] \<Longrightarrow> valid_utf8 s \<longleftrightarrow> utf8_head s \<noteq> 0 \<and> valid_utf8 (drop (utf8_head s) s)"
  by (simp add: valid_utf8.simps [of s])

lemma second_ok_cont: "second_ok a b \<Longrightarrow> is_cont b"
  by (auto simp: second_ok_def byte_class split: if_splits)

lemma utf8_head_ascii [simp]: "is_ascii c \<Longrightarrow> utf8_head (c # s) = 1"
  by (simp add: utf8_head_def byte_class sc1_def)

lemma valid_utf8_ascii_Cons [simp]: "is_ascii c \<Longrightarrow> valid_utf8 (c # s) = valid_utf8 s"
  by (subst valid_utf8.simps) simp

lemma ascii_not_cont: "is_ascii c \<Longrightarrow> \<not> is_cont c"
  by (simp add: byte_class)

lemma utf8_head_cases:
  assumes "utf8_head s \<noteq> 0"
  obtains (one) "utf8_head s = 1" "1 \<le> length s" "sc1 (s ! 0)"
  | (two) "utf8_head s = 2" "2 \<le> length s" "\<not> sc1 (s ! 0)" "sc2 (s ! 0) (s ! 1)"
  | (three) "utf8_head s = 3" "3 \<le> length s" "\<not> sc1 (s ! 0)" "\<not> sc2 (s ! 0) (s ! 1)"
      "sc3 (s ! 0) (s ! 1) (s ! 2)"
  | (four) "utf8_head s = 4" "4 \<le> length s" "\<not> sc1 (s ! 0)" "\<not> sc2 (s ! 0) (s ! 1)"
      "\<not> sc3 (s ! 0) (s ! 1) (s ! 2)" "sc4 (s ! 0) (s ! 1) (s ! 2) (s ! 3)"
  using assms unfolding utf8_head_def by (simp split: if_splits)

lemma sc_not_cont:
  "sc1 a \<Longrightarrow> \<not> is_cont a" "sc2 a b \<Longrightarrow> \<not> is_cont a" "sc3 a b c \<Longrightarrow> \<not> is_cont a" "sc4 a b c d \<Longrightarrow> \<not> is_cont a"
  by (auto simp: sc1_def sc2_def sc3_def sc4_def is_cont_def)

lemma sc_cont:
  "sc2 a b \<Longrightarrow> is_cont b" "sc3 a b c \<Longrightarrow> is_cont b" "sc3 a b c \<Longrightarrow> is_cont c"
  "sc4 a b c d \<Longrightarrow> is_cont b" "sc4 a b c d \<Longrightarrow> is_cont c" "sc4 a b c d \<Longrightarrow> is_cont d"
  by (auto simp: sc2_def sc3_def sc4_def intro: second_ok_cont)

lemma head_not_cont: "s \<noteq> [] \<Longrightarrow> utf8_head s \<noteq> 0 \<Longrightarrow> \<not> is_cont (hd s)"
  by (erule utf8_head_cases) (simp_all add: hd_conv_nth sc_not_cont)

text \<open>The scalar at the head does not depend on what follows it, and its tail bytes continue it.\<close>

lemma utf8_head_append:
  assumes "utf8_head s \<noteq> 0"
  shows "utf8_head (s @ t) = utf8_head s"
  using assms by (cases rule: utf8_head_cases) (auto simp: utf8_head_def nth_append)

lemma utf8_head_take:
  assumes "utf8_head s \<noteq> 0" and "utf8_head s \<le> k"
  shows "utf8_head (take k s) = utf8_head s"
  using assms(1)
proof (cases rule: utf8_head_cases)
  case one
  with assms(2) show ?thesis by (simp add: utf8_head_def)
next
  case two
  with assms(2) show ?thesis by (simp add: utf8_head_def)
next
  case three
  with assms(2) show ?thesis by (simp add: utf8_head_def)
next
  case four
  with assms(2) show ?thesis by (simp add: utf8_head_def)
qed

lemma utf8_head_tail_cont:
  assumes "0 < i" and "i < utf8_head s"
  shows "is_cont (s ! i)"
proof -
  from assms have "utf8_head s \<noteq> 0" by simp
  then show ?thesis
  proof (cases rule: utf8_head_cases)
    case two
    with assms have "i = 1" by linarith
    with two show ?thesis using sc_cont(1) by simp
  next
    case three
    with assms have "i = 1 \<or> i = 2" by linarith
    with three show ?thesis using sc_cont(2,3) by blast
  next
    case four
    with assms have "i = 1 \<or> i = 2 \<or> i = 3" by linarith
    with four show ?thesis using sc_cont(4,5,6) by blast
  qed (use assms in simp)
qed

lemma valid_utf8_append:
  "valid_utf8 s \<Longrightarrow> valid_utf8 t \<Longrightarrow> valid_utf8 (s @ t)"
proof (induction s rule: valid_utf8.induct)
  case (1 s)
  show ?case
  proof (cases "s = []")
    case True
    with 1 show ?thesis by simp
  next
    case False
    with 1(2) have h: "utf8_head s \<noteq> 0" and v: "valid_utf8 (drop (utf8_head s) s)"
      by (simp_all add: valid_utf8_unfold)
    from 1(1) [OF False _ v 1(3)] h False show ?thesis
      by (simp add: valid_utf8_unfold utf8_head_append utf8_head_le)
  qed
qed

text \<open>Cutting where the next byte is not a continuation byte leaves two valid strings.\<close>

lemma valid_utf8_split:
  "valid_utf8 (s @ t) \<Longrightarrow> t = [] \<or> \<not> is_cont (hd t) \<Longrightarrow> valid_utf8 s \<and> valid_utf8 t"
proof (induction "length s" arbitrary: s rule: less_induct)
  case less
  show ?case
  proof (cases "s = []")
    case True
    with less show ?thesis by simp
  next
    case False
    let ?n = "utf8_head (s @ t)"
    from less(2) False have n: "?n \<noteq> 0" and v: "valid_utf8 (drop ?n (s @ t))"
      by (simp_all add: valid_utf8_unfold)
    have "?n \<le> length s"
    proof (rule ccontr)
      assume "\<not> ?n \<le> length s"
      then have lt: "length s < ?n" by simp
      then have "t \<noteq> []" using utf8_head_le [of "s @ t"] by auto
      moreover have "is_cont ((s @ t) ! length s)"
        using lt False by (intro utf8_head_tail_cont) auto
      ultimately show False using less(3) by (simp add: nth_append hd_conv_nth)
    qed
    then have dr: "drop ?n (s @ t) = drop ?n s @ t" and hs: "utf8_head s = ?n"
      using n utf8_head_take [of "s @ t" "length s"] by simp_all
    have "valid_utf8 (drop ?n s) \<and> valid_utf8 t"
      using less(1) [of "drop ?n s"] v n False less(3) dr by (simp add: length_greater_0_conv)
    with n hs False show ?thesis by (simp add: valid_utf8_unfold)
  qed
qed

lemma valid_utf8_hd: "valid_utf8 s \<Longrightarrow> s = [] \<or> \<not> is_cont (hd s)"
  by (metis head_not_cont valid_utf8_unfold)

lemma valid_utf8_suffix: "valid_utf8 (s @ t) \<Longrightarrow> valid_utf8 s \<Longrightarrow> valid_utf8 t"
proof (induction s rule: valid_utf8.induct)
  case (1 s)
  show ?case
  proof (cases "s = []")
    case True
    with 1 show ?thesis by simp
  next
    case False
    with 1(3) have h: "utf8_head s \<noteq> 0" and v: "valid_utf8 (drop (utf8_head s) s)"
      by (simp_all add: valid_utf8_unfold)
    from 1(2) False h have w: "valid_utf8 (drop (utf8_head s) s @ t)"
      by (simp add: valid_utf8_unfold utf8_head_append utf8_head_le)
    show ?thesis by (rule 1(1) [OF False _ w v]) (use h in simp)
  qed
qed

lemma valid_utf8_ascii: "list_all is_ascii s \<Longrightarrow> valid_utf8 s"
  by (induction s) auto

lemma valid_utf8_ascii_mid:
  assumes "valid_utf8 (s @ c # t)" and "is_ascii c"
  shows "valid_utf8 (s @ [c])" and "valid_utf8 t" and "valid_utf8 s"
proof -
  from assms have "valid_utf8 s \<and> valid_utf8 (c # t)"
    by (intro valid_utf8_split) (auto simp: ascii_not_cont)
  with assms show "valid_utf8 (s @ [c])" and "valid_utf8 t" and "valid_utf8 s"
    by (auto intro: valid_utf8_append)
qed

section \<open>Slicing\<close>

definition is_char_boundary :: "string \<Rightarrow> nat \<Rightarrow> bool" where
  "is_char_boundary s i \<longleftrightarrow> i = 0 \<or> i = length s \<or> (i < length s \<and> \<not> is_cont (s ! i))"

text \<open>\<^verbatim>\<open>str::get(start..end)\<close>: \<^term>\<open>None\<close> where slicing would panic.\<close>

definition str_get :: "string \<Rightarrow> nat \<Rightarrow> nat \<Rightarrow> string option" where
  "str_get s i j =
     (if i \<le> j \<and> j \<le> length s \<and> is_char_boundary s i \<and> is_char_boundary s j
      then Some (take (j - i) (drop i s)) else None)"

lemma str_get_valid:
  assumes "valid_utf8 s" and "str_get s i j = Some t"
  shows "valid_utf8 t"
proof -
  from assms have b: "i \<le> j" "j \<le> length s" "is_char_boundary s i" "is_char_boundary s j"
    and t: "t = take (j - i) (drop i s)"
    by (auto simp: str_get_def split: if_splits)
  have "valid_utf8 (take i s @ drop i s)" using assms by simp
  then have d: "valid_utf8 (drop i s)"
    using b(2,3) b(1) valid_utf8_split [of "take i s" "drop i s"]
    by (cases "i = 0") (auto simp: is_char_boundary_def hd_drop_conv_nth)
  have "valid_utf8 (t @ drop (j - i) (drop i s))" using d unfolding t by (simp only: append_take_drop_id)
  moreover have "drop (j - i) (drop i s) = drop j s" using b(1) by simp
  ultimately have v: "valid_utf8 (t @ drop j s)" by simp
  show ?thesis
  proof (cases "j = length s")
    case True
    with v show ?thesis by simp
  next
    case False
    show ?thesis
    proof (cases "j = 0")
      case True
      with t show ?thesis by simp
    next
      case F0: False
      with v False b(2,4) have "valid_utf8 t \<and> valid_utf8 (drop j s)"
        by (intro valid_utf8_split) (auto simp: is_char_boundary_def hd_drop_conv_nth)
      then show ?thesis ..
    qed
  qed
qed

lemma str_get_append:
  assumes "valid_utf8 a" and "valid_utf8 t" and "valid_utf8 b"
  shows "str_get (a @ t @ b) (length a) (length a + length t) = Some t"
proof -
  have bd: "is_char_boundary (u @ v) (length u)" if "valid_utf8 v" for u v
    using valid_utf8_hd [OF that] by (auto simp: is_char_boundary_def nth_append hd_conv_nth)
  have "is_char_boundary (a @ (t @ b)) (length a)"
    by (rule bd) (simp add: assms valid_utf8_append)
  moreover have "is_char_boundary ((a @ t) @ b) (length (a @ t))"
    by (rule bd) (simp add: assms)
  ultimately show ?thesis by (simp add: str_get_def)
qed

section \<open>Encoding one scalar value\<close>

text \<open>\<^verbatim>\<open>char::from_u32\<close> refuses surrogates and values above \<open>0x10FFFF\<close>.\<close>

definition is_scalar :: "nat \<Rightarrow> bool" where
  "is_scalar u \<longleftrightarrow> u < 55296 \<or> (57344 \<le> u \<and> u \<le> 1114111)"

definition encode_utf8 :: "nat \<Rightarrow> string" where
  "encode_utf8 u =
     (if u < 128 then [char_of u]
      else if u < 2048 then [char_of (192 + u div 64), char_of (128 + u mod 64)]
      else if u < 65536 then
        [char_of (224 + u div 4096), char_of (128 + u div 64 mod 64), char_of (128 + u mod 64)]
      else [char_of (240 + u div 262144), char_of (128 + u div 4096 mod 64),
            char_of (128 + u div 64 mod 64), char_of (128 + u mod 64)])"

lemma cont_char [simp]: "x < 64 \<Longrightarrow> is_cont (char_of (128 + x :: nat))"
  by (simp add: byte_class)

lemma code_of_char_of: "n < 256 \<Longrightarrow> code_of (char_of (n :: nat)) = n"
  by simp

lemma second_ok3:
  assumes "a < 16" "b < 64" "a = 0 \<Longrightarrow> 32 \<le> b" "a = 13 \<Longrightarrow> b < 32"
  shows "second_ok (char_of (224 + a :: nat)) (char_of (128 + b :: nat))"
proof -
  have "code_of (char_of (224 + a)) = 224 + a" "code_of (char_of (128 + b)) = 128 + b"
    using assms(1,2) by (simp_all only: code_of_char_of)
  then show ?thesis using assms by (auto simp: second_ok_def simp del: of_char_of)
qed

lemma second_ok4:
  assumes "a \<le> 4" "b < 64" "a = 0 \<Longrightarrow> 16 \<le> b" "a = 4 \<Longrightarrow> b < 16"
  shows "second_ok (char_of (240 + a :: nat)) (char_of (128 + b :: nat))"
proof -
  have "code_of (char_of (240 + a)) = 240 + a" "code_of (char_of (128 + b)) = 128 + b"
    using assms(1,2) by (simp_all only: code_of_char_of)
  then show ?thesis using assms by (auto simp: second_ok_def simp del: of_char_of)
qed

lemma sc2_enc:
  assumes "2 \<le> a" "a < 32" "b < 64"
  shows "sc2 (char_of (192 + a :: nat)) (char_of (128 + b :: nat))" "\<not> sc1 (char_of (192 + a))"
proof -
  have "code_of (char_of (192 + a)) = 192 + a" using assms by (simp only: code_of_char_of)
  then show "sc2 (char_of (192 + a)) (char_of (128 + b))" "\<not> sc1 (char_of (192 + a))"
    using assms by (simp_all add: sc2_def sc1_def del: of_char_of)
qed

lemma sc3_enc:
  assumes "a < 16" "b < 64" "c < 64" "a = 0 \<Longrightarrow> 32 \<le> b" "a = 13 \<Longrightarrow> b < 32"
  shows "sc3 (char_of (224 + a :: nat)) (char_of (128 + b :: nat)) (char_of (128 + c :: nat))"
    "\<not> sc1 (char_of (224 + a))" "\<not> sc2 (char_of (224 + a)) x"
proof -
  have "code_of (char_of (224 + a)) = 224 + a" using assms by (simp only: code_of_char_of)
  moreover have "second_ok (char_of (224 + a)) (char_of (128 + b))"
    using assms by (intro second_ok3)
  ultimately show "sc3 (char_of (224 + a)) (char_of (128 + b)) (char_of (128 + c))"
    "\<not> sc1 (char_of (224 + a))" "\<not> sc2 (char_of (224 + a)) x"
    using assms by (simp_all add: sc3_def sc2_def sc1_def del: of_char_of)
qed

lemma sc4_enc:
  assumes "a \<le> 4" "b < 64" "c < 64" "d < 64" "a = 0 \<Longrightarrow> 16 \<le> b" "a = 4 \<Longrightarrow> b < 16"
  shows "sc4 (char_of (240 + a :: nat)) (char_of (128 + b :: nat)) (char_of (128 + c :: nat)) (char_of (128 + d :: nat))"
    "\<not> sc1 (char_of (240 + a))" "\<not> sc2 (char_of (240 + a)) x" "\<not> sc3 (char_of (240 + a)) x y"
proof -
  have "code_of (char_of (240 + a)) = 240 + a" using assms by (simp only: code_of_char_of)
  moreover have "second_ok (char_of (240 + a)) (char_of (128 + b))"
    using assms by (intro second_ok4)
  ultimately show
    "sc4 (char_of (240 + a)) (char_of (128 + b)) (char_of (128 + c)) (char_of (128 + d))"
    "\<not> sc1 (char_of (240 + a))" "\<not> sc2 (char_of (240 + a)) x" "\<not> sc3 (char_of (240 + a)) x y"
    using assms by (simp_all add: sc4_def sc3_def sc2_def sc1_def del: of_char_of)
qed

lemma mod64_surrogates:
  assumes "832 \<le> (x::nat)" and "x < 864"
  shows "x mod 64 < 32"
proof -
  have "x = (x - 832) + 64 * 13" using assms(1) by simp
  then have "x mod 64 = (x - 832) mod 64" by (metis mod_mult_self2)
  also have "\<dots> \<le> x - 832" by simp
  also have "\<dots> < 32" using assms by simp
  finally show ?thesis .
qed

lemma mod64_last_plane:
  assumes "256 \<le> (x::nat)" and "x < 272"
  shows "x mod 64 < 16"
proof -
  have "x = (x - 256) + 64 * 4" using assms(1) by simp
  then have "x mod 64 = (x - 256) mod 64" by (metis mod_mult_self2)
  also have "\<dots> \<le> x - 256" by simp
  also have "\<dots> < 16" using assms by simp
  finally show ?thesis .
qed

lemma encode_utf8_head: "is_scalar u \<Longrightarrow> utf8_head (encode_utf8 u) = length (encode_utf8 u)"
proof -
  assume s: "is_scalar u"
  consider "u < 128" | "128 \<le> u" "u < 2048" | "2048 \<le> u" "u < 65536" | "65536 \<le> u" "u \<le> 1114111"
    using s by (fastforce simp: is_scalar_def)
  then show ?thesis
  proof cases
    case 1
    then show ?thesis by (simp add: encode_utf8_def utf8_head_def sc1_def)
  next
    case 2
    then have "2 \<le> u div 64" "u div 64 < 32" by auto
    then have "sc2 (char_of (192 + u div 64)) (char_of (128 + u mod 64))"
      "\<not> sc1 (char_of (192 + u div 64))"
      using sc2_enc [of "u div 64" "u mod 64"] by simp_all
    with 2 show ?thesis by (simp add: encode_utf8_def utf8_head_def)
  next
    case 3
    let ?a = "u div 4096" and ?b = "u div 64 mod 64"
    from 3 have d: "?a < 16" by auto
    have "32 \<le> ?b" if "?a = 0"
    proof -
      from that 3 have "32 \<le> u div 64" "u div 64 < 64" by auto
      then show ?thesis by simp
    qed
    moreover have "?b < 32" if "?a = 13"
    proof -
      from that have "53248 \<le> u" "u < 57344" by auto
      with s have "u < 55296" by (simp add: is_scalar_def)
      with \<open>53248 \<le> u\<close> have "832 \<le> u div 64" "u div 64 < 864" by auto
      then show ?thesis by (rule mod64_surrogates)
    qed
    ultimately have "sc3 (char_of (224 + ?a)) (char_of (128 + ?b)) (char_of (128 + u mod 64))"
      "\<not> sc1 (char_of (224 + ?a))" "\<not> sc2 (char_of (224 + ?a)) (char_of (128 + ?b))"
      using d sc3_enc [of ?a ?b "u mod 64"] by simp_all
    with 3 show ?thesis by (simp add: encode_utf8_def utf8_head_def numeral_2_eq_2)
  next
    case 4
    let ?a = "u div 262144" and ?b = "u div 4096 mod 64"
    from 4 have d: "?a \<le> 4" by auto
    have "16 \<le> ?b" if "?a = 0"
    proof -
      from that 4 have "16 \<le> u div 4096" "u div 4096 < 64" by auto
      then show ?thesis by simp
    qed
    moreover have "?b < 16" if "?a = 4"
    proof -
      from that have "256 * 4096 \<le> u" by auto
      with 4 have "256 \<le> u div 4096" "u div 4096 < 272" by auto
      then show ?thesis by (rule mod64_last_plane)
    qed
    ultimately have "sc4 (char_of (240 + ?a)) (char_of (128 + ?b)) (char_of (128 + u div 64 mod 64))
        (char_of (128 + u mod 64))"
      "\<not> sc1 (char_of (240 + ?a))" "\<not> sc2 (char_of (240 + ?a)) (char_of (128 + ?b))"
      "\<not> sc3 (char_of (240 + ?a)) (char_of (128 + ?b)) (char_of (128 + u div 64 mod 64))"
      using d sc4_enc [of ?a ?b "u div 64 mod 64" "u mod 64"] by simp_all
    with 4 show ?thesis
      by (simp add: encode_utf8_def utf8_head_def numeral_2_eq_2 numeral_3_eq_3)
  qed
qed

lemma encode_utf8_nonempty [simp]: "encode_utf8 u \<noteq> []"
  by (simp add: encode_utf8_def)

lemma encode_utf8_valid: "is_scalar u \<Longrightarrow> valid_utf8 (encode_utf8 u)"
  by (subst valid_utf8.simps) (simp add: encode_utf8_head)

section \<open>Trimming\<close>

text \<open>
  The number of bytes of the Unicode white-space scalar at the head of a string (0 if there
  is none): U+0009..U+000D, U+0020, U+0085, U+00A0, U+1680, U+2000..U+200A, U+2028, U+2029,
  U+202F, U+205F, U+3000. \<open>trim_rev\<close> reads the same scalars off a reversed string.
\<close>

definition ws3 :: "char \<Rightarrow> char \<Rightarrow> char \<Rightarrow> bool" where
  "ws3 a b c \<longleftrightarrow>
     (code_of a, code_of b, code_of c) \<in> {(225, 154, 128), (226, 129, 159), (227, 128, 128)} \<or>
     (code_of a = 226 \<and> code_of b = 128 \<and>
       (128 \<le> code_of c \<and> code_of c \<le> 138 \<or> code_of c \<in> {168, 169, 175}))"

definition ws1 :: "char \<Rightarrow> bool" where
  "ws1 a \<longleftrightarrow> (9 \<le> code_of a \<and> code_of a \<le> 13) \<or> code_of a = 32"

definition ws2 :: "char \<Rightarrow> char \<Rightarrow> bool" where
  "ws2 a b \<longleftrightarrow> code_of a = 194 \<and> code_of b \<in> {133, 160}"

fun trim_start :: "string \<Rightarrow> string" where
  "trim_start (a # b # c # s) =
     (if ws1 a then trim_start (b # c # s)
      else if ws2 a b then trim_start (c # s)
      else if ws3 a b c then trim_start s else a # b # c # s)"
| "trim_start [a, b] =
     (if ws1 a then trim_start [b] else if ws2 a b then [] else [a, b])"
| "trim_start [a] = (if ws1 a then [] else [a])"
| "trim_start [] = []"

fun trim_rev :: "string \<Rightarrow> string" where
  "trim_rev (c # b # a # s) =
     (if ws1 c then trim_rev (b # a # s)
      else if ws2 b c then trim_rev (a # s)
      else if ws3 a b c then trim_rev s else c # b # a # s)"
| "trim_rev [c, b] =
     (if ws1 c then trim_rev [b] else if ws2 b c then [] else [c, b])"
| "trim_rev [c] = (if ws1 c then [] else [c])"
| "trim_rev [] = []"

definition trim_end :: "string \<Rightarrow> string" where
  "trim_end s = rev (trim_rev (rev s))"

definition str_trim :: "string \<Rightarrow> string" where
  "str_trim s = trim_end (trim_start s)"

lemma trim_start_ascii: "s = [] \<or> is_ascii (hd s) \<and> \<not> ws1 (hd s) \<Longrightarrow> trim_start s = s"
  by (cases s rule: trim_start.cases) (auto simp: ws2_def ws3_def byte_class)

lemma trim_rev_ascii: "s = [] \<or> is_ascii (hd s) \<and> \<not> ws1 (hd s) \<Longrightarrow> trim_rev s = s"
  by (cases s rule: trim_rev.cases) (auto simp: ws2_def ws3_def byte_class)

lemma str_trim_ascii:
  assumes "s \<noteq> []" "is_ascii (hd s)" "\<not> ws1 (hd s)" "is_ascii (last s)" "\<not> ws1 (last s)"
  shows "str_trim s = s"
  using assms trim_start_ascii [of s] trim_rev_ascii [of "rev s"]
  by (simp add: str_trim_def trim_end_def hd_rev)

end
