(* ===== verification/SqlLexer.thy ===== *)
theory SqlLexer
  imports Utf8
begin

text \<open>
  The shared SQL lexer, \<^verbatim>\<open>crates/franken-snowflake-core/src/sql_lexer.rs\<close>: tokens, the lexing
  loop with its unterminated and ambiguous flags, statement counting and splitting, and the
  read / mutating classification every guard is built on.

  The source walks a byte index; the model walks the remaining suffix, so \<^verbatim>\<open>bytes[index..]\<close>
  is the list argument and an arm that advances the index by \<open>n\<close> returns \<open>n\<close>.

  Lemmas: tokens reproduce the input, cut only at scalar boundaries, and are stable when the
  input is cut at token boundaries (so a split statement lexes to its own tokens).
\<close>

section \<open>Tokens\<close>

datatype SqlTokenKind =
  Whitespace | Comment | Word | QuotedIdentifier | StringLiteral | DollarString
  | Variable | Number | Semicolon | Symbol

record SqlToken =
  tok_kind :: SqlTokenKind
  tok_text :: string
  tok_start :: nat

definition is_trivia :: "SqlToken \<Rightarrow> bool" where
  "is_trivia t \<longleftrightarrow> tok_kind t = Whitespace \<or> tok_kind t = Comment"

definition token_word :: "SqlToken \<Rightarrow> string option" where
  "token_word t = (if tok_kind t = Word then Some (to_ascii_lowercase (tok_text t)) else None)"

record SqlLex =
  lex_tokens :: "SqlToken list"
  lex_unterminated :: bool
  lex_ambiguous :: bool

definition is_unreliable :: "SqlLex \<Rightarrow> bool" where
  "is_unreliable l \<longleftrightarrow> lex_unterminated l \<or> lex_ambiguous l"

definition significant :: "SqlLex \<Rightarrow> SqlToken list" where
  "significant l = filter (\<lambda>t. \<not> is_trivia t) (lex_tokens l)"

section \<open>Scanning one token\<close>

definition is_identifier_byte :: "char \<Rightarrow> bool" where
  "is_identifier_byte b \<longleftrightarrow> is_ascii_alphanumeric b \<or> b = CHR ''_'' \<or> b = CHR ''$''"

definition line_end :: "string \<Rightarrow> nat" where
  "line_end s = length (takeWhile (\<lambda>b. b \<noteq> CHR 0x0A) s)"

text \<open>
  The body of a block comment after its opening: bytes consumed, whether it was closed, and
  whether an opening was seen inside.
\<close>

fun block_comment :: "string \<Rightarrow> nat \<times> bool \<times> bool" where
  "block_comment [] = (0, False, False)"
| "block_comment (b # r) =
     (if b = CHR ''*'' \<and> starts_with r ''/'' then (2, True, False)
      else let (n, closed, amb) = block_comment r
           in (Suc n, closed, b = CHR ''/'' \<and> starts_with r ''*'' \<or> amb))"

text \<open>
  The body of a single-quoted string after the quote: a backslash skips two bytes (clamped to
  the end of the input), a doubled quote is an escape, a lone quote closes.
\<close>

fun string_body :: "string \<Rightarrow> nat \<times> bool" where
  "string_body [] = (0, False)"
| "string_body [b] = (1, b = CHR 0x27)"
| "string_body (b # d # r) =
     (if b = CHR 0x5C then (let (n, closed) = string_body r in (n + 2, closed))
      else if b = CHR 0x27 \<and> d = CHR 0x27 then (let (n, closed) = string_body r in (n + 2, closed))
      else if b = CHR 0x27 then (1, True)
      else (let (n, closed) = string_body (d # r) in (Suc n, closed)))"

fun quoted_body :: "string \<Rightarrow> nat \<times> bool" where
  "quoted_body [] = (0, False)"
| "quoted_body [b] = (1, b = CHR 0x22)"
| "quoted_body (b # d # r) =
     (if b = CHR 0x22 \<and> d = CHR 0x22 then (let (n, closed) = quoted_body r in (n + 2, closed))
      else if b = CHR 0x22 then (1, True)
      else (let (n, closed) = quoted_body (d # r) in (Suc n, closed)))"

text \<open>The body of a dollar string after its opening delimiter: bytes consumed and whether it was closed.\<close>

definition dollar_body :: "string \<Rightarrow> nat \<times> bool" where
  "dollar_body s = (case find_sub ''$$'' s of Some off \<Rightarrow> (off + 2, True) | None \<Rightarrow> (length s, False))"

text \<open>\<^verbatim>\<open>char::len_utf8\<close> of the scalar whose lead byte is \<open>b\<close>.\<close>

definition char_len :: "char \<Rightarrow> nat" where
  "char_len b = (if code_of b < 128 then 1 else if code_of b < 224 then 2
                 else if code_of b < 240 then 3 else 4)"

text \<open>
  One turn of the lexing loop on the remaining input: the kind, the bytes consumed, and the
  flags this token raises. The last arm takes one scalar; the \<open>min\<close> is idle on a valid
  string, where the scalar is complete.
\<close>

definition lex_one :: "string \<Rightarrow> SqlTokenKind \<times> nat \<times> bool \<times> bool" where
  "lex_one s =
     (case s of [] \<Rightarrow> (Symbol, 0, False, False)
      | b # r \<Rightarrow>
        if is_ascii_whitespace b then
          (Whitespace, length (takeWhile is_ascii_whitespace s), False, False)
        else if b = CHR ''-'' \<and> starts_with r ''-'' then (Comment, line_end s, False, False)
        else if b = CHR ''/'' \<and> starts_with r ''/'' then (Comment, line_end s, False, False)
        else if b = CHR ''/'' \<and> starts_with r ''*'' then
          (let (n, closed, amb) = block_comment (tl r) in (Comment, n + 2, \<not> closed, amb))
        else if b = CHR 0x27 then
          (let (n, closed) = string_body r in (StringLiteral, Suc n, \<not> closed, False))
        else if b = CHR 0x22 then
          (let (n, closed) = quoted_body r in (QuotedIdentifier, Suc n, \<not> closed, False))
        else if b = CHR ''$'' \<and> starts_with r ''$'' then
          (let (n, closed) = dollar_body (tl r) in (DollarString, n + 2, \<not> closed, False))
        else if b = CHR ''$'' \<and> (case r of n # _ \<Rightarrow> is_ascii_alphanumeric n \<or> n = CHR ''_'' | [] \<Rightarrow> False) then
          (Variable, Suc (length (takeWhile is_identifier_byte r)), False, False)
        else if b = CHR '';'' then (Semicolon, 1, False, False)
        else if is_ascii_alphabetic b \<or> b = CHR ''_'' then
          (Word, length (takeWhile is_identifier_byte s), False, False)
        else if is_ascii_digit b then
          (Number, length (takeWhile (\<lambda>c. is_ascii_alphanumeric c \<or> c = CHR ''.'') s), False, False)
        else (Symbol, min (length s) (char_len b), False, False))"

lemma block_comment_le: "fst (block_comment s) \<le> length s"
  by (induction s rule: block_comment.induct) (auto simp: starts_with_iff split: prod.splits)

lemma string_body_le: "fst (string_body s) \<le> length s"
  by (induction s rule: string_body.induct) (auto split: prod.splits)

lemma quoted_body_le: "fst (quoted_body s) \<le> length s"
  by (induction s rule: quoted_body.induct) (auto split: prod.splits)

lemma dollar_body_le: "fst (dollar_body s) \<le> length s"
  using find_sub_bound [of "''$$''" s] by (auto simp: dollar_body_def split: option.splits)

lemma char_len_pos [simp]: "0 < char_len b"
  by (simp add: char_len_def)

lemma word_start_identifier: "is_ascii_alphabetic b \<or> b = CHR ''_'' \<Longrightarrow> is_identifier_byte b"
  by (auto simp: is_identifier_byte_def is_ascii_alphanumeric_def)

lemma takeWhile_pos: "P (hd s) \<Longrightarrow> s \<noteq> [] \<Longrightarrow> 0 < length (takeWhile P s)"
  by (cases s) auto

text \<open>Which arm of the loop produced a token, with what the arm knows about the input.\<close>

lemma lex_one_cases:
  assumes "lex_one (b # r) = (k, n, u, a)"
  obtains
    (ws) "is_ascii_whitespace b" "k = Whitespace"
      "n = length (takeWhile is_ascii_whitespace (b # r))" "\<not> u" "\<not> a"
  | (dash) "b = CHR ''-''" "starts_with r ''-''" "k = Comment" "n = line_end (b # r)" "\<not> u" "\<not> a"
  | (slash) "b = CHR ''/''" "starts_with r ''/''" "k = Comment" "n = line_end (b # r)" "\<not> u" "\<not> a"
  | (block) m cl where "b = CHR ''/''" "starts_with r ''*''" "block_comment (tl r) = (m, cl, a)"
      "k = Comment" "n = m + 2" "u = (\<not> cl)"
  | (str) m cl where "b = CHR 0x27" "string_body r = (m, cl)" "k = StringLiteral" "n = Suc m"
      "u = (\<not> cl)" "\<not> a"
  | (quoted) m cl where "b = CHR 0x22" "quoted_body r = (m, cl)" "k = QuotedIdentifier"
      "n = Suc m" "u = (\<not> cl)" "\<not> a"
  | (dollar) m cl where "b = CHR ''$''" "starts_with r ''$''" "dollar_body (tl r) = (m, cl)"
      "k = DollarString" "n = m + 2" "u = (\<not> cl)" "\<not> a"
  | (var) c r' where "b = CHR ''$''" "r = c # r'" "is_ascii_alphanumeric c \<or> c = CHR ''_''"
      "k = Variable" "n = Suc (length (takeWhile is_identifier_byte r))" "\<not> u" "\<not> a"
  | (semi) "b = CHR '';''" "k = Semicolon" "n = 1" "\<not> u" "\<not> a"
  | (wrd) "is_ascii_alphabetic b \<or> b = CHR ''_''" "k = Word"
      "n = length (takeWhile is_identifier_byte (b # r))" "\<not> u" "\<not> a"
  | (num) "is_ascii_digit b" "k = Number"
      "n = length (takeWhile (\<lambda>c. is_ascii_alphanumeric c \<or> c = CHR ''.'') (b # r))" "\<not> u" "\<not> a"
  | (other) "k = Symbol" "n = min (length (b # r)) (char_len b)" "\<not> u" "\<not> a"
      "\<not> is_ascii_whitespace b" "b \<notin> {CHR 0x27, CHR 0x22, CHR '';'', CHR ''_''}"
      "\<not> is_ascii_alphanumeric b" "b = CHR ''-'' \<Longrightarrow> \<not> starts_with r ''-''"
      "b = CHR ''/'' \<Longrightarrow> \<not> starts_with r ''/'' \<and> \<not> starts_with r ''*''"
      "b = CHR ''$'' \<Longrightarrow> \<not> starts_with r ''$'' \<and>
         (case r of c # _ \<Rightarrow> \<not> is_ascii_alphanumeric c \<and> c \<noteq> CHR ''_'' | [] \<Rightarrow> True)"
proof -
  show thesis
  using assms
  apply (simp only: lex_one_def list.case)
  apply (split if_split_asm)
   apply (rule ws; simp)
  apply (split if_split_asm)
   apply (rule dash; simp)
  apply (split if_split_asm)
   apply (rule slash; simp)
  apply (split if_split_asm)
   apply (rule block [of "fst (block_comment (tl r))" "fst (snd (block_comment (tl r)))"];
      simp split: prod.splits)
  apply (split if_split_asm)
   apply (rule str [of "fst (string_body r)" "snd (string_body r)"]; simp split: prod.splits)
  apply (split if_split_asm)
   apply (rule quoted [of "fst (quoted_body r)" "snd (quoted_body r)"]; simp split: prod.splits)
  apply (split if_split_asm)
   apply (rule dollar [of "fst (dollar_body (tl r))" "snd (dollar_body (tl r))"];
      simp split: prod.splits)
  apply (split if_split_asm)
   apply (rule var [of "hd r" "tl r"]; simp split: list.splits)
  apply (split if_split_asm)
   apply (rule semi; simp)
  apply (split if_split_asm)
   apply (rule wrd; simp)
  apply (split if_split_asm)
   apply (rule num; simp)
  apply (rule other; auto simp: is_ascii_alphanumeric_def split: list.splits)
  done
qed

lemma lex_one_bounds:
  assumes "lex_one s = (k, n, u, a)" and "s \<noteq> []"
  shows "0 < n \<and> n \<le> length s"
proof -
  obtain b r where s: "s = b # r" using assms by (cases s) auto
  have tw: "length (takeWhile P (b # r)) \<le> length (b # r)" for P by (rule length_takeWhile_le)
  from assms(1) [unfolded s] have "0 < n \<and> n \<le> length (b # r)"
  proof (cases rule: lex_one_cases)
    case ws
    then show ?thesis using tw [of is_ascii_whitespace] by simp
  next
    case dash
    then show ?thesis using tw [of "\<lambda>b. b \<noteq> CHR 0x0A"] by (simp add: line_end_def)
  next
    case slash
    then show ?thesis using tw [of "\<lambda>b. b \<noteq> CHR 0x0A"] by (simp add: line_end_def)
  next
    case (block m cl)
    then have "m \<le> length (tl r)" using block_comment_le [of "tl r"] by simp
    with block(2,5) show ?thesis using starts_with_length [of r "''*''"] by simp
  next
    case (str m cl)
    then show ?thesis using string_body_le [of r] by simp
  next
    case (quoted m cl)
    then show ?thesis using quoted_body_le [of r] by simp
  next
    case (dollar m cl)
    then have "m \<le> length (tl r)" using dollar_body_le [of "tl r"] by simp
    with dollar(2,5) show ?thesis using starts_with_length [of r "''$''"] by simp
  next
    case (var c r')
    then show ?thesis using length_takeWhile_le [of is_identifier_byte r] by simp
  next
    case wrd
    then show ?thesis using tw [of is_identifier_byte] word_start_identifier [of b] by simp
  next
    case num
    then show ?thesis using tw [of "\<lambda>c. is_ascii_alphanumeric c \<or> c = CHR ''.''"]
      by (simp add: is_ascii_alphanumeric_def)
  qed simp_all
  with s show ?thesis by simp
qed

function lex_from :: "nat \<Rightarrow> string \<Rightarrow> SqlToken list \<times> bool \<times> bool" where
  "lex_from start s =
     (if s = [] then ([], False, False)
      else let (k, n, u, a) = lex_one s;
               (ts, u', a') = lex_from (start + n) (drop n s)
           in (\<lparr>tok_kind = k, tok_text = take n s, tok_start = start\<rparr> # ts, u \<or> u', a \<or> a'))"
  by pat_completeness auto
termination
proof (relation "measure (\<lambda>(i, s). length s)", goal_cases)
  case (2 start s k n u a)
  then show ?case using lex_one_bounds [of s] by (cases "lex_one s") fastforce
qed simp

declare lex_from.simps [simp del]

definition lex :: "string \<Rightarrow> SqlLex" where
  "lex sql = (let (ts, u, a) = lex_from 0 sql
              in \<lparr>lex_tokens = ts, lex_unterminated = u, lex_ambiguous = a\<rparr>)"

section \<open>The tokens partition the input\<close>

lemma lex_from_Nil [simp]: "lex_from i [] = ([], False, False)"
  by (simp add: lex_from.simps)

lemma lex_from_step:
  assumes "s \<noteq> []" and "lex_one s = (k, n, u, a)" and "lex_from (i + n) (drop n s) = (ts, u', a')"
  shows "lex_from i s = (\<lparr>tok_kind = k, tok_text = take n s, tok_start = i\<rparr> # ts, u \<or> u', a \<or> a')"
  using assms by (simp add: lex_from.simps [of i s])

lemma lex_from_unfold:
  assumes "s \<noteq> []"
  obtains k n u a ts u' a' where "lex_one s = (k, n, u, a)" "0 < n" "n \<le> length s"
    "lex_from (i + n) (drop n s) = (ts, u', a')"
    "lex_from i s = (\<lparr>tok_kind = k, tok_text = take n s, tok_start = i\<rparr> # ts, u \<or> u', a \<or> a')"
proof -
  obtain k n u a where l: "lex_one s = (k, n, u, a)" by (cases "lex_one s")
  obtain ts u' a' where t: "lex_from (i + n) (drop n s) = (ts, u', a')"
    by (cases "lex_from (i + n) (drop n s)")
  from lex_one_bounds [OF l assms] lex_from_step [OF assms l t] l t show thesis
    by (intro that) auto
qed

lemma lex_from_concat: "lex_from i s = (ts, u, a) \<Longrightarrow> concat (map tok_text ts) = s"
proof (induction "length s" arbitrary: i s ts u a rule: less_induct)
  case less
  show ?case
  proof (cases "s = []")
    case True
    with less.prems show ?thesis by simp
  next
    case False
    then obtain k n u' a' ts' u'' a'' where l: "0 < n" "n \<le> length s"
      "lex_from (i + n) (drop n s) = (ts', u'', a'')"
      "lex_from i s = (\<lparr>tok_kind = k, tok_text = take n s, tok_start = i\<rparr> # ts', u' \<or> u'', a' \<or> a'')"
      by (rule lex_from_unfold)
    from l have "concat (map tok_text ts') = drop n s" by (intro less.hyps) auto
    with l(4) less.prems show ?thesis by auto
  qed
qed

text \<open>Every token starts where the previous one ended.\<close>

primrec contiguous :: "nat \<Rightarrow> SqlToken list \<Rightarrow> bool" where
  "contiguous i [] = True"
| "contiguous i (t # ts) \<longleftrightarrow>
     tok_start t = i \<and> tok_text t \<noteq> [] \<and> contiguous (i + length (tok_text t)) ts"

lemma contiguous_append:
  "contiguous i (ts @ ts') \<longleftrightarrow>
     contiguous i ts \<and> contiguous (i + length (concat (map tok_text ts))) ts'"
  by (induction ts arbitrary: i) (auto simp: add.assoc)

lemma lex_from_contiguous: "lex_from i s = (ts, u, a) \<Longrightarrow> contiguous i ts"
proof (induction "length s" arbitrary: i s ts u a rule: less_induct)
  case less
  show ?case
  proof (cases "s = []")
    case True
    with less.prems show ?thesis by simp
  next
    case False
    then obtain k n u' a' ts' u'' a'' where l: "0 < n" "n \<le> length s"
      "lex_from (i + n) (drop n s) = (ts', u'', a'')"
      "lex_from i s = (\<lparr>tok_kind = k, tok_text = take n s, tok_start = i\<rparr> # ts', u' \<or> u'', a' \<or> a'')"
      by (rule lex_from_unfold)
    from l have "contiguous (i + n) ts'" by (intro less.hyps) auto
    with l less.prems False show ?thesis by (auto simp: min_def)
  qed
qed

section \<open>Cuts fall on character boundaries\<close>

text \<open>
  A prefix that ends with an ASCII byte, or that is followed by one or by nothing, is a valid
  string of its own; every arm of the loop cuts at such a place.
\<close>

lemma valid_cut_before:
  assumes "valid_utf8 s" and "n < length s" and "is_ascii (s ! n)"
  shows "valid_utf8 (take n s) \<and> valid_utf8 (drop n s)"
  using valid_utf8_split [of "take n s" "drop n s"] assms
  by (auto simp: hd_drop_conv_nth ascii_not_cont)

lemma valid_cut_after:
  assumes "valid_utf8 s" and "0 < n" and "n \<le> length s" and "is_ascii (s ! (n - 1))"
  shows "valid_utf8 (take n s)"
proof -
  have "s = take (n - 1) s @ s ! (n - 1) # drop n s"
    using assms id_take_nth_drop [of "n - 1" s] by simp
  then have "valid_utf8 (take (n - 1) s @ [s ! (n - 1)])"
    using valid_utf8_ascii_mid(1) [of "take (n - 1) s" "s ! (n - 1)" "drop n s"] assms by simp
  then show ?thesis using assms take_Suc_conv_app_nth [of "n - 1" s] by simp
qed

lemma valid_takeWhile_ascii:
  "(\<And>c. P c \<Longrightarrow> is_ascii c) \<Longrightarrow> valid_utf8 (takeWhile P s)"
  by (rule valid_utf8_ascii) (auto simp: list_all_iff dest: set_takeWhileD)

lemma identifier_byte_ascii: "is_identifier_byte c \<Longrightarrow> is_ascii c"
  by (auto simp: is_identifier_byte_def byte_class)

lemma block_comment_last:
  "block_comment s = (n, True, a) \<Longrightarrow> 0 < n \<and> n \<le> length s \<and> s ! (n - 1) = CHR ''/''"
proof (induction s arbitrary: n a rule: block_comment.induct)
  case (2 b r)
  then show ?case
    by (cases "b = CHR ''*'' \<and> starts_with r ''/''")
      (auto simp: starts_with_iff nth_Cons' split: prod.splits)
qed simp

lemma block_comment_open: "block_comment s = (n, False, a) \<Longrightarrow> n = length s"
  by (induction s arbitrary: n a rule: block_comment.induct) (auto split: if_splits prod.splits)

lemma string_body_last:
  "string_body s = (n, True) \<Longrightarrow> 0 < n \<and> n \<le> length s \<and> s ! (n - 1) = CHR 0x27"
  by (induction s arbitrary: n rule: string_body.induct)
    (auto simp: nth_Cons' split: if_splits prod.splits)

lemma string_body_open: "string_body s = (n, False) \<Longrightarrow> n = length s"
  by (induction s arbitrary: n rule: string_body.induct) (auto split: if_splits prod.splits)

lemma quoted_body_last:
  "quoted_body s = (n, True) \<Longrightarrow> 0 < n \<and> n \<le> length s \<and> s ! (n - 1) = CHR 0x22"
  by (induction s arbitrary: n rule: quoted_body.induct)
    (auto simp: nth_Cons' split: if_splits prod.splits)

lemma quoted_body_open: "quoted_body s = (n, False) \<Longrightarrow> n = length s"
  by (induction s arbitrary: n rule: quoted_body.induct) (auto split: if_splits prod.splits)

lemma dollar_body_last:
  assumes "dollar_body s = (n, True)"
  shows "0 < n \<and> n \<le> length s \<and> s ! (n - 1) = CHR ''$''"
proof -
  from assms obtain off where n: "n = off + 2" and f: "find_sub ''$$'' s = Some off"
    by (auto simp: dollar_body_def split: option.splits)
  from find_sub_Some [OF f] have b: "off + 2 \<le> length s" and t: "take 2 (drop off s) = ''$$''"
    by (simp_all add: numeral_2_eq_2)
  from t have "take 2 (drop off s) ! 1 = CHR ''$''" by simp
  with b n show ?thesis by simp
qed

lemma dollar_body_open: "dollar_body s = (n, False) \<Longrightarrow> n = length s"
  by (auto simp: dollar_body_def split: option.splits)

lemma char_len_head:
  assumes "valid_utf8 (b # r)"
  shows "min (length (b # r)) (char_len b) = utf8_head (b # r)"
proof -
  have h: "utf8_head (b # r) \<noteq> 0" using assms valid_utf8_unfold [of "b # r"] by simp
  then have "utf8_head (b # r) = char_len b"
    by (auto simp: utf8_head_def char_len_def sc1_def sc2_def sc3_def sc4_def byte_class
        split: if_splits list.splits)
  with utf8_head_le [of "b # r"] show ?thesis by simp
qed

lemma lex_one_valid:
  assumes v: "valid_utf8 s" and l: "lex_one s = (k, n, u, a)"
  shows "valid_utf8 (take n s)"
proof (cases s)
  case (Cons b r)
  have run: "valid_utf8 (take (length (takeWhile P (b # r))) (b # r))"
    if "\<And>c. P c \<Longrightarrow> is_ascii c" for P
    using valid_takeWhile_ascii [OF that] by (metis take_length_takeWhile)
  have line: "valid_utf8 (take (line_end (b # r)) (b # r))"
  proof (cases "line_end (b # r) < length (b # r)")
    case True
    then have "(b # r) ! line_end (b # r) = CHR 0x0A"
      using nth_length_takeWhile [of "\<lambda>b. b \<noteq> CHR 0x0A" "b # r"] by (simp add: line_end_def)
    then show ?thesis using valid_cut_before [OF v [unfolded Cons] True] by (simp add: byte_class)
  qed (use v Cons in auto)
  have close: "valid_utf8 (take m (b # r))"
    if "m = length (b # r) \<or> 0 < m \<and> m \<le> length (b # r) \<and> is_ascii ((b # r) ! (m - 1))" for m
    using that valid_cut_after [OF v [unfolded Cons], of m] v Cons by auto
  have second: "r = c # tl r \<and> length r = Suc (length (tl r))" if "starts_with r [c]" for c
    using that by (cases r) (auto simp: starts_with_def)
  from l [unfolded Cons] show ?thesis
  proof (cases rule: lex_one_cases)
    case ws
    moreover have "is_ascii c" if "is_ascii_whitespace c" for c using that by (auto simp: byte_class)
    ultimately show ?thesis using run [of is_ascii_whitespace] Cons by simp
  next
    case (block m cl)
    note r = second [OF block(2)]
    have "n = length (b # r) \<or> 0 < n \<and> n \<le> length (b # r) \<and> (b # r) ! (n - 1) = CHR ''/''"
      using block_comment_last [of "tl r" m a] block_comment_open [of "tl r" m a] block r
      by (cases cl; cases r) (auto simp: nth_Cons')
    then show ?thesis using close [of n] Cons by (auto simp: byte_class)
  next
    case (str m cl)
    have "n = length (b # r) \<or> 0 < n \<and> n \<le> length (b # r) \<and> (b # r) ! (n - 1) = CHR 0x27"
      using string_body_last [of r m] string_body_open [of r m] str by (cases cl) auto
    then show ?thesis using close [of n] Cons by (auto simp: byte_class)
  next
    case (quoted m cl)
    have "n = length (b # r) \<or> 0 < n \<and> n \<le> length (b # r) \<and> (b # r) ! (n - 1) = CHR 0x22"
      using quoted_body_last [of r m] quoted_body_open [of r m] quoted by (cases cl) auto
    then show ?thesis using close [of n] Cons by (auto simp: byte_class)
  next
    case (dollar m cl)
    note r = second [OF dollar(2)]
    have "n = length (b # r) \<or> 0 < n \<and> n \<le> length (b # r) \<and> (b # r) ! (n - 1) = CHR ''$''"
      using dollar_body_last [of "tl r" m] dollar_body_open [of "tl r" m] dollar r
      by (cases cl; cases r) (auto simp: nth_Cons')
    then show ?thesis using close [of n] Cons by (auto simp: byte_class)
  next
    case (var c r')
    have "valid_utf8 (takeWhile is_identifier_byte r)"
      by (rule valid_takeWhile_ascii) (rule identifier_byte_ascii)
    with var(1,5) Cons show ?thesis by (simp add: byte_class)
  next
    case semi
    then show ?thesis using Cons by (simp add: byte_class)
  next
    case wrd
    then show ?thesis using run [of is_identifier_byte] identifier_byte_ascii Cons by simp
  next
    case num
    moreover have "is_ascii c" if "is_ascii_alphanumeric c \<or> c = CHR ''.''" for c
      using that by (auto simp: byte_class)
    ultimately show ?thesis
      using run [of "\<lambda>c. is_ascii_alphanumeric c \<or> c = CHR ''.''"] Cons by simp
  next
    case other
    have "n = utf8_head (b # r)" using other(2) char_len_head v Cons by simp
    moreover have "valid_utf8 (drop n (b # r))"
      using v Cons valid_utf8_unfold [of "b # r"] calculation by simp
    ultimately show ?thesis
      using v Cons valid_utf8_split [of "take n s" "drop n s"] valid_utf8_hd by fastforce
  qed (use line Cons in simp_all)
qed simp

section \<open>Cutting the input at a token boundary\<close>

lemma block_comment_take:
  "block_comment s = (n, True, a) \<Longrightarrow> n \<le> m \<Longrightarrow> block_comment (take m s) = (n, True, a)"
proof (induction s arbitrary: n a m rule: block_comment.induct)
  case (2 b r)
  show ?case
  proof (cases "b = CHR ''*'' \<and> starts_with r ''/''")
    case True
    then obtain r' where r: "r = ''/'' @ r'" by (auto simp: starts_with_iff)
    from True "2.prems" have "2 \<le> m" by auto
    then obtain m' where "m = Suc (Suc m')" by (metis add_2_eq_Suc le_Suc_ex)
    with True r "2.prems" show ?thesis by (simp add: starts_with_def)
  next
    case False
    then obtain n' a' where n: "n = Suc n'" and b: "block_comment r = (n', True, a')"
      and a: "a = (b = CHR ''/'' \<and> starts_with r ''*'' \<or> a')"
      using "2.prems"(1) by (auto split: prod.splits)
    from n "2.prems" obtain m' where m: "m = Suc m'" "n' \<le> m'" by (cases m) auto
    from block_comment_last [OF b] m have "m' \<noteq> 0" by auto
    then have "starts_with (take m' r) [c] = starts_with r [c]" for c
      by (cases r; cases m') (auto simp: starts_with_def)
    with "2.IH" [OF False b m(2)] False m(1) a n show ?thesis by auto
  qed
qed simp

lemma string_body_take:
  "string_body s = (n, True) \<Longrightarrow> n \<le> m \<Longrightarrow> string_body (take m s) = (n, True)"
proof (induction s arbitrary: n m rule: string_body.induct)
  case (3 b d r)
  show ?case
  proof (cases m)
    case 0
    with "3.prems" string_body_last [of "b # d # r" n] show ?thesis by auto
  next
    case (Suc m')
    note last = string_body_last [of r] string_body_last [of "d # r"]
    show ?thesis
    proof (cases m')
      case 0
      with 3 Suc last show ?thesis by (auto split: if_splits prod.splits)
    next
      case (Suc l)
      have t: "take m (b # d # r) = b # d # take l r" using Suc \<open>m = Suc m'\<close> by simp
      show ?thesis unfolding t
        using "3.prems" Suc \<open>m = Suc m'\<close> "3.IH"(1) [of _ l] "3.IH"(2) [of _ l]
          "3.IH"(3) [of _ "Suc l", unfolded take_Suc_Cons]
        by (auto split: if_splits prod.splits)
    qed
  qed
qed (auto split: if_splits)

lemma quoted_body_take:
  "quoted_body s = (n, True) \<Longrightarrow> n \<le> m \<Longrightarrow> quoted_body (take m s) = (n, True)"
proof (induction s arbitrary: n m rule: quoted_body.induct)
  case (3 b d r)
  show ?case
  proof (cases m)
    case 0
    with "3.prems" quoted_body_last [of "b # d # r" n] show ?thesis by auto
  next
    case (Suc m')
    note last = quoted_body_last [of r] quoted_body_last [of "d # r"]
    show ?thesis
    proof (cases m')
      case 0
      with 3 Suc last show ?thesis by (auto split: if_splits prod.splits)
    next
      case (Suc l)
      have t: "take m (b # d # r) = b # d # take l r" using Suc \<open>m = Suc m'\<close> by simp
      show ?thesis unfolding t
        using "3.prems" Suc \<open>m = Suc m'\<close> "3.IH"(1) [of _ l]
          "3.IH"(2) [of _ "Suc l", unfolded take_Suc_Cons]
        by (auto split: if_splits prod.splits)
    qed
  qed
qed (auto split: if_splits)

lemma find_sub_take:
  "find_sub p s = Some n \<Longrightarrow> p \<noteq> [] \<Longrightarrow> n + length p \<le> m \<Longrightarrow> find_sub p (take m s) = Some n"
proof (induction p s arbitrary: n m rule: find_sub.induct)
  case (2 p c s)
  from 2 obtain m' where m: "m = Suc m'" by (cases m) auto
  show ?case
  proof (cases "starts_with (c # s) p")
    case True
    with 2 m starts_with_take [of p m "c # s"] show ?thesis by simp
  next
    case False
    with "2.prems" obtain n' where n: "n = Suc n'" "find_sub p s = Some n'" by auto
    moreover have "\<not> starts_with (take m (c # s)) p"
      using False starts_with_cut by blast
    ultimately show ?thesis using 2 False m by simp
  qed
qed simp

lemma dollar_body_take:
  "dollar_body s = (n, True) \<Longrightarrow> n \<le> m \<Longrightarrow> dollar_body (take m s) = (n, True)"
  using find_sub_take [of "''$$''" s _ m]
  by (auto simp: dollar_body_def split: option.splits)

lemma line_end_take: "line_end s \<le> m \<Longrightarrow> line_end (take m s) = line_end s"
  by (simp add: line_end_def takeWhile_take)

lemma alpha_start:
  assumes "is_ascii_alphabetic b \<or> b = CHR ''_''"
  shows "\<not> is_ascii_whitespace b"
    and "b \<notin> {CHR ''-'', CHR ''/'', CHR 0x27, CHR 0x22, CHR ''$'', CHR '';''}"
  using assms by (auto simp: byte_class)

lemma digit_start:
  assumes "is_ascii_digit b"
  shows "\<not> is_ascii_whitespace b" and "\<not> is_ascii_alphabetic b"
    and "b \<notin> {CHR ''-'', CHR ''/'', CHR 0x27, CHR 0x22, CHR ''$'', CHR '';'', CHR ''_''}"
  using assms by (auto simp: byte_class)

lemma not_whitespace [simp]:
  "\<not> is_ascii_whitespace CHR ''-''" "\<not> is_ascii_whitespace CHR ''/''" "\<not> is_ascii_whitespace CHR 0x27"
  "\<not> is_ascii_whitespace CHR 0x22" "\<not> is_ascii_whitespace CHR ''$''" "\<not> is_ascii_whitespace CHR '';''"
  by (simp_all add: byte_class)

text \<open>A token does not depend on the input after it, nor on where that input is cut.\<close>

lemma lex_one_take:
  assumes l: "lex_one s = (k, n, u, a)" and "s \<noteq> []" and m: "n \<le> m"
  shows "lex_one (take m s) = (k, n, u, a)"
proof (cases "m < length s")
  case True
  obtain b r where s: "s = b # r" using assms by (cases s) auto
  from lex_one_bounds [OF l assms(2)] m obtain m' where m': "m = Suc m'" by (cases m) auto
  have short: "n < length s" using m True by simp
  have t: "take m s = b # take m' r" using s m' by simp
  have tw: "takeWhile P (b # take m' r) = takeWhile P (b # r)"
    if "n = length (takeWhile P (b # r))" for P
    using takeWhile_take [of P "b # r" m] that m m' by simp
  have le: "line_end (b # take m' r) = line_end (b # r)" if "n = line_end (b # r)"
    using line_end_take [of "b # r" m] that m m' by simp
  have two: "starts_with (take m' r) [c] \<and> tl (take m' r) = take (m' - 1) (tl r)"
    if "starts_with r [c]" "2 \<le> n" for c
    using that m m' by (cases r; cases m') (auto simp: starts_with_def)
  have "lex_one (b # take m' r) = (k, n, u, a)"
    using l [unfolded s]
  proof (cases rule: lex_one_cases)
    case ws
    then show ?thesis using tw [of is_ascii_whitespace] by (simp add: lex_one_def)
  next
    case dash
    have "2 \<le> n" using dash by (cases r) (auto simp: line_end_def starts_with_def)
    with dash two [OF dash(2)] le show ?thesis by (simp add: lex_one_def)
  next
    case slash
    have "2 \<le> n" using slash by (cases r) (auto simp: line_end_def starts_with_def)
    with slash two [OF slash(2)] le show ?thesis by (simp add: lex_one_def)
  next
    case (block p cl)
    have "starts_with (take m' r) ''*''" and "tl (take m' r) = take (m' - 1) (tl r)"
      using two [OF block(2)] block(5) by auto
    moreover have cl: "cl"
      using block_comment_open [of "tl r" p a] block short s by (cases r) (auto simp: starts_with_def)
    ultimately show ?thesis
      using block block_comment_take [of "tl r" p a "m' - 1"] m m'
      by (auto simp: lex_one_def starts_with_iff)
  next
    case (str p cl)
    then have "cl" using string_body_open [of r p] short s by auto
    with str string_body_take [of r p m'] m m' show ?thesis by (simp add: lex_one_def)
  next
    case (quoted p cl)
    then have "cl" using quoted_body_open [of r p] short s by auto
    with quoted quoted_body_take [of r p m'] m m' show ?thesis by (simp add: lex_one_def)
  next
    case (dollar p cl)
    have "starts_with (take m' r) ''$''" and "tl (take m' r) = take (m' - 1) (tl r)"
      using two [OF dollar(2)] dollar(5) by auto
    moreover have "cl"
      using dollar_body_open [of "tl r" p] dollar short s by (cases r) (auto simp: starts_with_def)
    ultimately show ?thesis
      using dollar dollar_body_take [of "tl r" p "m' - 1"] m m' by (simp add: lex_one_def)
  next
    case (var c r')
    have "is_identifier_byte c" using var by (auto simp: is_identifier_byte_def)
    with var m m' obtain m'' where m'': "m' = Suc m''" by (cases m') auto
    have "c \<noteq> CHR ''$''" using var by (auto simp: byte_class)
    moreover have "takeWhile is_identifier_byte (take m' r) = takeWhile is_identifier_byte r"
      using takeWhile_take [of is_identifier_byte r m'] var m m' by simp
    ultimately show ?thesis using var m'' by (auto simp: lex_one_def starts_with_def)
  next
    case semi
    then show ?thesis by (simp add: lex_one_def)
  next
    case wrd
    with tw [of is_identifier_byte] alpha_start [OF wrd(1)] show ?thesis by (auto simp: lex_one_def)
  next
    case num
    with tw [OF num(3)] digit_start [OF num(1)] show ?thesis by (simp add: lex_one_def)
  next
    case other
    have cut: "\<not> starts_with (take m' r) p" if "\<not> starts_with r p" for p
      using that starts_with_cut by blast
    have n: "n = min (length (b # take m' r)) (char_len b)" using other(2) m m' by simp
    have look: "\<not> (b = CHR ''-'' \<and> starts_with (take m' r) ''-'')"
      "\<not> (b = CHR ''/'' \<and> starts_with (take m' r) ''/'')"
      "\<not> (b = CHR ''/'' \<and> starts_with (take m' r) ''*'')"
      "\<not> (b = CHR ''$'' \<and> starts_with (take m' r) ''$'')"
      using other cut by blast+
    have var: "\<not> (b = CHR ''$'' \<and>
        (case take m' r of c # _ \<Rightarrow> is_ascii_alphanumeric c \<or> c = CHR ''_'' | [] \<Rightarrow> False))"
      using other(10) by (cases r; cases m') auto
    have "\<not> (is_ascii_alphabetic b \<or> b = CHR ''_'')" "\<not> is_ascii_digit b"
      using other(6,7) by (auto simp: is_ascii_alphanumeric_def)
    moreover have "b \<noteq> CHR 0x27" "b \<noteq> CHR 0x22" "b \<noteq> CHR '';''" using other(6) by auto
    ultimately show ?thesis
      unfolding lex_one_def list.case if_not_P [OF other(5)] if_not_P [OF look(1)]
        if_not_P [OF look(2)] if_not_P [OF look(3)] if_not_P [OF look(4)] if_not_P [OF var]
      using n other(1,3,4) by simp
  qed
  with t show ?thesis by simp
qed (use l in simp)

section \<open>Slices of the token stream\<close>

text \<open>A token's kind and text: what it is, wherever it starts.\<close>

definition tok_view :: "SqlToken \<Rightarrow> SqlTokenKind \<times> string" where
  "tok_view t = (tok_kind t, tok_text t)"

abbreviation tokens_text :: "SqlToken list \<Rightarrow> string" where
  "tokens_text ts \<equiv> concat (map tok_text ts)"

lemma lex_from_valid:
  "lex_from i s = (ts, u, a) \<Longrightarrow> valid_utf8 s \<Longrightarrow> t \<in> set ts \<Longrightarrow> valid_utf8 (tok_text t)"
proof (induction "length s" arbitrary: i s ts u a rule: less_induct)
  case less
  show ?case
  proof (cases "s = []")
    case True
    with less.prems show ?thesis by simp
  next
    case False
    then obtain k n u' a' ts' u'' a'' where l: "lex_one s = (k, n, u', a')" "0 < n" "n \<le> length s"
      "lex_from (i + n) (drop n s) = (ts', u'', a'')"
      "lex_from i s = (\<lparr>tok_kind = k, tok_text = take n s, tok_start = i\<rparr> # ts', u' \<or> u'', a' \<or> a'')"
      by (rule lex_from_unfold)
    have v: "valid_utf8 (take n s)" using lex_one_valid less.prems(2) l(1) by blast
    then have "valid_utf8 (drop n s)"
      using valid_utf8_suffix [of "take n s" "drop n s"] less.prems(2) by simp
    have d: "length (drop n s) < length s" using l(2,3) unfolding length_drop by linarith
    with less.hyps [OF d l(4)] l v less.prems \<open>valid_utf8 (drop n s)\<close> show ?thesis by auto
  qed
qed

lemma valid_tokens_text:
  "(\<And>t. t \<in> set ts \<Longrightarrow> valid_utf8 (tok_text t)) \<Longrightarrow> valid_utf8 (tokens_text ts)"
  by (induction ts) (auto intro: valid_utf8_append)

lemma lex_from_shift:
  assumes "lex_from i s = (ts, u, a)"
  shows "\<exists>ts'. lex_from j s = (ts', u, a) \<and> map tok_view ts' = map tok_view ts"
  using assms
proof (induction "length s" arbitrary: i j s ts u a rule: less_induct)
  case less
  show ?case
  proof (cases "s = []")
    case True
    with less.prems show ?thesis by simp
  next
    case False
    then obtain k n u' a' ts' u'' a'' where l: "lex_one s = (k, n, u', a')" "0 < n" "n \<le> length s"
      "lex_from (i + n) (drop n s) = (ts', u'', a'')"
      "lex_from i s = (\<lparr>tok_kind = k, tok_text = take n s, tok_start = i\<rparr> # ts', u' \<or> u'', a' \<or> a'')"
      by (rule lex_from_unfold)
    have d: "length (drop n s) < length s" using l(2,3) unfolding length_drop by linarith
    from less.hyps [OF d l(4), of "j + n"] obtain ts'' where
      "lex_from (j + n) (drop n s) = (ts'', u'', a'')" "map tok_view ts'' = map tok_view ts'"
      by blast
    with lex_from_step [OF False l(1)] l(5) less.prems show ?thesis by (auto simp: tok_view_def)
  qed
qed

lemma lex_from_prefix:
  "lex_from i s = (ts @ ts', u, a) \<Longrightarrow>
     \<exists>u' a'. lex_from i (tokens_text ts) = (ts, u', a') \<and> (u' \<longrightarrow> u) \<and> (a' \<longrightarrow> a)"
proof (induction ts arbitrary: i s u a)
  case Nil
  show ?case by (intro exI [of _ False]) simp
next
  case (Cons t ts)
  then have "s \<noteq> []" by auto
  then obtain k n v b us v' b' where l: "lex_one s = (k, n, v, b)" "0 < n" "n \<le> length s"
    "lex_from (i + n) (drop n s) = (us, v', b')"
    "lex_from i s = (\<lparr>tok_kind = k, tok_text = take n s, tok_start = i\<rparr> # us, v \<or> v', b \<or> b')"
    by (rule lex_from_unfold)
  with Cons.prems have us: "us = ts @ ts'" and u: "u = (v \<or> v')" "a = (b \<or> b')"
    and t: "t = \<lparr>tok_kind = k, tok_text = take n s, tok_start = i\<rparr>" by auto
  from Cons.IH [OF l(4) [unfolded us]] obtain u' a' where
    r: "lex_from (i + n) (tokens_text ts) = (ts, u', a')" "u' \<longrightarrow> v'" "a' \<longrightarrow> b'" by blast
  let ?c = "take n s @ tokens_text ts"
  have "s = ?c @ tokens_text ts'"
    using lex_from_concat [OF Cons.prems] t by simp
  then have c: "?c = take (length ?c) s" by (metis append_eq_conv_conj)
  have "lex_one ?c = (k, n, v, b)"
    using lex_one_take [OF l(1) \<open>s \<noteq> []\<close>, of "length ?c"] l(3) c by simp
  moreover have "?c \<noteq> []" "take n ?c = take n s" "drop n ?c = tokens_text ts"
    using l(2,3) \<open>s \<noteq> []\<close> by (auto simp: min_def)
  ultimately have "lex_from i ?c = (t # ts, v \<or> u', b \<or> a')"
    using lex_from_step [of ?c k n v b i ts u' a'] r(1) t by simp
  with r u t show ?case by auto
qed

lemma lex_from_suffix:
  "lex_from i s = (ts @ ts', u, a) \<Longrightarrow>
     \<exists>u' a'. lex_from (i + length (tokens_text ts)) (tokens_text ts') = (ts', u', a') \<and>
       (u' \<longrightarrow> u) \<and> (a' \<longrightarrow> a)"
proof (induction ts arbitrary: i s u a)
  case Nil
  with lex_from_concat [of i s ts' u a] show ?case by auto
next
  case (Cons t ts)
  then have "s \<noteq> []" by auto
  then obtain k n v b us v' b' where l: "lex_one s = (k, n, v, b)" "0 < n" "n \<le> length s"
    "lex_from (i + n) (drop n s) = (us, v', b')"
    "lex_from i s = (\<lparr>tok_kind = k, tok_text = take n s, tok_start = i\<rparr> # us, v \<or> v', b \<or> b')"
    by (rule lex_from_unfold)
  with Cons.prems have "us = ts @ ts'" and "u = (v \<or> v')" "a = (b \<or> b')"
    and "t = \<lparr>tok_kind = k, tok_text = take n s, tok_start = i\<rparr>" by auto
  with Cons.IH [of "i + n" "drop n s" v' b'] l show ?case by (auto simp: min_def add.assoc)
qed

text \<open>
  A run of whole tokens cut out of a text lexes to those tokens again, and raises no flag the
  text did not raise.
\<close>

lemma lex_from_slice:
  assumes "lex_from i s = (p @ mid @ q, u, a)"
  obtains mid' u' a' where "lex_from j (tokens_text mid) = (mid', u', a')"
    "map tok_view mid' = map tok_view mid" "u' \<longrightarrow> u" "a' \<longrightarrow> a"
proof -
  from lex_from_suffix [OF assms] obtain u1 a1 where
    1: "lex_from (i + length (tokens_text p)) (tokens_text (mid @ q)) = (mid @ q, u1, a1)"
       "u1 \<longrightarrow> u" "a1 \<longrightarrow> a" by blast
  from lex_from_prefix [OF 1(1)] obtain u2 a2 where
    2: "lex_from (i + length (tokens_text p)) (tokens_text mid) = (mid, u2, a2)"
       "u2 \<longrightarrow> u1" "a2 \<longrightarrow> a1" by blast
  from lex_from_shift [OF 2(1), of j] 1 2 that show thesis by blast
qed

lemma lex_token_slice:
  assumes "lex_from 0 s = (p @ t # q, u, a)" and v: "valid_utf8 s"
  shows "str_get s (tok_start t) (tok_start t + length (tok_text t)) = Some (tok_text t)"
proof -
  have "valid_utf8 (tokens_text ts)" if "set ts \<subseteq> set (p @ t # q)" for ts
    using lex_from_valid [OF assms] that by (intro valid_tokens_text) auto
  from this [of p] this [of "[t]"] this [of q]
  have "valid_utf8 (tokens_text p)" "valid_utf8 (tok_text t)" "valid_utf8 (tokens_text q)" by auto
  moreover have "tok_start t = length (tokens_text p)"
    using lex_from_contiguous [OF assms(1)] by (simp add: contiguous_append)
  ultimately show ?thesis
    using str_get_append [of "tokens_text p" "tok_text t" "tokens_text q"]
      lex_from_concat [OF assms(1)] by simp
qed

section \<open>Properties of the lexer\<close>

text \<open>
  C3. Every byte of the input belongs to exactly one token: concatenating the token texts gives
  the input back, and each token starts where the one before it ended.
\<close>

theorem lex_partitions_input:
  "tokens_text (lex_tokens (lex sql)) = sql \<and> contiguous 0 (lex_tokens (lex sql))"
  using lex_from_concat [of 0 sql] lex_from_contiguous [of 0 sql]
  by (cases "lex_from 0 sql") (simp add: lex_def)

text \<open>
  On a valid UTF-8 string the lexer never slices inside a character: the range of every
  token is one \<^verbatim>\<open>str::get\<close> accepts, and its text is that slice (so \<^verbatim>\<open>&sql[start..index]\<close> does
  not panic, whatever the bytes after a backslash or in an unterminated string).
\<close>

theorem lex_slices_at_boundaries:
  assumes "valid_utf8 sql" and "t \<in> set (lex_tokens (lex sql))"
  shows "str_get sql (tok_start t) (tok_start t + length (tok_text t)) = Some (tok_text t)"
proof -
  obtain ts u a where l: "lex_from 0 sql = (ts, u, a)" by (cases "lex_from 0 sql")
  with assms(2) obtain p q where "ts = p @ t # q" by (auto simp: lex_def dest: split_list)
  with l lex_token_slice assms(1) show ?thesis by blast
qed

definition two_byte_sample :: string where
  "two_byte_sample = [CHR 0xC3, CHR 0xA9, CHR ''a'']"

lemma two_byte_sample_valid: "valid_utf8 two_byte_sample"
  by code_simp

theorem lex_slices_at_boundaries_witness:
  "str_get two_byte_sample 2 3 = Some ''a''"
proof -
  have "\<lparr>tok_kind = Word, tok_text = ''a'', tok_start = 2\<rparr> \<in> set (lex_tokens (lex two_byte_sample))"
    by code_simp
  from lex_slices_at_boundaries [OF two_byte_sample_valid this] show ?thesis by simp
qed

end
