(* ===== verification/SqlStatements.thy ===== *)
theory SqlStatements
  imports SqlLexer
begin

text \<open>
  What the guards read off the token stream (\<^verbatim>\<open>sql_lexer.rs\<close>): statement counting and
  splitting, the read / mutating classification, the side-effect check, and the statement
  boundary checks of the command line (\<^verbatim>\<open>crates/franken-snowflake-cli/src/lib.rs\<close>).

  Lemmas: splitting and counting implement the same segmentation of the token stream, each
  split statement lexes to exactly the tokens of its segment, and the read classification of
  a text is the classification of its segments.
\<close>

section \<open>Counting and splitting statements\<close>

fun count_go :: "bool \<Rightarrow> SqlToken list \<Rightarrow> nat" where
  "count_go content [] = (if content then 1 else 0)"
| "count_go content (t # ts) =
     (if tok_kind t = Semicolon then (if content then 1 else 0) + count_go False ts
      else count_go True ts)"

definition statement_count :: "SqlLex \<Rightarrow> nat" where
  "statement_count l = count_go False (significant l)"

fun empty_go :: "bool \<Rightarrow> SqlToken list \<Rightarrow> bool" where
  "empty_go content [] = False"
| "empty_go content (t # ts) =
     (if tok_kind t = Semicolon then (if \<not> content then True else empty_go False ts)
      else empty_go True ts)"

definition has_empty_statement :: "SqlLex \<Rightarrow> bool" where
  "has_empty_statement l = empty_go False (significant l)"

definition lex_words :: "SqlLex \<Rightarrow> string list" where
  "lex_words l = List.map_filter token_word (lex_tokens l)"

text \<open>\<^verbatim>\<open>Iterator::find_map\<close>.\<close>

fun find_map :: "('a \<Rightarrow> 'b option) \<Rightarrow> 'a list \<Rightarrow> 'b option" where
  "find_map f [] = None"
| "find_map f (x # xs) = (case f x of Some y \<Rightarrow> Some y | None \<Rightarrow> find_map f xs)"

definition first_word :: "SqlLex \<Rightarrow> string option" where
  "first_word l = find_map token_word (significant l)"

text \<open>Pushing the text of a finished span, when there is one and \<^verbatim>\<open>sql.get\<close> yields it.\<close>

definition span_text :: "string \<Rightarrow> (nat \<times> nat) option \<Rightarrow> string list" where
  "span_text sql span =
     (case span of None \<Rightarrow> []
      | Some (i, j) \<Rightarrow> (case str_get sql i j of Some t \<Rightarrow> [t] | None \<Rightarrow> []))"

fun split_go :: "string \<Rightarrow> (nat \<times> nat) option \<Rightarrow> SqlToken list \<Rightarrow> string list" where
  "split_go sql span [] = span_text sql span"
| "split_go sql span (t # ts) =
     (if tok_kind t = Semicolon then span_text sql span @ split_go sql None ts
      else let e = tok_start t + length (tok_text t)
           in split_go sql (Some (case span of None \<Rightarrow> (tok_start t, e) | Some (i, _) \<Rightarrow> (i, e))) ts)"

definition split_statements :: "string \<Rightarrow> string list" where
  "split_statements sql = split_go sql None (significant (lex sql))"

section \<open>Classifying a statement\<close>

definition READ_VERBS :: "string list" where
  "READ_VERBS = [''select'', ''show'', ''describe'', ''desc'', ''explain'', ''list'', ''ls'']"

definition MUTATING_VERBS :: "string list" where
  "MUTATING_VERBS =
     [''alter'', ''begin'', ''call'', ''commit'', ''copy'', ''create'', ''delete'', ''drop'',
      ''execute'', ''get'', ''grant'', ''insert'', ''merge'', ''put'', ''remove'', ''revoke'',
      ''rm'', ''rollback'', ''set'', ''truncate'', ''undrop'', ''unset'', ''update'', ''use'']"

definition is_mutating_verb :: "string \<Rightarrow> bool" where
  "is_mutating_verb w \<longleftrightarrow> w \<in> set MUTATING_VERBS"

text \<open>The scan after \<^verbatim>\<open>WITH\<close> for the main verb, at the given parenthesis depth.\<close>

fun with_scan :: "nat \<Rightarrow> SqlToken list \<Rightarrow> bool" where
  "with_scan depth [] = False"
| "with_scan depth (t # ts) =
     (let depth = (if tok_text t = ''('' then depth + 1
                   else if tok_text t = '')'' then depth - 1 else depth)
      in if depth \<noteq> 0 then with_scan depth ts
         else case token_word t of
                Some w \<Rightarrow> if w = ''select'' then True
                          else if is_mutating_verb w then False else with_scan depth ts
              | None \<Rightarrow> with_scan depth ts)"

definition is_read_tokens :: "SqlToken list \<Rightarrow> bool" where
  "is_read_tokens ts =
     (case dropWhile (\<lambda>t. tok_text t = ''('') ts of
        [] \<Rightarrow> False
      | t # rest \<Rightarrow>
          (case token_word t of
             None \<Rightarrow> False
           | Some first \<Rightarrow>
               if first \<in> set READ_VERBS then True
               else if first \<noteq> ''with'' then False
               else with_scan 0 rest))"

definition is_read_statement :: "SqlLex \<Rightarrow> bool" where
  "is_read_statement l = is_read_tokens (significant l)"

definition READ_ONLY_SYSTEM_FUNCTIONS :: "string list" where
  "READ_ONLY_SYSTEM_FUNCTIONS =
     [''system$allowlist'', ''system$allowlist_privatelink'',
      ''system$behavior_change_bundle_status'', ''system$clustering_depth'',
      ''system$clustering_information'', ''system$clustering_ratio'',
      ''system$current_user_task_name'', ''system$explain_json_to_text'',
      ''system$explain_plan_json'', ''system$get_predecessor_return_value'',
      ''system$get_privatelink_config'', ''system$get_tag'', ''system$get_tag_allowed_values'',
      ''system$get_tag_on_current_column'', ''system$get_tag_on_current_table'',
      ''system$last_change_commit_time'', ''system$pipe_status'',
      ''system$stream_get_table_timestamp'', ''system$stream_has_data'', ''system$typeof'',
      ''system$wait'', ''system$whitelist'', ''system$whitelist_privatelink'']"

definition effect_word :: "string \<Rightarrow> bool" where
  "effect_word w \<longleftrightarrow>
     starts_with w ''system$'' \<and> w \<notin> set READ_ONLY_SYSTEM_FUNCTIONS \<or> w = ''nextval''"

definition read_side_effect :: "SqlLex \<Rightarrow> string option" where
  "read_side_effect l = List.find effect_word (lex_words l)"

definition is_side_effect_free_read :: "string \<Rightarrow> bool" where
  "is_side_effect_free_read sql =
     (if is_unreliable (lex sql) then False
      else let statements = split_statements sql
           in statements \<noteq> [] \<and>
              list_all (\<lambda>s. let l = lex s in is_read_statement l \<and> read_side_effect l = None)
                statements)"

section \<open>The statement-boundary checks of the command line\<close>

definition has_multiple_statements :: "string \<Rightarrow> bool" where
  "has_multiple_statements sql =
     (let l = lex sql;
          separators = length (filter (\<lambda>t. tok_kind t = Semicolon) (significant l))
      in is_unreliable l \<or> statement_count l > 1 \<or> separators > 1)"

datatype AmbiguityReason = UnterminatedSql | NestedBlockComment

definition ambiguous_sql_reason :: "string \<Rightarrow> AmbiguityReason option" where
  "ambiguous_sql_reason sql =
     (let l = lex sql
      in if lex_unterminated l then Some UnterminatedSql
         else if lex_ambiguous l then Some NestedBlockComment else None)"

definition is_select_like :: "string \<Rightarrow> bool" where
  "is_select_like sql =
     (let l = lex sql
      in \<not> is_unreliable l \<and> is_read_statement l \<and> read_side_effect l = None)"

section \<open>Segments of the token stream\<close>

text \<open>
  The reference reading of a text: its significant tokens cut at the semicolons, empty
  segments dropped.
\<close>

fun segments :: "SqlToken list \<Rightarrow> SqlToken list \<Rightarrow> SqlToken list list" where
  "segments acc [] = (if acc = [] then [] else [acc])"
| "segments acc (t # ts) =
     (if tok_kind t = Semicolon then (if acc = [] then [] else [acc]) @ segments [] ts
      else segments (acc @ [t]) ts)"

definition statement_tokens :: "string \<Rightarrow> SqlToken list list" where
  "statement_tokens sql = segments [] (significant (lex sql))"

lemma count_go_segments: "count_go (acc \<noteq> []) ts = length (segments acc ts)"
proof (induction acc ts rule: segments.induct)
  case (2 acc t ts)
  then show ?case by auto
qed simp

lemma segments_nonempty: "seg \<in> set (segments acc ts) \<Longrightarrow> seg \<noteq> []"
  by (induction acc ts rule: segments.induct) (auto split: if_splits)

text \<open>What the classification looks at is the kind and the text of each token.\<close>

lemma token_word_view: "tok_view t = tok_view t' \<Longrightarrow> token_word t = token_word t'"
  by (simp add: tok_view_def token_word_def)

lemma is_trivia_view: "tok_view t = tok_view t' \<Longrightarrow> is_trivia t = is_trivia t'"
  by (simp add: tok_view_def is_trivia_def)

lemma with_scan_view:
  "map tok_view ts = map tok_view ts' \<Longrightarrow> with_scan d ts = with_scan d ts'"
proof (induction ts arbitrary: d ts')
  case (Cons t ts)
  then obtain u us where u: "ts' = u # us" "tok_view t = tok_view u" "map tok_view ts = map tok_view us"
    by (cases ts') auto
  have "tok_text t = tok_text u" using u(2) by (simp add: tok_view_def)
  moreover have "with_scan d' ts = with_scan d' us" for d' using Cons.IH u(3) by blast
  ultimately show ?case unfolding u(1) with_scan.simps token_word_view [OF u(2)]
    by (simp add: Let_def split: option.split)
qed simp

lemma dropWhile_view:
  "map tok_view ts = map tok_view ts' \<Longrightarrow>
     map tok_view (dropWhile (\<lambda>t. tok_text t = w) ts) =
     map tok_view (dropWhile (\<lambda>t. tok_text t = w) ts')"
proof (induction ts arbitrary: ts')
  case (Cons t ts)
  then show ?case by (cases ts') (auto simp: tok_view_def)
qed simp

lemma is_read_tokens_view:
  assumes "map tok_view ts = map tok_view ts'"
  shows "is_read_tokens ts = is_read_tokens ts'"
proof -
  let ?skip = "dropWhile (\<lambda>t. tok_text t = ''('')"
  have v: "map tok_view (?skip ts) = map tok_view (?skip ts')" by (rule dropWhile_view [OF assms])
  show ?thesis
  proof (cases "?skip ts")
    case Nil
    moreover from Nil v have "?skip ts' = []" by (simp del: dropWhile_eq_Nil_conv)
    ultimately show ?thesis by (simp add: is_read_tokens_def del: dropWhile_eq_Nil_conv)
  next
    case (Cons t r)
    with v obtain t' r' where c: "?skip ts' = t' # r'" "tok_view t = tok_view t'"
      "map tok_view r = map tok_view r'"
      by (cases "?skip ts'") auto
    then show ?thesis
      using with_scan_view [OF c(3), of 0] token_word_view [OF c(2)] Cons
      by (simp add: is_read_tokens_def split: option.split)
  qed
qed

lemma filter_view:
  "map tok_view ts = map tok_view ts' \<Longrightarrow>
     map tok_view (filter (\<lambda>t. \<not> is_trivia t) ts) = map tok_view (filter (\<lambda>t. \<not> is_trivia t) ts')"
proof (induction ts arbitrary: ts')
  case (Cons t ts)
  then obtain u us where u: "ts' = u # us" "tok_view t = tok_view u" "map tok_view ts = map tok_view us"
    by (cases ts') auto
  with Cons.IH [OF u(3)] is_trivia_view [OF u(2)] show ?case by simp
qed simp

text \<open>The significant tokens of a text, each as its kind and text.\<close>

definition statement_view :: "string \<Rightarrow> (SqlTokenKind \<times> string) list" where
  "statement_view s = map tok_view (significant (lex s))"

lemma lex_tokens_from: "lex_from 0 s = (ts, u, a) \<Longrightarrow> lex_tokens (lex s) = ts"
  by (simp add: lex_def)

text \<open>The text of a run of tokens, cut out of the whole by its span, lexes to those tokens.\<close>

lemma slice_statement:
  assumes l: "lex_from 0 sql = (p @ mid @ q, u, a)" and v: "valid_utf8 sql"
  shows "str_get sql (length (tokens_text p)) (length (tokens_text p) + length (tokens_text mid))
           = Some (tokens_text mid)"
    and "statement_view (tokens_text mid) = map tok_view (filter (\<lambda>t. \<not> is_trivia t) mid)"
    and "is_unreliable (lex (tokens_text mid)) \<Longrightarrow> is_unreliable (lex sql)"
proof -
  have "valid_utf8 (tokens_text ts)" if "set ts \<subseteq> set (p @ mid @ q)" for ts
    using lex_from_valid [OF l v] that by (intro valid_tokens_text) auto
  then have "valid_utf8 (tokens_text p)" "valid_utf8 (tokens_text mid)" "valid_utf8 (tokens_text q)"
    by auto
  then show "str_get sql (length (tokens_text p)) (length (tokens_text p) + length (tokens_text mid))
      = Some (tokens_text mid)"
    using str_get_append lex_from_concat [OF l] by fastforce
  obtain mid' u' a' where m: "lex_from 0 (tokens_text mid) = (mid', u', a')"
    "map tok_view mid' = map tok_view mid" "u' \<longrightarrow> u" "a' \<longrightarrow> a"
    using lex_from_slice [OF l] by blast
  from filter_view [OF m(2)] m(1)
  show "statement_view (tokens_text mid) = map tok_view (filter (\<lambda>t. \<not> is_trivia t) mid)"
    by (simp add: statement_view_def significant_def lex_def)
  from m l show "is_unreliable (lex (tokens_text mid)) \<Longrightarrow> is_unreliable (lex sql)"
    by (auto simp: is_unreliable_def lex_def)
qed

text \<open>
  The splitting loop against the segmentation: \<open>mid\<close> is the span being built (its first and
  last token significant), \<open>w\<close> the trivia after it.
\<close>

lemma split_go_segments:
  assumes "lex_from 0 sql = (p @ mid @ w @ ts, u, a)" and "valid_utf8 sql"
    and "span = (if mid = [] then None
           else Some (length (tokens_text p), length (tokens_text p) + length (tokens_text mid)))"
    and "list_all is_trivia w" and "mid \<noteq> [] \<Longrightarrow> filter (\<lambda>t. \<not> is_trivia t) mid \<noteq> []"
  shows "map statement_view (split_go sql span (filter (\<lambda>t. \<not> is_trivia t) ts)) =
           map (map tok_view)
             (segments (filter (\<lambda>t. \<not> is_trivia t) mid) (filter (\<lambda>t. \<not> is_trivia t) ts))
         \<and> (\<forall>s \<in> set (split_go sql span (filter (\<lambda>t. \<not> is_trivia t) ts)).
              is_unreliable (lex s) \<longrightarrow> is_unreliable (lex sql))"
  using assms
proof (induction ts arbitrary: p mid w span)
  case Nil
  with slice_statement [OF Nil.prems(1,2)] show ?case by (auto simp: span_text_def)
next
  case (Cons t ts)
  note slice = slice_statement [OF Cons.prems(1,2)]
  have span: "span_text sql span = (if mid = [] then [] else [tokens_text mid])"
    using Cons.prems(3) slice(1) by (simp add: span_text_def)
  show ?case
  proof (cases "is_trivia t")
    case True
    with Cons.IH [of p mid "w @ [t]" span] Cons.prems show ?thesis by simp
  next
    case sig: False
    show ?thesis
    proof (cases "tok_kind t = Semicolon")
      case True
      have "map statement_view (split_go sql None (filter (\<lambda>t. \<not> is_trivia t) ts)) =
             map (map tok_view) (segments [] (filter (\<lambda>t. \<not> is_trivia t) ts))
         \<and> (\<forall>s \<in> set (split_go sql None (filter (\<lambda>t. \<not> is_trivia t) ts)).
              is_unreliable (lex s) \<longrightarrow> is_unreliable (lex sql))"
        using Cons.IH [of "p @ mid @ w @ [t]" "[]" "[]" None] Cons.prems(1,2) by simp
      with True sig span slice Cons.prems(5) show ?thesis by auto
    next
      case False
      have start: "tok_start t = length (tokens_text (p @ mid @ w))"
        using lex_from_contiguous [OF Cons.prems(1)] contiguous_append [of 0 "p @ mid @ w" "t # ts"]
        by simp
      have fw: "filter (\<lambda>t. \<not> is_trivia t) w = []"
        using Cons.prems(4) by (simp add: filter_empty_conv list_all_iff)
      show ?thesis
      proof (cases "mid = []")
        case True
        have "map statement_view (split_go sql
               (Some (tok_start t, tok_start t + length (tok_text t))) (filter (\<lambda>t. \<not> is_trivia t) ts)) =
               map (map tok_view) (segments [t] (filter (\<lambda>t. \<not> is_trivia t) ts))
           \<and> (\<forall>s \<in> set (split_go sql (Some (tok_start t, tok_start t + length (tok_text t)))
                 (filter (\<lambda>t. \<not> is_trivia t) ts)). is_unreliable (lex s) \<longrightarrow> is_unreliable (lex sql))"
          using Cons.IH [of "p @ w" "[t]" "[]"] Cons.prems(1,2) sig start True by simp
        with True sig False Cons.prems(3) show ?thesis by simp
      next
        case mid: False
        let ?span = "Some (length (tokens_text p), length (tokens_text p) + length (tokens_text (mid @ w @ [t])))"
        have "map statement_view (split_go sql ?span (filter (\<lambda>t. \<not> is_trivia t) ts)) =
               map (map tok_view)
                 (segments (filter (\<lambda>t. \<not> is_trivia t) mid @ [t]) (filter (\<lambda>t. \<not> is_trivia t) ts))
           \<and> (\<forall>s \<in> set (split_go sql ?span (filter (\<lambda>t. \<not> is_trivia t) ts)).
                is_unreliable (lex s) \<longrightarrow> is_unreliable (lex sql))"
          using Cons.IH [of p "mid @ w @ [t]" "[]" ?span] Cons.prems(1,2) sig fw by simp
        with mid sig False Cons.prems(3) start show ?thesis by (simp add: add.assoc)
      qed
    qed
  qed
qed

lemma split_statements_segments:
  assumes "valid_utf8 sql"
  shows "map statement_view (split_statements sql) = map (map tok_view) (statement_tokens sql)"
    and "s \<in> set (split_statements sql) \<Longrightarrow> is_unreliable (lex s) \<Longrightarrow> is_unreliable (lex sql)"
proof -
  obtain ts u a where l: "lex_from 0 sql = (ts, u, a)" by (cases "lex_from 0 sql")
  from split_go_segments [of sql "[]" "[]" "[]" ts u a None] l assms
  show "map statement_view (split_statements sql) = map (map tok_view) (statement_tokens sql)"
    and "s \<in> set (split_statements sql) \<Longrightarrow> is_unreliable (lex s) \<Longrightarrow> is_unreliable (lex sql)"
    by (auto simp: split_statements_def statement_tokens_def significant_def lex_def)
qed

lemma map_filter_trivia:
  "List.map_filter token_word (filter (\<lambda>t. \<not> is_trivia t) ts) = List.map_filter token_word ts"
  by (induction ts) (auto simp: is_trivia_def token_word_def List.map_filter_def)

lemma read_side_effect_significant:
  "read_side_effect l = None \<longleftrightarrow> list_all (\<lambda>w. \<not> effect_word w) (List.map_filter token_word (significant l))"
  by (auto simp: read_side_effect_def lex_words_def significant_def map_filter_trivia
      find_None_iff list_all_iff)

lemma map_filter_view:
  "map tok_view ts = map tok_view ts' \<Longrightarrow>
     List.map_filter token_word ts = List.map_filter token_word ts'"
proof (induction ts arbitrary: ts')
  case (Cons t ts)
  then obtain u us where u: "ts' = u # us" "tok_view t = tok_view u" "map tok_view ts = map tok_view us"
    by (cases ts') auto
  from Cons.IH [OF u(3)] show ?case unfolding u(1) List.map_filter_simps token_word_view [OF u(2)]
    by (simp split: option.split)
qed simp

lemma lex_words_significant: "lex_words l = List.map_filter token_word (significant l)"
  by (simp add: lex_words_def significant_def map_filter_trivia)

text \<open>An opening parenthesis is a symbol: it is never a word.\<close>

lemma lex_from_paren:
  "lex_from i s = (ts, u, a) \<Longrightarrow> t \<in> set ts \<Longrightarrow> tok_text t = ''('' \<Longrightarrow> token_word t = None"
proof (induction "length s" arbitrary: i s ts u a rule: less_induct)
  case less
  show ?case
  proof (cases "s = []")
    case True
    with less.prems show ?thesis by simp
  next
    case False
    then obtain k n u' a' ts' u'' a'' where l: "lex_one s = (k, n, u', a')" "0 < n" "n \<le> length s"
      "lex_from (i + n) (drop n s) = (ts', u'', a'')"
      "lex_from i s = (\<lparr>tok_kind = k, tok_text = take n s, tok_start = i\<rparr> # ts', u' \<or> u'', a' \<or> a'')"
      by (rule lex_from_unfold)
    obtain b r where s: "s = b # r" using False by (cases s) auto
    have "k \<noteq> Word" if "take n s = ''(''"
    proof -
      from that l(2) s have "b = CHR ''(''" by (cases n) auto
      moreover have "\<not> (is_ascii_alphabetic CHR ''('' \<or> CHR ''('' = CHR ''_'')" by code_simp
      ultimately have "\<not> (is_ascii_alphabetic b \<or> b = CHR ''_'')" by simp
      from l(1) [unfolded s] this show ?thesis by (cases rule: lex_one_cases) auto
    qed
    moreover have d: "length (drop n s) < length s" using l(2,3) unfolding length_drop by linarith
    ultimately show ?thesis using less.hyps [OF d l(4)] l less.prems
      by (auto simp: token_word_def)
  qed
qed

lemma map_filter_dropWhile:
  "(\<And>t. t \<in> set ts \<Longrightarrow> P t \<Longrightarrow> f t = None) \<Longrightarrow>
     List.map_filter f (dropWhile P ts) = List.map_filter f ts"
  by (induction ts) (auto simp: List.map_filter_simps)

lemma read_statement_first_word:
  assumes "is_read_statement (lex sql)"
  obtains v ws where "lex_words (lex sql) = v # ws" and "v \<in> set READ_VERBS \<or> v = ''with''"
proof -
  let ?ts = "significant (lex sql)"
  obtain t rest v where t: "dropWhile (\<lambda>t. tok_text t = ''('') ?ts = t # rest" "token_word t = Some v"
    "v \<in> set READ_VERBS \<or> v = ''with''"
    using assms by (auto simp: is_read_statement_def is_read_tokens_def split: list.splits option.splits if_splits)
  have "token_word t = None" if "t \<in> set ?ts" "tok_text t = ''(''" for t
    using that lex_from_paren [of 0 sql]
    by (cases "lex_from 0 sql") (auto simp: significant_def lex_def)
  then have "lex_words (lex sql) = List.map_filter token_word (t # rest)"
    unfolding lex_words_significant t(1) [symmetric] by (subst map_filter_dropWhile) auto
  with t that show thesis by (simp add: List.map_filter_simps)
qed

text \<open>What makes one segment harmless, on its tokens.\<close>

definition harmless_tokens :: "SqlToken list \<Rightarrow> bool" where
  "harmless_tokens ts \<longleftrightarrow>
     is_read_tokens ts \<and> list_all (\<lambda>w. \<not> effect_word w) (List.map_filter token_word ts)"

lemma harmless_view:
  "map tok_view ts = map tok_view ts' \<Longrightarrow> harmless_tokens ts = harmless_tokens ts'"
  using is_read_tokens_view map_filter_view unfolding harmless_tokens_def by metis

lemma harmless_significant:
  "harmless_tokens (significant l) \<longleftrightarrow> is_read_statement l \<and> read_side_effect l = None"
  by (simp add: harmless_tokens_def is_read_statement_def read_side_effect_significant)

lemma list_all_view:
  assumes "map statement_view ss = map (map tok_view) segs"
  shows "list_all (\<lambda>s. harmless_tokens (significant (lex s))) ss = list_all harmless_tokens segs"
  using assms
proof (induction ss arbitrary: segs)
  case (Cons s ss)
  then obtain g gs where g: "segs = g # gs" "statement_view s = map tok_view g"
    "map statement_view ss = map (map tok_view) gs"
    by (cases segs) auto
  from Cons.IH [OF g(3)] harmless_view [OF g(2) [unfolded statement_view_def]] g(1)
  show ?case by simp
qed simp

section \<open>Properties of the statement guards\<close>

text \<open>
  C35. Splitting and counting agree, and a split statement means what it meant inside the text:
  statement by statement, its significant tokens are those of the corresponding segment of
  the whole text's tokens; as many texts come out as \<^verbatim>\<open>statement_count\<close> says; and a
  statement of a reliable text is itself reliable.
\<close>

theorem split_statements_faithful:
  assumes "valid_utf8 sql"
  shows "map statement_view (split_statements sql) = map (map tok_view) (statement_tokens sql)
         \<and> length (split_statements sql) = statement_count (lex sql)
         \<and> (\<not> is_unreliable (lex sql) \<longrightarrow>
              list_all (\<lambda>s. \<not> is_unreliable (lex s)) (split_statements sql))"
proof -
  note split = split_statements_segments [OF assms]
  have "length (split_statements sql) = length (statement_tokens sql)"
    using arg_cong [OF split(1), of length] by simp
  also have "\<dots> = statement_count (lex sql)"
    using count_go_segments [of "[]"] by (simp add: statement_tokens_def statement_count_def)
  finally show ?thesis using split by (auto simp: list_all_iff)
qed

definition script_sample :: string where
  "script_sample = ''select ' ; ';; -- x;  drop t''"

theorem split_statements_faithful_witness:
  "length (split_statements script_sample) = statement_count (lex script_sample)"
proof -
  have "valid_utf8 script_sample" by (rule valid_utf8_ascii) code_simp
  from split_statements_faithful [OF this] show ?thesis by simp
qed

lemma side_effect_free_read_tokens:
  assumes "valid_utf8 sql"
  shows "is_side_effect_free_read sql \<longleftrightarrow>
           \<not> is_unreliable (lex sql) \<and> statement_tokens sql \<noteq> [] \<and>
           list_all harmless_tokens (statement_tokens sql)"
proof -
  note split = split_statements_segments(1) [OF assms]
  from split have "split_statements sql = [] \<longleftrightarrow> statement_tokens sql = []"
    by (metis map_is_Nil_conv)
  then show ?thesis
    using list_all_view [OF split]
    by (auto simp: is_side_effect_free_read_def Let_def harmless_significant)
qed

text \<open>
  The fail-closed read classification, as a condition on the tokens of the text alone: a
  text is free of side effects exactly when it lexes reliably, has a statement, and every
  segment of its tokens is a read with no side-effecting word. Re-lexing each split statement
  neither admits nor refuses anything else.
\<close>

theorem side_effect_free_read_iff:
  assumes "valid_utf8 sql"
  shows "is_side_effect_free_read sql \<longleftrightarrow>
           \<not> is_unreliable (lex sql) \<and> statement_tokens sql \<noteq> [] \<and>
           list_all harmless_tokens (statement_tokens sql)"
  using assms by (rule side_effect_free_read_tokens)

theorem side_effect_free_read_iff_witness:
  "is_side_effect_free_read ''select 1; show tables'' \<and> \<not> is_side_effect_free_read ''select 1; drop t''"
proof -
  have v: "valid_utf8 ''select 1; show tables''" "valid_utf8 ''select 1; drop t''"
    by (rule valid_utf8_ascii, code_simp)+
  have "\<not> is_unreliable (lex ''select 1; show tables'')"
    "statement_tokens ''select 1; show tables'' \<noteq> []"
    "list_all harmless_tokens (statement_tokens ''select 1; show tables'')"
    "\<not> list_all harmless_tokens (statement_tokens ''select 1; drop t'')"
    by code_simp+
  then show ?thesis
    using side_effect_free_read_iff [OF v(1)] side_effect_free_read_iff [OF v(2)] by blast
qed

lemma segments_run:
  "list_all (\<lambda>t. tok_kind t \<noteq> Semicolon) x \<Longrightarrow>
     segments acc x = (if acc @ x = [] then [] else [acc @ x])"
  by (induction x arbitrary: acc) auto

lemma segments_cut:
  "list_all (\<lambda>t. tok_kind t \<noteq> Semicolon) x \<Longrightarrow> tok_kind t = Semicolon \<Longrightarrow>
     segments acc (x @ t # y) = (if acc @ x = [] then [] else [acc @ x]) @ segments [] y"
  by (induction x arbitrary: acc) auto

lemma with_scan_semicolon:
  "tok_kind t = Semicolon \<Longrightarrow> tok_text t = '';'' \<Longrightarrow> with_scan d (x @ [t]) = with_scan d x"
proof (induction x arbitrary: d)
  case (Cons u x)
  then show ?case by (simp add: Let_def split: option.split)
qed (simp add: token_word_def)

lemma is_read_tokens_semicolon:
  assumes "tok_kind t = Semicolon" and "tok_text t = '';''"
  shows "is_read_tokens (x @ [t]) = is_read_tokens x"
proof (induction x)
  case Nil
  with assms show ?case by (simp add: is_read_tokens_def token_word_def)
next
  case (Cons u x)
  with with_scan_semicolon [OF assms] show ?case
    by (cases "tok_text u = ''(''") (simp_all add: is_read_tokens_def split: option.split)
qed

lemma is_read_tokens_leading_semicolon:
  "tok_kind t = Semicolon \<Longrightarrow> tok_text t = '';'' \<Longrightarrow> \<not> is_read_tokens (t # y)"
  by (simp add: is_read_tokens_def token_word_def)

lemma lex_from_semicolon:
  "lex_from i s = (ts, u, a) \<Longrightarrow> t \<in> set ts \<Longrightarrow> tok_kind t = Semicolon \<Longrightarrow> tok_text t = '';''"
proof (induction "length s" arbitrary: i s ts u a rule: less_induct)
  case less
  show ?case
  proof (cases "s = []")
    case True
    with less.prems show ?thesis by simp
  next
    case False
    then obtain k n u' a' ts' u'' a'' where l: "lex_one s = (k, n, u', a')" "0 < n" "n \<le> length s"
      "lex_from (i + n) (drop n s) = (ts', u'', a'')"
      "lex_from i s = (\<lparr>tok_kind = k, tok_text = take n s, tok_start = i\<rparr> # ts', u' \<or> u'', a' \<or> a'')"
      by (rule lex_from_unfold)
    obtain b r where s: "s = b # r" using False by (cases s) auto
    have "take n s = '';''" if "k = Semicolon"
      using l(1) [unfolded s] that s by (cases rule: lex_one_cases) auto
    moreover have d: "length (drop n s) < length s" using l(2,3) unfolding length_drop by linarith
    ultimately show ?thesis using less.hyps [OF d l(4)] l less.prems by auto
  qed
qed

lemma single_statement_segments:
  assumes one: "length (filter (\<lambda>t. tok_kind t = Semicolon) ts) \<le> 1"
    and count: "length (segments [] ts) \<le> 1"
    and semi: "\<And>t. t \<in> set ts \<Longrightarrow> tok_kind t = Semicolon \<Longrightarrow> tok_text t = '';''"
    and harmless: "harmless_tokens ts"
  shows "segments [] ts \<noteq> [] \<and> list_all harmless_tokens (segments [] ts)"
proof (cases "list_all (\<lambda>t. tok_kind t \<noteq> Semicolon) ts")
  case True
  moreover have "ts \<noteq> []" using harmless by (auto simp: harmless_tokens_def is_read_tokens_def)
  ultimately show ?thesis using segments_run [of ts "[]"] harmless by simp
next
  case False
  then obtain x t y where ts: "ts = x @ t # y" and t: "tok_kind t = Semicolon"
    and x: "list_all (\<lambda>t. tok_kind t \<noteq> Semicolon) x"
    using split_list_first_prop [of ts "\<lambda>t. tok_kind t = Semicolon"] by (auto simp: list_all_iff)
  with one have "filter (\<lambda>t. tok_kind t = Semicolon) y = []" by auto
  then have y: "list_all (\<lambda>t. tok_kind t \<noteq> Semicolon) y" by (simp add: filter_empty_conv list_all_iff)
  have t': "tok_text t = '';''" using semi t ts by simp
  have "x \<noteq> []" using harmless ts t t' is_read_tokens_leading_semicolon
    by (auto simp: harmless_tokens_def)
  with count segments_cut [OF x t, of "[]" y] segments_run [OF y, of "[]"] ts have "y = []"
    by (auto split: if_splits)
  moreover have "List.map_filter token_word (x @ [t]) = List.map_filter token_word x"
    using t by (simp add: List.map_filter_def token_word_def)
  ultimately show ?thesis
    using segments_cut [OF x t, of "[]" y] \<open>x \<noteq> []\<close> harmless ts is_read_tokens_semicolon [OF t t']
    by (simp add: harmless_tokens_def)
qed

text \<open>
  The two read guards agree: a text the command line lets through as a single read (no
  second statement or separator, reliable, a read with no side effect) is one the driver's
  retry guard also accepts as a side-effect-free read.
\<close>

theorem accepted_read_is_side_effect_free:
  assumes "valid_utf8 sql" and "\<not> has_multiple_statements sql" and "is_select_like sql"
  shows "is_side_effect_free_read sql"
proof -
  let ?ts = "significant (lex sql)"
  have semi: "tok_text t = '';''" if "t \<in> set ?ts" "tok_kind t = Semicolon" for t
    using that lex_from_semicolon [of 0 sql]
    by (cases "lex_from 0 sql") (auto simp: lex_def significant_def)
  have "harmless_tokens ?ts" and rel: "\<not> is_unreliable (lex sql)"
    using assms(3) by (auto simp: is_select_like_def Let_def harmless_significant)
  moreover have "length (filter (\<lambda>t. tok_kind t = Semicolon) ?ts) \<le> 1"
    "length (segments [] ?ts) \<le> 1"
    using assms(2) count_go_segments [of "[]" ?ts]
    by (auto simp: has_multiple_statements_def Let_def statement_count_def)
  ultimately show ?thesis
    using single_statement_segments [of ?ts] semi
    unfolding side_effect_free_read_tokens [OF assms(1)] statement_tokens_def by blast
qed

theorem accepted_read_is_side_effect_free_witness:
  "is_side_effect_free_read ''(select 'drop;'); -- end''"
proof -
  have "valid_utf8 ''(select 'drop;'); -- end''" by (rule valid_utf8_ascii) code_simp
  moreover have "\<not> has_multiple_statements ''(select 'drop;'); -- end''" by code_simp
  moreover have "is_select_like ''(select 'drop;'); -- end''" by code_simp
  ultimately show ?thesis by (rule accepted_read_is_side_effect_free)
qed

end
