(* ===== verification/WriteIntent.thy ===== *)
theory WriteIntent
  imports SqlStatements Redact
begin

text \<open>
  The write-intent ladder, \<^verbatim>\<open>crates/franken-snowflake-core/src/write_intent.rs\<close>: the only path
  from read-only planning to a mutating statement. Identifier newtypes are their strings.

  Lemmas: the exact condition under which the ladder authorizes, what a grant then carries,
  that read statements and write statements are disjoint, and what a grant covers.
\<close>

section \<open>Data\<close>

definition WRITE_INTENT_SCHEMA_VERSION :: nat where
  "WRITE_INTENT_SCHEMA_VERSION = 1"

datatype WriteIntentMode = PlanDryRun | PrepareExecution

datatype WriteIntentStage =
  ReadOnlyDefault | DryRunPlan | SafetyClassified | StatementAllowlisted | IdempotencyBound
  | ConfirmationMatched | ExecutionReceipt | AppendOnlyAudit

datatype WriteStatementKind =
  Insert | Merge | Update | Delete | CopyIntoTable | CopyIntoStage | Create | Alter | Drop
  | Truncate | Grant | Revoke | Call | Put | Remove | Use | Execute | Get | AlterSession
  | Transaction | SessionVariable | CopyIntoExternal | Unknown

datatype WriteSafetyClass = Dml | Ddl | Procedure | ExternalFile | SessionState | Unknown

primrec safety_class :: "WriteStatementKind \<Rightarrow> WriteSafetyClass" where
  "safety_class Insert = Dml"
| "safety_class Merge = Dml"
| "safety_class Update = Dml"
| "safety_class Delete = Dml"
| "safety_class CopyIntoTable = Dml"
| "safety_class Create = Ddl"
| "safety_class Alter = Ddl"
| "safety_class Drop = Ddl"
| "safety_class Truncate = Ddl"
| "safety_class Grant = Ddl"
| "safety_class Revoke = Ddl"
| "safety_class Call = Procedure"
| "safety_class Execute = Procedure"
| "safety_class Put = ExternalFile"
| "safety_class Get = ExternalFile"
| "safety_class Remove = ExternalFile"
| "safety_class CopyIntoStage = ExternalFile"
| "safety_class CopyIntoExternal = ExternalFile"
| "safety_class Use = SessionState"
| "safety_class AlterSession = SessionState"
| "safety_class Transaction = SessionState"
| "safety_class SessionVariable = SessionState"
| "safety_class WriteStatementKind.Unknown = WriteSafetyClass.Unknown"

definition sql_api_unsupported :: "WriteStatementKind \<Rightarrow> bool" where
  "sql_api_unsupported k \<longleftrightarrow> k \<in> {Put, Get, Use, AlterSession, Transaction, SessionVariable}"

primrec as_token :: "WriteStatementKind \<Rightarrow> string" where
  "as_token Insert = ''insert''"
| "as_token Merge = ''merge''"
| "as_token Update = ''update''"
| "as_token Delete = ''delete''"
| "as_token CopyIntoTable = ''copy_into_table''"
| "as_token CopyIntoStage = ''copy_into_stage''"
| "as_token Create = ''create''"
| "as_token Alter = ''alter''"
| "as_token Drop = ''drop''"
| "as_token Truncate = ''truncate''"
| "as_token Grant = ''grant''"
| "as_token Revoke = ''revoke''"
| "as_token Call = ''call''"
| "as_token Put = ''put''"
| "as_token Remove = ''remove''"
| "as_token Use = ''use''"
| "as_token Execute = ''execute''"
| "as_token Get = ''get''"
| "as_token AlterSession = ''alter_session''"
| "as_token Transaction = ''transaction''"
| "as_token SessionVariable = ''session_variable''"
| "as_token CopyIntoExternal = ''copy_into_external''"
| "as_token WriteStatementKind.Unknown = ''unknown''"

record StatementAllowlistEntry =
  ale_id :: string
  ale_statement_kind :: WriteStatementKind

record WriteIntentPolicy =
  wp_enabled :: bool
  wp_allow_ddl :: bool
  wp_require_dry_run :: bool
  wp_require_exact_confirmation :: bool
  wp_require_idempotency_request_id :: bool
  wp_require_append_only_audit :: bool
  wp_statement_allowlist :: "StatementAllowlistEntry list"
  wp_allow_procedures :: bool
  wp_allow_external_unload :: bool
  wp_allowed_kinds :: "WriteStatementKind list option"

definition default_policy :: WriteIntentPolicy where
  "default_policy =
     \<lparr>wp_enabled = False, wp_allow_ddl = False, wp_require_dry_run = True,
      wp_require_exact_confirmation = True, wp_require_idempotency_request_id = True,
      wp_require_append_only_audit = True, wp_statement_allowlist = [],
      wp_allow_procedures = False, wp_allow_external_unload = False, wp_allowed_kinds = None\<rparr>"

definition dry_run_only :: "StatementAllowlistEntry list \<Rightarrow> WriteIntentPolicy" where
  "dry_run_only allowlist = default_policy\<lparr>wp_enabled := True, wp_statement_allowlist := allowlist\<rparr>"

definition confirmation_for_request :: "string \<Rightarrow> WriteStatementKind \<Rightarrow> string" where
  "confirmation_for_request request_id k = ''confirm:'' @ as_token k @ '':'' @ request_id"

record AppendOnlyAuditIntent =
  aud_stream_id :: string
  aud_append_only :: bool

definition append_only_audit :: "string \<Rightarrow> AppendOnlyAuditIntent" where
  "append_only_audit stream_id = \<lparr>aud_stream_id = stream_id, aud_append_only = True\<rparr>"

record WriteIntentRequest =
  wr_mode :: WriteIntentMode
  wr_redacted_sql_preview :: string
  wr_dry_run :: bool
  wr_allowlist_id :: "string option"
  wr_request_id :: "string option"
  wr_confirmation_token :: "string option"
  wr_audit_intent :: "AppendOnlyAuditIntent option"

definition new_request :: "WriteIntentMode \<Rightarrow> string \<Rightarrow> WriteIntentRequest" where
  "new_request mode sql_preview =
     \<lparr>wr_mode = mode, wr_redacted_sql_preview = redact sql_preview, wr_dry_run = False,
      wr_allowlist_id = None, wr_request_id = None, wr_confirmation_token = None,
      wr_audit_intent = None\<rparr>"

record WriteIntentReceipt =
  wrc_schema_version :: nat
  wrc_request_id :: string
  wrc_statement_kind :: WriteStatementKind
  wrc_dry_run :: bool
  wrc_execution_enabled :: bool

record WriteIntentPlan =
  wpl_schema_version :: nat
  wpl_redacted_sql_preview :: string
  wpl_statement_kind :: WriteStatementKind
  wpl_safety_class :: WriteSafetyClass
  wpl_allowlist_entry :: StatementAllowlistEntry
  wpl_receipt :: WriteIntentReceipt
  wpl_required_confirmation_token :: string
  wpl_next_required_stages :: "WriteIntentStage list"
  wpl_execution_enabled :: bool

datatype WriteIntentRefusalCode =
  MutationsDisabled | MissingDryRun | DdlRefused | StatementNotAllowlisted
  | MissingIdempotencyRequestId | MissingConfirmationToken | ConfirmationTokenMismatch
  | MissingAppendOnlyAudit | StatementUnsupported | ProceduresRefused | ExternalUnloadRefused
  | ExecutionUnavailable

text \<open>The refusal's message is fixed by its code and stage and is left out.\<close>

record WriteIntentRefusal =
  ref_code :: WriteIntentRefusalCode
  ref_stage :: WriteIntentStage

text \<open>A grant is its execution-authorized plan.\<close>

record WriteAuthorization =
  grant_plan :: WriteIntentPlan

datatype WriteIntentDecision =
  Refused WriteIntentRefusal | DryRunPlanned WriteIntentPlan | ExecutionAuthorized WriteAuthorization

definition refused :: "WriteIntentRefusalCode \<Rightarrow> WriteIntentStage \<Rightarrow> WriteIntentDecision" where
  "refused code stage = Refused \<lparr>ref_code = code, ref_stage = stage\<rparr>"

definition covers :: "WriteAuthorization \<Rightarrow> string \<Rightarrow> bool" where
  "covers g sql \<longleftrightarrow> redact sql = wpl_redacted_sql_preview (grant_plan g)"

section \<open>Classification\<close>

definition classify_by_verb :: "string option \<Rightarrow> WriteStatementKind" where
  "classify_by_verb verb =
     (case verb of
        None \<Rightarrow> WriteStatementKind.Unknown
      | Some v \<Rightarrow>
          if v = ''insert'' then Insert else if v = ''merge'' then Merge
          else if v = ''update'' then Update else if v = ''delete'' then Delete
          else if v = ''create'' then Create else if v = ''alter'' then Alter
          else if v = ''drop'' then Drop else if v = ''truncate'' then Truncate
          else if v = ''grant'' then Grant else if v = ''revoke'' then Revoke
          else if v = ''call'' then Call else if v = ''put'' then Put
          else if v = ''remove'' \<or> v = ''rm'' then Remove else if v = ''use'' then Use
          else WriteStatementKind.Unknown)"

text \<open>\<^verbatim>\<open>significant.next().and_then(SqlToken::word)\<close>, twice, then the next token.\<close>

definition next_word :: "SqlToken list \<Rightarrow> string option \<times> SqlToken list" where
  "next_word ts = (case ts of [] \<Rightarrow> (None, []) | t # r \<Rightarrow> (token_word t, r))"

definition copy_into_target_kind :: "string \<Rightarrow> WriteStatementKind" where
  "copy_into_target_kind sql =
     (let (copy, ts) = next_word (significant (lex sql)); (into, ts) = next_word ts
      in if copy \<noteq> Some ''copy'' \<or> into \<noteq> Some ''into'' then CopyIntoTable
         else case ts of
                [] \<Rightarrow> CopyIntoTable
              | target # _ \<Rightarrow>
                  if starts_with (tok_text target) ''@'' then CopyIntoStage
                  else if tok_kind target = StringLiteral \<and> contains_sub (tok_text target) ''://''
                  then CopyIntoExternal else CopyIntoTable)"

definition classify_write_statement :: "string \<Rightarrow> WriteStatementKind" where
  "classify_write_statement sql =
     (let words = lex_words (lex sql);
          first = (case words of [] \<Rightarrow> None | w # _ \<Rightarrow> Some w);
          second = (case words of _ # w # _ \<Rightarrow> Some w | _ \<Rightarrow> None)
      in if first = Some ''alter'' \<and> second = Some ''session'' then AlterSession
         else if first = Some ''execute'' then Execute
         else if first = Some ''get'' then Get
         else if first = Some ''begin'' \<or> first = Some ''commit'' \<or> first = Some ''rollback''
                 \<or> (first = Some ''start'' \<and> second = Some ''transaction'') then Transaction
         else if first = Some ''set'' \<or> first = Some ''unset'' then SessionVariable
         else if first = Some ''copy'' then copy_into_target_kind sql
         else classify_by_verb first)"

definition matching_allowlist_entry ::
  "WriteIntentRequest \<Rightarrow> WriteIntentPolicy \<Rightarrow> WriteStatementKind \<Rightarrow> StatementAllowlistEntry option" where
  "matching_allowlist_entry request policy k =
     (case wr_allowlist_id request of
        None \<Rightarrow> None
      | Some i \<Rightarrow> List.find (\<lambda>e. ale_id e = i \<and> ale_statement_kind e = k) (wp_statement_allowlist policy))"

section \<open>The ladder\<close>

definition dry_run_plan ::
  "WriteIntentRequest \<Rightarrow> WriteSafetyClass \<Rightarrow> StatementAllowlistEntry \<Rightarrow> string \<Rightarrow> WriteIntentPlan" where
  "dry_run_plan request cls allow request_id =
     \<lparr>wpl_schema_version = WRITE_INTENT_SCHEMA_VERSION,
      wpl_redacted_sql_preview = wr_redacted_sql_preview request,
      wpl_statement_kind = ale_statement_kind allow, wpl_safety_class = cls,
      wpl_allowlist_entry = allow,
      wpl_receipt =
        \<lparr>wrc_schema_version = WRITE_INTENT_SCHEMA_VERSION, wrc_request_id = request_id,
         wrc_statement_kind = ale_statement_kind allow, wrc_dry_run = True,
         wrc_execution_enabled = False\<rparr>,
      wpl_required_confirmation_token = confirmation_for_request request_id (ale_statement_kind allow),
      wpl_next_required_stages = [ConfirmationMatched, ExecutionReceipt, AppendOnlyAudit],
      wpl_execution_enabled = False\<rparr>"

definition authorize :: "WriteIntentPlan \<Rightarrow> WriteAuthorization" where
  "authorize plan =
     \<lparr>grant_plan = plan
        \<lparr>wpl_receipt := (wpl_receipt plan)\<lparr>wrc_dry_run := False, wrc_execution_enabled := True\<rparr>,
         wpl_next_required_stages := [ExecutionReceipt], wpl_execution_enabled := True\<rparr>\<rparr>"

definition evaluate_write_intent ::
  "WriteIntentRequest \<Rightarrow> WriteIntentPolicy \<Rightarrow> WriteIntentDecision" where
  "evaluate_write_intent request policy =
     (if \<not> wp_enabled policy then refused MutationsDisabled ReadOnlyDefault
      else if wp_require_dry_run policy \<and> \<not> wr_dry_run request then refused MissingDryRun DryRunPlan
      else
        let k = classify_write_statement (wr_redacted_sql_preview request); cls = safety_class k
        in if sql_api_unsupported k then refused StatementUnsupported SafetyClassified
           else if cls = Ddl \<and> \<not> wp_allow_ddl policy then refused DdlRefused SafetyClassified
           else if cls = Procedure \<and> \<not> wp_allow_procedures policy then
             refused ProceduresRefused SafetyClassified
           else if k = CopyIntoExternal \<and> \<not> wp_allow_external_unload policy then
             refused ExternalUnloadRefused SafetyClassified
           else if (case wp_allowed_kinds policy of None \<Rightarrow> False | Some ks \<Rightarrow> k \<notin> set ks) then
             refused StatementNotAllowlisted StatementAllowlisted
           else case matching_allowlist_entry request policy k of
             None \<Rightarrow> refused StatementNotAllowlisted StatementAllowlisted
           | Some allow \<Rightarrow>
               (case wr_request_id request of
                  None \<Rightarrow> refused MissingIdempotencyRequestId IdempotencyBound
                | Some request_id \<Rightarrow>
                    let plan = dry_run_plan request cls allow request_id
                    in if wr_mode request = PlanDryRun then DryRunPlanned plan
                       else if wp_require_exact_confirmation policy
                               \<and> wr_confirmation_token request = None then
                         refused MissingConfirmationToken ConfirmationMatched
                       else if wp_require_exact_confirmation policy
                               \<and> wr_confirmation_token request \<noteq> Some (wpl_required_confirmation_token plan) then
                         refused ConfirmationTokenMismatch ConfirmationMatched
                       else if wp_require_append_only_audit policy
                               \<and> \<not> (case wr_audit_intent request of None \<Rightarrow> False | Some a \<Rightarrow> aud_append_only a) then
                         refused MissingAppendOnlyAudit AppendOnlyAudit
                       else ExecutionAuthorized (authorize plan)))"

section \<open>What the ladder requires\<close>

text \<open>The rungs a request must climb, as one condition: the specification of the ladder.\<close>

definition kind_permitted :: "WriteIntentPolicy \<Rightarrow> WriteStatementKind \<Rightarrow> bool" where
  "kind_permitted policy k \<longleftrightarrow>
     \<not> sql_api_unsupported k
     \<and> (safety_class k = Ddl \<longrightarrow> wp_allow_ddl policy)
     \<and> (safety_class k = Procedure \<longrightarrow> wp_allow_procedures policy)
     \<and> (k = CopyIntoExternal \<longrightarrow> wp_allow_external_unload policy)
     \<and> (case wp_allowed_kinds policy of None \<Rightarrow> True | Some ks \<Rightarrow> k \<in> set ks)"

definition planned ::
  "WriteIntentRequest \<Rightarrow> WriteIntentPolicy \<Rightarrow> StatementAllowlistEntry \<Rightarrow> string \<Rightarrow> bool" where
  "planned request policy allow request_id \<longleftrightarrow>
     wp_enabled policy \<and> (wp_require_dry_run policy \<longrightarrow> wr_dry_run request)
     \<and> kind_permitted policy (classify_write_statement (wr_redacted_sql_preview request))
     \<and> matching_allowlist_entry request policy
         (classify_write_statement (wr_redacted_sql_preview request)) = Some allow
     \<and> wr_request_id request = Some request_id"

definition confirmed :: "WriteIntentRequest \<Rightarrow> WriteIntentPolicy \<Rightarrow> WriteIntentPlan \<Rightarrow> bool" where
  "confirmed request policy plan \<longleftrightarrow>
     wr_mode request = PrepareExecution
     \<and> (wp_require_exact_confirmation policy \<longrightarrow>
          wr_confirmation_token request = Some (wpl_required_confirmation_token plan))
     \<and> (wp_require_append_only_audit policy \<longrightarrow>
          (case wr_audit_intent request of None \<Rightarrow> False | Some a \<Rightarrow> aud_append_only a))"

lemma matching_allowlist_entry_Some:
  "matching_allowlist_entry request policy k = Some e \<Longrightarrow>
     e \<in> set (wp_statement_allowlist policy) \<and> wr_allowlist_id request = Some (ale_id e)
     \<and> ale_statement_kind e = k"
  by (auto simp: matching_allowlist_entry_def find_Some_iff split: option.splits)

lemma evaluate_not_refused:
  assumes "evaluate_write_intent request policy = d" and "\<And>r. d \<noteq> Refused r"
  obtains allow request_id where "planned request policy allow request_id"
proof -
  define k where "k = classify_write_statement (wr_redacted_sql_preview request)"
  note e = assms(1) [unfolded evaluate_write_intent_def Let_def, folded k_def]
  have nr: "refused c st \<noteq> d" for c st using assms(2) [of "\<lparr>ref_code = c, ref_stage = st\<rparr>"]
    by (auto simp: refused_def)
  have c0: "wp_enabled policy"
    by (rule ccontr) (use e nr in \<open>simp split del: if_split\<close>)
  have c1: "\<not> (wp_require_dry_run policy \<and> \<not> wr_dry_run request)"
    by (rule ccontr) (use e nr c0 in \<open>simp split del: if_split\<close>)
  have c2: "\<not> sql_api_unsupported k"
    by (rule ccontr) (use e nr c0 c1 in \<open>simp split del: if_split\<close>)
  have c3: "\<not> (safety_class k = Ddl \<and> \<not> wp_allow_ddl policy)"
    by (rule ccontr) (use e nr c0 c1 c2 in \<open>simp split del: if_split\<close>)
  have c4: "\<not> (safety_class k = Procedure \<and> \<not> wp_allow_procedures policy)"
    by (rule ccontr) (use e nr c0 c1 c2 c3 in \<open>simp split del: if_split\<close>)
  have c5: "\<not> (k = CopyIntoExternal \<and> \<not> wp_allow_external_unload policy)"
    by (rule ccontr) (use e nr c0 c1 c2 c3 c4 in \<open>simp split del: if_split\<close>)
  have c6: "\<not> (case wp_allowed_kinds policy of None \<Rightarrow> False | Some ks \<Rightarrow> k \<notin> set ks)"
    by (rule ccontr) (use e nr c0 c1 c2 c3 c4 c5 in \<open>simp split del: if_split\<close>)
  have c7: "matching_allowlist_entry request policy k \<noteq> None"
    by (rule ccontr) (use e nr c0 c1 c2 c3 c4 c5 c6 in \<open>simp split del: if_split\<close>)
  from c7 obtain allow where m: "matching_allowlist_entry request policy k = Some allow" by auto
  have c8: "wr_request_id request \<noteq> None"
    by (rule ccontr) (use e nr c0 c1 c2 c3 c4 c5 c6 m in \<open>simp split del: if_split\<close>)
  then obtain request_id where r: "wr_request_id request = Some request_id" by auto
  show thesis
    using c0 c1 c2 c3 c4 c5 c6 m r
    by (intro that [of allow request_id])
      (auto simp: planned_def kind_permitted_def k_def split: option.splits)
qed

lemma evaluate_planned:
  assumes "planned request policy allow request_id"
  defines "k \<equiv> classify_write_statement (wr_redacted_sql_preview request)"
  defines "plan \<equiv> dry_run_plan request (safety_class k) allow request_id"
  shows "evaluate_write_intent request policy =
     (if wr_mode request = PlanDryRun then DryRunPlanned plan
      else if wp_require_exact_confirmation policy \<and> wr_confirmation_token request = None
        then refused MissingConfirmationToken ConfirmationMatched
      else if wp_require_exact_confirmation policy
              \<and> wr_confirmation_token request \<noteq> Some (wpl_required_confirmation_token plan)
        then refused ConfirmationTokenMismatch ConfirmationMatched
      else if wp_require_append_only_audit policy
              \<and> \<not> (case wr_audit_intent request of None \<Rightarrow> False | Some a \<Rightarrow> aud_append_only a)
        then refused MissingAppendOnlyAudit AppendOnlyAudit
      else ExecutionAuthorized (authorize plan))"
proof -
  from assms(1) have c: "wp_enabled policy" "(wp_require_dry_run policy \<and> \<not> wr_dry_run request) = False"
    "sql_api_unsupported k = False" "(safety_class k = Ddl \<and> \<not> wp_allow_ddl policy) = False"
    "(safety_class k = Procedure \<and> \<not> wp_allow_procedures policy) = False"
    "(k = CopyIntoExternal \<and> \<not> wp_allow_external_unload policy) = False"
    "(case wp_allowed_kinds policy of None \<Rightarrow> False | Some ks \<Rightarrow> k \<notin> set ks) = False"
    "matching_allowlist_entry request policy k = Some allow" "wr_request_id request = Some request_id"
    by (auto simp: planned_def kind_permitted_def k_def split: option.splits)
  show ?thesis
    unfolding evaluate_write_intent_def Let_def k_def [symmetric] plan_def
    by (simp only: c option.case if_False not_True_eq_False)
qed

lemma confirmed_iff:
  "confirmed request policy plan \<longleftrightarrow>
     wr_mode request \<noteq> PlanDryRun
     \<and> \<not> (wp_require_exact_confirmation policy
          \<and> wr_confirmation_token request \<noteq> Some (wpl_required_confirmation_token plan))
     \<and> \<not> (wp_require_append_only_audit policy
          \<and> \<not> (case wr_audit_intent request of None \<Rightarrow> False | Some a \<Rightarrow> aud_append_only a))"
  by (cases "wr_mode request") (auto simp: confirmed_def)

lemma evaluate_authorized:
  assumes "planned request policy allow request_id"
  defines "plan \<equiv> dry_run_plan request
     (safety_class (classify_write_statement (wr_redacted_sql_preview request))) allow request_id"
  shows "evaluate_write_intent request policy = ExecutionAuthorized g \<longleftrightarrow>
           confirmed request policy plan \<and> g = authorize plan"
  unfolding evaluate_planned [OF assms(1)] confirmed_iff plan_def [symmetric] refused_def
  by auto

section \<open>Kinds and verbs\<close>

lemma as_token_no_colon: "CHR '':'' \<notin> set (as_token k)"
  by (cases k) simp_all

lemma as_token_inj: "as_token k = as_token k' \<longleftrightarrow> k = k'"
  by (cases k; cases k') simp_all

lemma split_at_separator:
  assumes "c \<notin> set u" and "c \<notin> set v"
  shows "u @ c # x = v @ c # y \<longleftrightarrow> u = v \<and> x = y"
  using assms
proof (induction u arbitrary: v)
  case Nil
  then show ?case by (cases v) auto
next
  case (Cons a u)
  then show ?case by (cases v) auto
qed

lemma copy_kind_known: "copy_into_target_kind sql \<noteq> WriteStatementKind.Unknown"
  by (simp add: copy_into_target_kind_def Let_def split: list.splits prod.splits)

lemma classify_read_verb:
  assumes "lex_words (lex sql) = v # ws" and "v \<in> set READ_VERBS \<or> v = ''with''"
  shows "classify_write_statement sql = WriteStatementKind.Unknown"
proof -
  have "list_all (\<lambda>v. v \<notin> set [''alter'', ''execute'', ''get'', ''begin'', ''commit'', ''rollback'',
      ''start'', ''set'', ''unset'', ''copy''] \<and> classify_by_verb (Some v) = WriteStatementKind.Unknown)
      (''with'' # READ_VERBS)"
    by code_simp
  with assms(2) have "v \<notin> set [''alter'', ''execute'', ''get'', ''begin'', ''commit'', ''rollback'',
      ''start'', ''set'', ''unset'', ''copy'']"
    and "classify_by_verb (Some v) = WriteStatementKind.Unknown"
    by (auto simp: list_all_iff)
  then show ?thesis unfolding classify_write_statement_def Let_def assms(1) by simp
qed

section \<open>Properties of the ladder\<close>


text \<open>
  What a grant proves: its plan is stamped for execution and no longer a dry run, it
  carries the request's preview and id, its kind is the classification of that preview and is
  allowlisted under the requested id, and no policy gate forbids that kind.
\<close>

theorem grant_is_sound:
  assumes "evaluate_write_intent request policy = ExecutionAuthorized g"
  shows "wpl_execution_enabled (grant_plan g) \<and> wrc_execution_enabled (wpl_receipt (grant_plan g))
         \<and> \<not> wrc_dry_run (wpl_receipt (grant_plan g))
         \<and> wpl_redacted_sql_preview (grant_plan g) = wr_redacted_sql_preview request
         \<and> wr_request_id request = Some (wrc_request_id (wpl_receipt (grant_plan g)))
         \<and> wpl_statement_kind (grant_plan g) = classify_write_statement (wr_redacted_sql_preview request)
         \<and> wpl_allowlist_entry (grant_plan g) \<in> set (wp_statement_allowlist policy)
         \<and> wr_allowlist_id request = Some (ale_id (wpl_allowlist_entry (grant_plan g)))
         \<and> kind_permitted policy (wpl_statement_kind (grant_plan g))
         \<and> wp_enabled policy \<and> wr_mode request = PrepareExecution"
proof -
  from assms obtain allow request_id where p: "planned request policy allow request_id"
    by (rule evaluate_not_refused) simp
  with assms evaluate_authorized [OF p, of g] matching_allowlist_entry_Some show ?thesis
    by (auto simp: planned_def confirmed_def authorize_def dry_run_plan_def)
qed

definition sample_policy :: WriteIntentPolicy where
  "sample_policy = dry_run_only [\<lparr>ale_id = ''ins'', ale_statement_kind = Insert\<rparr>]"

definition sample_request :: "string \<Rightarrow> WriteIntentRequest" where
  "sample_request sql = (new_request PrepareExecution sql)
     \<lparr>wr_dry_run := True, wr_allowlist_id := Some ''ins'', wr_request_id := Some ''r1'',
      wr_confirmation_token := Some ''confirm:insert:r1'',
      wr_audit_intent := Some (append_only_audit ''log'')\<rparr>"

definition decision_grant :: "WriteIntentDecision \<Rightarrow> WriteAuthorization option" where
  "decision_grant d = (case d of ExecutionAuthorized g \<Rightarrow> Some g | _ \<Rightarrow> None)"

lemma decision_grant_Some: "decision_grant d = Some g \<longleftrightarrow> d = ExecutionAuthorized g"
  by (cases d) (auto simp: decision_grant_def)

theorem grant_is_sound_witness:
  "\<exists>g. evaluate_write_intent (sample_request ''insert into t values (1)'') sample_policy = ExecutionAuthorized g
     \<and> wpl_statement_kind (grant_plan g) = Insert"
proof -
  let ?d = "evaluate_write_intent (sample_request ''insert into t values (1)'') sample_policy"
  have "decision_grant ?d \<noteq> None" by code_simp
  then obtain g where g: "?d = ExecutionAuthorized g" using decision_grant_Some by blast
  have "classify_write_statement (wr_redacted_sql_preview (sample_request ''insert into t values (1)'')) = Insert"
    by code_simp
  with g grant_is_sound [OF g] show ?thesis by auto
qed

text \<open>
  Read-only is the default: under the default policy every request is refused at the first
  rung, and no policy ever turns a dry-run request into an execution.
\<close>

theorem default_posture_is_read_only:
  "evaluate_write_intent request default_policy = refused MutationsDisabled ReadOnlyDefault
   \<and> evaluate_write_intent (request\<lparr>wr_mode := PlanDryRun\<rparr>) policy \<noteq> ExecutionAuthorized g"
proof -
  have "evaluate_write_intent (request\<lparr>wr_mode := PlanDryRun\<rparr>) policy \<noteq> ExecutionAuthorized g"
  proof
    assume a: "evaluate_write_intent (request\<lparr>wr_mode := PlanDryRun\<rparr>) policy = ExecutionAuthorized g"
    then obtain allow request_id where p: "planned (request\<lparr>wr_mode := PlanDryRun\<rparr>) policy allow request_id"
      by (rule evaluate_not_refused) simp
    from a evaluate_authorized [OF p, of g] show False by (simp add: confirmed_def)
  qed
  then show ?thesis by (simp add: evaluate_write_intent_def default_policy_def)
qed

text \<open>
  A confirmation token names its request: two tokens are equal exactly when they were made
  for the same request id and the same statement kind, whatever bytes the ids contain.
\<close>

theorem confirmation_token_injective:
  "confirmation_for_request rid k = confirmation_for_request rid' k' \<longleftrightarrow> rid = rid' \<and> k = k'"
  using split_at_separator [OF as_token_no_colon [of k] as_token_no_colon [of k'], of rid rid']
    as_token_inj [of k k']
  by (auto simp: confirmation_for_request_def)

text \<open>
  A grant covers the statement it was minted for; between statements with no secret in
  them it covers no other one.
\<close>

theorem grant_covers_own_statement:
  assumes "evaluate_write_intent request policy = ExecutionAuthorized g"
    and "wr_redacted_sql_preview request = redact sql"
  shows "covers g sql \<and> (contains_secret sql \<or> contains_secret sql' \<or> (covers g sql' \<longleftrightarrow> sql' = sql))"
proof -
  from assms(1) obtain allow request_id where p: "planned request policy allow request_id"
    by (rule evaluate_not_refused) simp
  with assms evaluate_authorized [OF p, of g] have "wpl_redacted_sql_preview (grant_plan g) = redact sql"
    by (auto simp: authorize_def dry_run_plan_def)
  then show ?thesis using redactor.same_preview_iff [of sql' sql] by (auto simp: covers_def)
qed

theorem grant_covers_own_statement_witness:
  "\<exists>g. evaluate_write_intent (sample_request ''insert into t values (1)'') sample_policy = ExecutionAuthorized g
     \<and> covers g ''insert into t values (1)''"
proof -
  let ?d = "evaluate_write_intent (sample_request ''insert into t values (1)'') sample_policy"
  have "decision_grant ?d \<noteq> None" by code_simp
  then obtain g where g: "?d = ExecutionAuthorized g" using decision_grant_Some by blast
  have "wr_redacted_sql_preview (sample_request ''insert into t values (1)'') = redact ''insert into t values (1)''"
    by (simp add: sample_request_def new_request_def)
  with g grant_covers_own_statement [OF g] show ?thesis by blast
qed

text \<open>
  The read path and the write path do not overlap: a statement the read guards accept as a
  read is never classified as one of the write kinds.
\<close>

theorem read_statement_is_not_a_write:
  assumes "is_read_statement (lex sql)"
  shows "classify_write_statement sql = WriteStatementKind.Unknown"
  using read_statement_first_word [OF assms] classify_read_verb by blast

theorem read_statement_is_not_a_write_witness:
  "classify_write_statement ''((with x as (select get(v, 0) from t) select 1))'' = WriteStatementKind.Unknown"
  by (rule read_statement_is_not_a_write) code_simp



end
