(* ===== verification/Registry.thy ===== *)
theory Registry
  imports Prelude "HOL-Library.Word"
begin

text \<open>
  The closed vocabularies of the connector and the projections between them: exit codes
  (\<^verbatim>\<open>core/src/exit.rs\<close>), cancellation routing (\<^verbatim>\<open>cancel.rs\<close>), the error registry
  (\<^verbatim>\<open>error.rs\<close>), outcomes (\<^verbatim>\<open>outcome.rs\<close>), and the SQL API response classes
  (\<^verbatim>\<open>sqlapi/src/status.rs\<close>).

  Asupersync's \<^verbatim>\<open>CancelKind\<close> is read off the exhaustive match in \<^verbatim>\<open>cancel_policy\<close>, its
  four-valued \<^verbatim>\<open>Outcome\<close> off the match in \<^verbatim>\<open>outcome.rs\<close>.

  Lemmas: the registry is injective and complete, every code ships a recovery path, the exit
  code, the policy boundary and the envelope class agree.
\<close>

section \<open>Exit codes\<close>

datatype ExitCode =
  Success | Findings | SafetyRefusal | CredentialError | UpstreamError | NetworkBudgetExhausted
  | QueryStillRunning | LocalCacheError | Usage | Io

fun exit_code_number :: "ExitCode \<Rightarrow> int" where
  "exit_code_number ExitCode.Success = 0"
| "exit_code_number ExitCode.Findings = 1"
| "exit_code_number ExitCode.SafetyRefusal = 2"
| "exit_code_number ExitCode.CredentialError = 3"
| "exit_code_number ExitCode.UpstreamError = 4"
| "exit_code_number ExitCode.NetworkBudgetExhausted = 5"
| "exit_code_number ExitCode.QueryStillRunning = 6"
| "exit_code_number ExitCode.LocalCacheError = 7"
| "exit_code_number ExitCode.Usage = 64"
| "exit_code_number ExitCode.Io = 74"

definition exit_is_success :: "ExitCode \<Rightarrow> bool" where
  "exit_is_success e \<longleftrightarrow> e = ExitCode.Success"

section \<open>Outcome classes\<close>

datatype OutcomeKind = Success | PartialSuccess | Refusal | Cancelled | Timeout | Error

datatype DataSource = Live | Fixture | Empty | Unspecified

definition is_unspecified :: "DataSource \<Rightarrow> bool" where
  "is_unspecified d \<longleftrightarrow> d = DataSource.Unspecified"

section \<open>Cancellation\<close>

datatype CancelKind =
  User | Timeout | Deadline | PollQuota | CostBudget | FailFast | RaceLost | ParentCancelled
  | ResourceUnavailable | Shutdown | LinkedExit

datatype CancelPolicy = RetryOrDegrade | RemoteCancelAndReceipt | BoundedDrain | QuietDrain

fun cancel_policy :: "CancelKind \<Rightarrow> CancelPolicy" where
  "cancel_policy Deadline = RetryOrDegrade"
| "cancel_policy CostBudget = RetryOrDegrade"
| "cancel_policy CancelKind.Timeout = RetryOrDegrade"
| "cancel_policy PollQuota = RetryOrDegrade"
| "cancel_policy User = RemoteCancelAndReceipt"
| "cancel_policy Shutdown = BoundedDrain"
| "cancel_policy ResourceUnavailable = BoundedDrain"
| "cancel_policy FailFast = QuietDrain"
| "cancel_policy RaceLost = QuietDrain"
| "cancel_policy ParentCancelled = QuietDrain"
| "cancel_policy LinkedExit = QuietDrain"

definition attempts_remote_cancel :: "CancelPolicy \<Rightarrow> bool" where
  "attempts_remote_cancel p \<longleftrightarrow> p \<noteq> QuietDrain"

definition cancel_outcome_kind :: "CancelKind \<Rightarrow> OutcomeKind" where
  "cancel_outcome_kind k =
     (case k of Deadline \<Rightarrow> OutcomeKind.Timeout | CancelKind.Timeout \<Rightarrow> OutcomeKind.Timeout
      | _ \<Rightarrow> OutcomeKind.Cancelled)"

fun cancel_exit_code :: "CancelKind \<Rightarrow> ExitCode" where
  "cancel_exit_code Deadline = ExitCode.NetworkBudgetExhausted"
| "cancel_exit_code CancelKind.Timeout = ExitCode.NetworkBudgetExhausted"
| "cancel_exit_code PollQuota = ExitCode.NetworkBudgetExhausted"
| "cancel_exit_code CostBudget = ExitCode.SafetyRefusal"
| "cancel_exit_code User = ExitCode.Success"
| "cancel_exit_code Shutdown = ExitCode.NetworkBudgetExhausted"
| "cancel_exit_code ResourceUnavailable = ExitCode.NetworkBudgetExhausted"
| "cancel_exit_code FailFast = ExitCode.NetworkBudgetExhausted"
| "cancel_exit_code RaceLost = ExitCode.NetworkBudgetExhausted"
| "cancel_exit_code ParentCancelled = ExitCode.NetworkBudgetExhausted"
| "cancel_exit_code LinkedExit = ExitCode.NetworkBudgetExhausted"

section \<open>The error registry\<close>

datatype SnowflakeErrorCode =
  UnknownCommand | UsageError | ProfileNotFound | ProfileInvalid | CredentialMissing |
  CredentialExpired | MutationRefused | MultiStatementRefused | RequireLiveRefused |
  RowCapExceeded | SafetyLimitExceeded | WarehouseRefused | WriteDisabled |
  WriteConfirmationRequired | WriteDdlRefused | StatementUnsupported | WriteOptInRequired |
  UpstreamError | StatementFailed | StatementTimeout | NetworkError | RetryBudgetExhausted |
  RateLimited | Cancelled | QueryStillRunning | CacheError | MetadataError | Internal |
  SurfaceReserved

record ErrorEntry =
  ee_code :: SnowflakeErrorCode
  ee_stable_code :: string
  ee_exit_code :: ExitCode
  ee_retryable :: bool
  ee_policy_boundary :: bool
  ee_summary :: string
  ee_safe_next_commands :: "string list"
  ee_repair_commands :: "string list"

definition error_row ::
  "SnowflakeErrorCode \<Rightarrow> string \<Rightarrow> ExitCode \<Rightarrow> bool \<Rightarrow> bool \<Rightarrow> string \<Rightarrow> string list \<Rightarrow>
     string list \<Rightarrow> ErrorEntry" where
  "error_row c wire ex retry boundary summary safe repair =
     \<lparr>ee_code = c, ee_stable_code = wire, ee_exit_code = ex, ee_retryable = retry,
      ee_policy_boundary = boundary, ee_summary = summary, ee_safe_next_commands = safe,
      ee_repair_commands = repair\<rparr>"

definition ALL_CODES :: "SnowflakeErrorCode list" where
  "ALL_CODES =
     [SnowflakeErrorCode.UnknownCommand, SnowflakeErrorCode.UsageError,
      SnowflakeErrorCode.ProfileNotFound, SnowflakeErrorCode.ProfileInvalid,
      SnowflakeErrorCode.CredentialMissing, SnowflakeErrorCode.CredentialExpired,
      SnowflakeErrorCode.MutationRefused, SnowflakeErrorCode.MultiStatementRefused,
      SnowflakeErrorCode.RequireLiveRefused, SnowflakeErrorCode.RowCapExceeded,
      SnowflakeErrorCode.SafetyLimitExceeded, SnowflakeErrorCode.WarehouseRefused,
      SnowflakeErrorCode.WriteDisabled, SnowflakeErrorCode.WriteConfirmationRequired,
      SnowflakeErrorCode.WriteDdlRefused, SnowflakeErrorCode.StatementUnsupported,
      SnowflakeErrorCode.WriteOptInRequired, SnowflakeErrorCode.UpstreamError,
      SnowflakeErrorCode.StatementFailed, SnowflakeErrorCode.StatementTimeout,
      SnowflakeErrorCode.NetworkError, SnowflakeErrorCode.RetryBudgetExhausted,
      SnowflakeErrorCode.RateLimited, SnowflakeErrorCode.Cancelled,
      SnowflakeErrorCode.QueryStillRunning, SnowflakeErrorCode.CacheError,
      SnowflakeErrorCode.MetadataError, SnowflakeErrorCode.Internal,
      SnowflakeErrorCode.SurfaceReserved]"

primrec entry :: "SnowflakeErrorCode \<Rightarrow> ErrorEntry" where
  "entry SnowflakeErrorCode.UnknownCommand = error_row SnowflakeErrorCode.UnknownCommand ''FSNOW-1001'' ExitCode.Usage False False
     ''Unknown command.''
     [''franken-snowflake capabilities --json'']
     [''franken-snowflake agent-handbook --json'']"
| "entry SnowflakeErrorCode.UsageError = error_row SnowflakeErrorCode.UsageError ''FSNOW-1002'' ExitCode.Usage False False
     ''Malformed arguments.''
     [''franken-snowflake <command> --help'']
     [''franken-snowflake capabilities --json'']"
| "entry SnowflakeErrorCode.ProfileNotFound = error_row SnowflakeErrorCode.ProfileNotFound ''FSNOW-2001'' ExitCode.CredentialError False False
     ''The requested profile does not exist.''
     [''franken-snowflake profile validate <profile> --json'']
     [''franken-snowflake profile validate <profile> --json'']"
| "entry SnowflakeErrorCode.ProfileInvalid = error_row SnowflakeErrorCode.ProfileInvalid ''FSNOW-2002'' ExitCode.CredentialError False False
     ''The profile is structurally invalid.''
     [''franken-snowflake profile validate <profile> --json'']
     [''franken-snowflake profile doctor <profile> --json'']"
| "entry SnowflakeErrorCode.CredentialMissing = error_row SnowflakeErrorCode.CredentialMissing ''FSNOW-2003'' ExitCode.CredentialError False False
     ''A required credential environment variable is unset.''
     [''franken-snowflake profile validate <profile> --json'']
     [''franken-snowflake profile doctor <profile> --json'']"
| "entry SnowflakeErrorCode.CredentialExpired = error_row SnowflakeErrorCode.CredentialExpired ''FSNOW-2004'' ExitCode.CredentialError False False
     ''The credential is present but expired.''
     [''franken-snowflake profile doctor <profile> --json'']
     [''franken-snowflake profile doctor <profile> --online --json'']"
| "entry SnowflakeErrorCode.MutationRefused = error_row SnowflakeErrorCode.MutationRefused ''FSNOW-3001'' ExitCode.SafetyRefusal False True
     ''Mutation refused: read-only by default.''
     [''franken-snowflake query plan --profile <profile> --sql <sql> --json'']
     [''franken-snowflake agent-handbook --json'']"
| "entry SnowflakeErrorCode.MultiStatementRefused = error_row SnowflakeErrorCode.MultiStatementRefused ''FSNOW-3002'' ExitCode.SafetyRefusal False True
     ''Multi-statement request refused by default policy.''
     [''franken-snowflake query run --profile <profile> --sql <single-statement> --json'']
     [''franken-snowflake agent-handbook --json'']"
| "entry SnowflakeErrorCode.RequireLiveRefused = error_row SnowflakeErrorCode.RequireLiveRefused ''FSNOW-3003'' ExitCode.SafetyRefusal False True
     ''--require-live refused a fixture/empty substitution.''
     [''franken-snowflake profile doctor <profile> --online --json'']
     [''franken-snowflake profile validate <profile> --json'']"
| "entry SnowflakeErrorCode.RowCapExceeded = error_row SnowflakeErrorCode.RowCapExceeded ''FSNOW-3004'' ExitCode.SafetyRefusal False True
     ''Result exceeded the row cap; use export or raise the cap.''
     [''franken-snowflake query run --profile <profile> --sql <sql> --max-rows <n> --json'']
     [''franken-snowflake export --profile <profile> --sql <sql>'']"
| "entry SnowflakeErrorCode.SafetyLimitExceeded = error_row SnowflakeErrorCode.SafetyLimitExceeded ''FSNOW-3005'' ExitCode.SafetyRefusal False True
     ''Statement or result safety bound exceeded.''
     [''franken-snowflake query plan --profile <profile> --sql <sql> --json'']
     [''franken-snowflake query plan --profile <profile> --sql <bounded-sql> --json'']"
| "entry SnowflakeErrorCode.WarehouseRefused = error_row SnowflakeErrorCode.WarehouseRefused ''FSNOW-3006'' ExitCode.SafetyRefusal False True
     ''Warehouse guardrail refused the requested warehouse.''
     [''franken-snowflake profile validate <profile> --json'']
     [''franken-snowflake profile doctor <profile> --json'']"
| "entry SnowflakeErrorCode.WriteDisabled = error_row SnowflakeErrorCode.WriteDisabled ''FSNOW-3007'' ExitCode.SafetyRefusal False True
     ''Writes are disabled for this profile; set its WRITE_ENABLED handle, then writes execute directly.''
     [''franken-snowflake query write --profile <profile> --sql <sql> --json'']
     [''export FRANKEN_SNOWFLAKE_<PROFILE>_WRITE_ENABLED=true'']"
| "entry SnowflakeErrorCode.WriteConfirmationRequired = error_row SnowflakeErrorCode.WriteConfirmationRequired ''FSNOW-3008'' ExitCode.SafetyRefusal False True
     ''Write needs a dry-run confirmation token; run --dry-run, then --confirm.''
     [''franken-snowflake query write --profile <profile> --sql <sql> --dry-run --json'']
     [''franken-snowflake query write --profile <profile> --sql <sql> --confirm <token> --json'']"
| "entry SnowflakeErrorCode.WriteDdlRefused = error_row SnowflakeErrorCode.WriteDdlRefused ''FSNOW-3009'' ExitCode.SafetyRefusal False True
     ''DDL is refused; it stays behind an explicit WRITE_ALLOW_DDL opt-in.''
     [''franken-snowflake query plan --profile <profile> --sql <sql> --json'']
     [''export FRANKEN_SNOWFLAKE_<PROFILE>_WRITE_ALLOW_DDL=true'']"
| "entry SnowflakeErrorCode.StatementUnsupported = error_row SnowflakeErrorCode.StatementUnsupported ''FSNOW-3010'' ExitCode.SafetyRefusal False True
     ''The Snowflake SQL API does not run this statement as a single statement (PUT/GET, USE, ALTER SESSION, transactions, SET).''
     [''franken-snowflake capabilities --json'']
     [''franken-snowflake query write --profile <profile> --sql <one DML statement> --json'']"
| "entry SnowflakeErrorCode.WriteOptInRequired = error_row SnowflakeErrorCode.WriteOptInRequired ''FSNOW-3011'' ExitCode.SafetyRefusal False True
     ''Procedures and external unloads need their own per-profile opt-in.''
     [''franken-snowflake query write --profile <profile> --sql <sql> --dry-run --json'']
     [''export FRANKEN_SNOWFLAKE_<PROFILE>_WRITE_ALLOW_PROCEDURES=true'',
      ''export FRANKEN_SNOWFLAKE_<PROFILE>_WRITE_ALLOW_EXTERNAL=true'']"
| "entry SnowflakeErrorCode.UpstreamError = error_row SnowflakeErrorCode.UpstreamError ''FSNOW-4001'' ExitCode.UpstreamError False False
     ''Upstream Snowflake SQL API error.''
     [''franken-snowflake profile doctor <profile> --online --json'']
     [''franken-snowflake doctor --json'']"
| "entry SnowflakeErrorCode.StatementFailed = error_row SnowflakeErrorCode.StatementFailed ''FSNOW-4002'' ExitCode.UpstreamError False False
     ''Statement failed upstream.''
     [''franken-snowflake query plan --profile <profile> --sql <sql> --json'']
     [''franken-snowflake query plan --profile <profile> --sql <sql> --json'']"
| "entry SnowflakeErrorCode.StatementTimeout = error_row SnowflakeErrorCode.StatementTimeout ''FSNOW-4003'' ExitCode.UpstreamError True False
     ''Statement exceeded STATEMENT_TIMEOUT_IN_SECONDS.''
     [''franken-snowflake query run --profile <profile> --sql <sql> --json'']
     [''franken-snowflake query plan --profile <profile> --sql <sql> --json'']"
| "entry SnowflakeErrorCode.NetworkError = error_row SnowflakeErrorCode.NetworkError ''FSNOW-5001'' ExitCode.NetworkBudgetExhausted True False
     ''Network/transport error.''
     [''franken-snowflake doctor --json'']
     [''franken-snowflake profile doctor <profile> --online --json'']"
| "entry SnowflakeErrorCode.RetryBudgetExhausted = error_row SnowflakeErrorCode.RetryBudgetExhausted ''FSNOW-5002'' ExitCode.NetworkBudgetExhausted False False
     ''Retry budget exhausted.''
     [''franken-snowflake doctor --json'']
     [''franken-snowflake query cancel <statement-handle> --json'']"
| "entry SnowflakeErrorCode.RateLimited = error_row SnowflakeErrorCode.RateLimited ''FSNOW-5003'' ExitCode.NetworkBudgetExhausted True False
     ''Rate limited upstream (429).''
     [''franken-snowflake doctor --json'']
     [''franken-snowflake query run --profile <profile> --sql <sql> --json'']"
| "entry SnowflakeErrorCode.Cancelled = error_row SnowflakeErrorCode.Cancelled ''FSNOW-5004'' ExitCode.NetworkBudgetExhausted True False
     ''Cancelled before completion; a submitted statement was sent a best-effort remote cancel.''
     [''franken-snowflake query run --profile <profile> --sql <sql> --json'']
     [''franken-snowflake query cancel <statement-handle> --profile <profile> --json'']"
| "entry SnowflakeErrorCode.QueryStillRunning = error_row SnowflakeErrorCode.QueryStillRunning ''FSNOW-6001'' ExitCode.QueryStillRunning True False
     ''Async query still running; poll the handle.''
     [''franken-snowflake query cancel <statement-handle> --json'']
     [''franken-snowflake receipt show <receipt-hash> --json'']"
| "entry SnowflakeErrorCode.CacheError = error_row SnowflakeErrorCode.CacheError ''FSNOW-7001'' ExitCode.LocalCacheError False False
     ''Local cache error.''
     [''franken-snowflake doctor --json'']
     [''franken-snowflake doctor --json'']"
| "entry SnowflakeErrorCode.MetadataError = error_row SnowflakeErrorCode.MetadataError ''FSNOW-7002'' ExitCode.LocalCacheError False False
     ''Local metadata error.''
     [''franken-snowflake catalog scan <profile> --json'']
     [''franken-snowflake doctor --json'']"
| "entry SnowflakeErrorCode.Internal = error_row SnowflakeErrorCode.Internal ''FSNOW-9001'' ExitCode.Io False False
     ''Internal invariant violated.''
     [''franken-snowflake doctor --json'']
     [''franken-snowflake selftest --json'']"
| "entry SnowflakeErrorCode.SurfaceReserved = error_row SnowflakeErrorCode.SurfaceReserved ''FSNOW-9002'' ExitCode.SafetyRefusal False True
     ''Command surface is reserved; its handler is pending lower-level beads.''
     [''franken-snowflake capabilities --json'']
     [''franken-snowflake doctor --json'']"

definition stable_code :: "SnowflakeErrorCode \<Rightarrow> string" where
  "stable_code c = ee_stable_code (entry c)"

definition code_exit_code :: "SnowflakeErrorCode \<Rightarrow> ExitCode" where
  "code_exit_code c = ee_exit_code (entry c)"

definition code_retryable :: "SnowflakeErrorCode \<Rightarrow> bool" where
  "code_retryable c = ee_retryable (entry c)"

definition code_policy_boundary :: "SnowflakeErrorCode \<Rightarrow> bool" where
  "code_policy_boundary c = ee_policy_boundary (entry c)"

definition from_stable_code :: "string \<Rightarrow> SnowflakeErrorCode option" where
  "from_stable_code s = List.find (\<lambda>c. stable_code c = s) ALL_CODES"

record SnowflakeError =
  err_code :: SnowflakeErrorCode
  err_message :: string
  err_safe_next_commands :: "string list"
  err_repair_commands :: "string list"
  err_cancel_kind :: "CancelKind option"

definition new_error :: "SnowflakeErrorCode \<Rightarrow> string \<Rightarrow> SnowflakeError" where
  "new_error c message =
     (let e = entry c
      in \<lparr>err_code = c, err_message = message,
          err_safe_next_commands = ee_safe_next_commands e,
          err_repair_commands = ee_repair_commands e, err_cancel_kind = None\<rparr>)"

definition cancelled_error :: "CancelKind \<Rightarrow> string \<Rightarrow> SnowflakeError" where
  "cancelled_error k message =
     (new_error SnowflakeErrorCode.Cancelled message)\<lparr>err_cancel_kind := Some k\<rparr>"

definition err_retryable :: "SnowflakeError \<Rightarrow> bool" where
  "err_retryable e = code_retryable (err_code e)"

definition err_policy_boundary :: "SnowflakeError \<Rightarrow> bool" where
  "err_policy_boundary e = code_policy_boundary (err_code e)"

definition err_exit_code :: "SnowflakeError \<Rightarrow> ExitCode" where
  "err_exit_code e =
     (case err_cancel_kind e of None \<Rightarrow> code_exit_code (err_code e) | Some k \<Rightarrow> cancel_exit_code k)"

definition err_display :: "SnowflakeError \<Rightarrow> string" where
  "err_display e = ''['' @ stable_code (err_code e) @ ''] '' @ err_message e"

section \<open>Outcomes\<close>

text \<open>\<^verbatim>\<open>Outcome<T, SnowflakeError>\<close>; the payload of a panic plays no part in the projections.\<close>

datatype 'a SnowflakeOutcome = Ok 'a | Err SnowflakeError | OutcomeCancelled CancelKind | Panicked

definition error_outcome_kind :: "SnowflakeError \<Rightarrow> OutcomeKind" where
  "error_outcome_kind e =
     (case err_cancel_kind e of
        Some k \<Rightarrow> cancel_outcome_kind k
      | None \<Rightarrow>
          if err_policy_boundary e then OutcomeKind.Refusal
          else if err_code e = SnowflakeErrorCode.StatementTimeout then OutcomeKind.Timeout
          else OutcomeKind.Error)"

fun outcome_kind :: "'a SnowflakeOutcome \<Rightarrow> OutcomeKind" where
  "outcome_kind (Ok x) = OutcomeKind.Success"
| "outcome_kind (Err e) = error_outcome_kind e"
| "outcome_kind (OutcomeCancelled k) = cancel_outcome_kind k"
| "outcome_kind Panicked = OutcomeKind.Error"

fun outcome_exit_code :: "'a SnowflakeOutcome \<Rightarrow> ExitCode" where
  "outcome_exit_code (Ok x) = ExitCode.Success"
| "outcome_exit_code (Err e) = err_exit_code e"
| "outcome_exit_code (OutcomeCancelled k) = cancel_exit_code k"
| "outcome_exit_code Panicked = ExitCode.Io"

definition outcome_is_success :: "'a SnowflakeOutcome \<Rightarrow> bool" where
  "outcome_is_success r \<longleftrightarrow> (case r of Ok x \<Rightarrow> True | _ \<Rightarrow> False)"

section \<open>Response classes\<close>

datatype ResponseClass =
  Completed | Running | StatementTimeout | StatementFailed | RateLimited | Other nat

text \<open>The argument is a \<^verbatim>\<open>u16\<close>.\<close>

definition from_status :: "nat \<Rightarrow> ResponseClass" where
  "from_status code =
     (if code = 200 then Completed else if code = 202 then Running
      else if code = 408 then ResponseClass.StatementTimeout
      else if code = 422 then ResponseClass.StatementFailed
      else if code = 429 then ResponseClass.RateLimited else Other code)"

definition should_poll :: "ResponseClass \<Rightarrow> bool" where
  "should_poll c \<longleftrightarrow> c = Running"

definition class_is_retryable :: "ResponseClass \<Rightarrow> bool" where
  "class_is_retryable c \<longleftrightarrow>
     (case c of ResponseClass.RateLimited \<Rightarrow> True | Other n \<Rightarrow> 500 \<le> n \<and> n \<le> 599 | _ \<Rightarrow> False)"

definition class_is_terminal :: "ResponseClass \<Rightarrow> bool" where
  "class_is_terminal c \<longleftrightarrow>
     (case c of Completed \<Rightarrow> True | ResponseClass.StatementTimeout \<Rightarrow> True
      | ResponseClass.StatementFailed \<Rightarrow> True | _ \<Rightarrow> False)"

fun terminal_outcome :: "ResponseClass \<Rightarrow> OutcomeKind option" where
  "terminal_outcome Completed = Some OutcomeKind.Success"
| "terminal_outcome ResponseClass.StatementTimeout = Some OutcomeKind.Timeout"
| "terminal_outcome ResponseClass.StatementFailed = Some OutcomeKind.Error"
| "terminal_outcome Running = None"
| "terminal_outcome ResponseClass.RateLimited = None"
| "terminal_outcome (Other n) = None"

section \<open>Crash packs\<close>

text \<open>
  The hash and the recorded outcome of a terminal failure; the crash pack itself is written by
  Asupersync. A cancel kind travels as the name \<^verbatim>\<open>{kind:?}\<close> gives it.
\<close>

definition fnv_byte :: "64 word \<Rightarrow> char \<Rightarrow> 64 word" where
  "fnv_byte h b = (xor h (of_nat (code_of b))) * 0x100000001b3"

definition fnv1a_u64 :: "string list \<Rightarrow> 64 word" where
  "fnv1a_u64 chunks = foldl (foldl fnv_byte) 0xcbf29ce484222325 chunks"

fun cancel_kind_name :: "CancelKind \<Rightarrow> string" where
  "cancel_kind_name User = ''User''"
| "cancel_kind_name CancelKind.Timeout = ''Timeout''"
| "cancel_kind_name Deadline = ''Deadline''"
| "cancel_kind_name PollQuota = ''PollQuota''"
| "cancel_kind_name CostBudget = ''CostBudget''"
| "cancel_kind_name FailFast = ''FailFast''"
| "cancel_kind_name RaceLost = ''RaceLost''"
| "cancel_kind_name ParentCancelled = ''ParentCancelled''"
| "cancel_kind_name ResourceUnavailable = ''ResourceUnavailable''"
| "cancel_kind_name Shutdown = ''Shutdown''"
| "cancel_kind_name LinkedExit = ''LinkedExit''"

definition parse_cancel_kind :: "string option \<Rightarrow> string \<Rightarrow> CancelKind" where
  "parse_cancel_kind name outcome =
     (if name = Some ''User'' then User
      else if name = Some ''Timeout'' then CancelKind.Timeout
      else if name = Some ''Deadline'' then Deadline
      else if name = Some ''PollQuota'' then PollQuota
      else if name = Some ''CostBudget'' then CostBudget
      else if name = Some ''FailFast'' then FailFast
      else if name = Some ''RaceLost'' then RaceLost
      else if name = Some ''ParentCancelled'' then ParentCancelled
      else if name = Some ''Shutdown'' then Shutdown
      else if outcome = ''timeout'' then Deadline
      else User)"

datatype FailureOutcome = FailureCancelled CancelKind | FailureErr

definition failure_outcome :: "string \<Rightarrow> string option \<Rightarrow> FailureOutcome" where
  "failure_outcome outcome cancel_kind =
     (if outcome = ''cancelled'' \<or> outcome = ''timeout''
      then FailureCancelled (parse_cancel_kind cancel_kind outcome) else FailureErr)"

definition crashpack_fingerprint :: "string \<Rightarrow> string \<Rightarrow> string \<Rightarrow> string option \<Rightarrow> 64 word" where
  "crashpack_fingerprint command_id outcome error_code cancel_kind =
     fnv1a_u64 [command_id, ''|'', outcome, ''|'', error_code, ''|'',
       (case cancel_kind of None \<Rightarrow> [] | Some k \<Rightarrow> k)]"

lemma fnv1a_chunks: "fnv1a_u64 chunks = fnv1a_u64 [concat chunks]"
proof -
  have "foldl (foldl fnv_byte) h chunks = foldl fnv_byte h (concat chunks)" for h
    by (induction chunks arbitrary: h) auto
  then show ?thesis by (simp add: fnv1a_u64_def)
qed

section \<open>Properties of the registry\<close>

lemma all_codes_complete: "c \<in> set ALL_CODES"
  by (cases c) (simp_all add: ALL_CODES_def)

lemma all_codes_forall: "list_all P ALL_CODES \<Longrightarrow> P c"
  using all_codes_complete [of c] by (simp add: list_all_iff)

lemma stable_codes_distinct: "distinct (map stable_code ALL_CODES)"
  by code_simp

text \<open>
  The wire codes are a bijection onto the registry: a string resolves to a code exactly
  when it is that code's stable string, and every code is listed once.
\<close>

theorem from_stable_code_iff:
  "(from_stable_code s = Some c \<longleftrightarrow> stable_code c = s) \<and> distinct ALL_CODES \<and> c \<in> set ALL_CODES"
proof -
  have inj: "c = d" if "stable_code c = stable_code d" for c d
    using stable_codes_distinct all_codes_complete that by (auto simp: distinct_map inj_on_def)
  have "from_stable_code (stable_code c) = Some c"
  proof (cases "from_stable_code (stable_code c)")
    case None
    then show ?thesis using all_codes_complete [of c] by (auto simp: from_stable_code_def find_None_iff)
  next
    case (Some d)
    then show ?thesis using inj by (auto simp: from_stable_code_def find_Some_iff)
  qed
  moreover have "stable_code c = s" if "from_stable_code s = Some c"
    using that by (auto simp: from_stable_code_def find_Some_iff)
  ultimately show ?thesis
    using stable_codes_distinct all_codes_complete by (auto simp: distinct_map)
qed

text \<open>
  Every error is actionable and consistently classed: each code carries at least one safe
  next command and one repair command, it is a policy boundary exactly when it exits with the
  safety-refusal code, no policy boundary is advertised as retryable, and no error code exits 0.
\<close>

theorem registry_consistent:
  "err_safe_next_commands (new_error c m) \<noteq> [] \<and> err_repair_commands (new_error c m) \<noteq> []
   \<and> (code_policy_boundary c \<longleftrightarrow> code_exit_code c = ExitCode.SafetyRefusal)
   \<and> \<not> (code_policy_boundary c \<and> code_retryable c)
   \<and> exit_code_number (code_exit_code c) \<noteq> 0"
  by (cases c)
    (simp_all add: new_error_def code_policy_boundary_def code_exit_code_def code_retryable_def error_row_def)

lemma code_exit_not_success: "code_exit_code c \<noteq> ExitCode.Success"
  by (cases c) (simp_all add: code_exit_code_def error_row_def)

lemma policy_boundary_exit: "code_policy_boundary c \<longleftrightarrow> code_exit_code c = ExitCode.SafetyRefusal"
  by (cases c) (simp_all add: code_policy_boundary_def code_exit_code_def error_row_def)

text \<open>
  The exit code and the envelope class never disagree about a refusal or a success: an
  error reads as a refusal exactly when it is not a cancellation and exits with the
  safety-refusal code; a process exits 0 exactly for a result and for a user cancel; and a
  cancellation carried as an error value projects like the cancellation itself.
\<close>

theorem outcome_projection_agrees:
  "(error_outcome_kind e = OutcomeKind.Refusal \<longleftrightarrow>
      err_cancel_kind e = None \<and> err_exit_code e = ExitCode.SafetyRefusal)
   \<and> (outcome_exit_code r = ExitCode.Success \<longleftrightarrow>
      outcome_is_success r \<or> r = OutcomeCancelled User
      \<or> (\<exists>e. r = Err e \<and> err_cancel_kind e = Some User))
   \<and> outcome_kind (Err (cancelled_error k m)) = outcome_kind (OutcomeCancelled k)
   \<and> outcome_exit_code (Err (cancelled_error k m)) = outcome_exit_code (OutcomeCancelled k)"
proof -
  have user: "cancel_exit_code k = ExitCode.Success \<longleftrightarrow> k = User" for k by (cases k) auto
  have kind: "cancel_outcome_kind k \<noteq> OutcomeKind.Refusal" for k
    by (cases k) (auto simp: cancel_outcome_kind_def)
  have "error_outcome_kind e = OutcomeKind.Refusal \<longleftrightarrow>
      err_cancel_kind e = None \<and> err_exit_code e = ExitCode.SafetyRefusal"
    using kind policy_boundary_exit
    by (auto simp: error_outcome_kind_def err_exit_code_def err_policy_boundary_def split: option.splits)
  moreover have "outcome_exit_code r = ExitCode.Success \<longleftrightarrow>
      outcome_is_success r \<or> r = OutcomeCancelled User
      \<or> (\<exists>e. r = Err e \<and> err_cancel_kind e = Some User)"
    using user code_exit_not_success
    by (cases r) (auto simp: outcome_is_success_def err_exit_code_def split: option.splits)
  ultimately show ?thesis
    by (simp add: cancelled_error_def error_outcome_kind_def err_exit_code_def)
qed

text \<open>
  A crash pack records the cancel kind that happened for every kind but two: a cancellation
  for an unavailable resource or a linked exit is recorded as a user cancel.
\<close>

theorem crashpack_cancel_kind:
  "failure_outcome ''cancelled'' (Some (cancel_kind_name k)) =
     FailureCancelled (if k = ResourceUnavailable \<or> k = LinkedExit then User else k)"
  by (cases k) (simp_all add: failure_outcome_def parse_cancel_kind_def)

text \<open>
  The HTTP status signals are never confused: each status is in exactly one of the states
  poll again, retry, finished, or other error; only the finished ones have an outcome class,
  and a 5xx status, though retried, has none.
\<close>

theorem response_class_partition:
  "length (filter id [should_poll (from_status n), class_is_retryable (from_status n),
       class_is_terminal (from_status n),
       from_status n = Other n \<and> (n < 500 \<or> 599 < n)]) = 1
   \<and> (class_is_terminal (from_status n) \<longleftrightarrow> terminal_outcome (from_status n) \<noteq> None)
   \<and> (class_is_retryable (from_status n) \<longleftrightarrow> n = 429 \<or> 500 \<le> n \<and> n \<le> 599)"
  by (auto simp: from_status_def should_poll_def class_is_retryable_def class_is_terminal_def)

end
