(* ===== verification/Guardrails.thy ===== *)
theory Guardrails
  imports SqlStatements Redact Registry "HOL-Library.List_Lexorder" "HOL-Library.Char_ord"
begin

text \<open>
  Security and cost guardrails, \<^verbatim>\<open>crates/franken-snowflake-core/src/guardrails.rs\<close>: rights
  classes and entitlements, the safety check of a query plan, the cost estimate, and the
  canary scan of the output channels.

  Machine integers are naturals with their bounds in the hypotheses; the one product that can
  overflow saturates at \<^term>\<open>u64_max\<close> as the code's does.
\<close>

section \<open>Rights\<close>

datatype MutationPolicy = ReadOnly | WriteIntentRequired

datatype SqlOperationClass = Read | Mutating

datatype RightsClass = Public | Internal | Private | Restricted

text \<open>The derived order of the source: later variants are more restrictive.\<close>

primrec rights_rank :: "RightsClass \<Rightarrow> nat" where
  "rights_rank Public = 0"
| "rights_rank RightsClass.Internal = 1"
| "rights_rank Private = 2"
| "rights_rank Restricted = 3"

instantiation RightsClass :: linorder
begin

definition less_eq_RightsClass :: "RightsClass \<Rightarrow> RightsClass \<Rightarrow> bool" where
  "less_eq_RightsClass a b \<longleftrightarrow> rights_rank a \<le> rights_rank b"

definition less_RightsClass :: "RightsClass \<Rightarrow> RightsClass \<Rightarrow> bool" where
  "less_RightsClass a b \<longleftrightarrow> rights_rank a < rights_rank b"

instance
proof
  have inj: "rights_rank a = rights_rank b \<Longrightarrow> a = b" for a b by (cases a; cases b) simp_all
  fix x y z :: RightsClass
  show "x < y \<longleftrightarrow> x \<le> y \<and> \<not> y \<le> x" by (auto simp: less_eq_RightsClass_def less_RightsClass_def)
  show "x \<le> x" by (simp add: less_eq_RightsClass_def)
  show "x \<le> y \<Longrightarrow> y \<le> z \<Longrightarrow> x \<le> z" by (simp add: less_eq_RightsClass_def)
  show "x \<le> y \<Longrightarrow> y \<le> x \<Longrightarrow> x = y" using inj by (simp add: less_eq_RightsClass_def)
  show "x \<le> y \<or> y \<le> x" by (auto simp: less_eq_RightsClass_def)
qed

end

text \<open>One character of the label each: the continuation bytes of a scalar are dropped with it.\<close>

definition normalize_label :: "string \<Rightarrow> string" where
  "normalize_label label =
     map (\<lambda>c. if is_ascii_alphanumeric c then to_lower c else CHR ''_'')
       (filter (\<lambda>c. \<not> is_cont c) (str_trim label))"

definition parse_fail_closed :: "string \<Rightarrow> RightsClass" where
  "parse_fail_closed label =
     (let l = normalize_label label
      in if l = ''public'' then Public
         else if l \<in> set [''internal'', ''organization'', ''org''] then RightsClass.Internal
         else if l \<in> set [''private'', ''confidential''] then Private
         else Restricted)"

fun rights_display :: "RightsClass \<Rightarrow> string" where
  "rights_display Public = ''public''"
| "rights_display RightsClass.Internal = ''internal''"
| "rights_display Private = ''private''"
| "rights_display Restricted = ''restricted''"

record RightsEntitlement =
  ent_max_rights_class :: RightsClass
  ent_expires_at_unix_seconds :: "int option"

definition active_at :: "RightsEntitlement \<Rightarrow> int \<Rightarrow> RightsClass option" where
  "active_at e now =
     (case ent_expires_at_unix_seconds e of
        Some expires_at \<Rightarrow> if expires_at \<le> now then None else Some (ent_max_rights_class e)
      | None \<Rightarrow> Some (ent_max_rights_class e))"

definition permits :: "RightsEntitlement \<Rightarrow> RightsClass \<Rightarrow> int \<Rightarrow> bool" where
  "permits e required now =
     (case active_at e now of None \<Rightarrow> False | Some allowed \<Rightarrow> required \<le> allowed)"

section \<open>Query plans\<close>

definition DEFAULT_MAX_STATEMENT_BYTES :: nat where "DEFAULT_MAX_STATEMENT_BYTES = 1000000"
definition DEFAULT_MAX_RESULT_ROWS :: nat where "DEFAULT_MAX_RESULT_ROWS = 10000"
definition DEFAULT_MAX_RESULT_BYTES :: nat where "DEFAULT_MAX_RESULT_BYTES = 100 * 1024 * 1024"
definition DEFAULT_STATEMENT_TIMEOUT_SECONDS :: nat where "DEFAULT_STATEMENT_TIMEOUT_SECONDS = 300"
definition WAREHOUSE_BILLING_MINIMUM_SECONDS :: nat where "WAREHOUSE_BILLING_MINIMUM_SECONDS = 60"

record QuerySafetyLimits =
  lim_max_statement_bytes :: nat
  lim_max_result_rows :: nat
  lim_max_result_bytes :: nat
  lim_statement_timeout_seconds :: nat
  lim_require_warehouse :: bool
  lim_allowed_warehouses :: "string list"
  lim_mutation_policy :: MutationPolicy

definition default_limits :: QuerySafetyLimits where
  "default_limits =
     \<lparr>lim_max_statement_bytes = DEFAULT_MAX_STATEMENT_BYTES,
      lim_max_result_rows = DEFAULT_MAX_RESULT_ROWS, lim_max_result_bytes = DEFAULT_MAX_RESULT_BYTES,
      lim_statement_timeout_seconds = DEFAULT_STATEMENT_TIMEOUT_SECONDS,
      lim_require_warehouse = True, lim_allowed_warehouses = [], lim_mutation_policy = ReadOnly\<rparr>"

record QueryPlanGuard =
  qpg_sql :: string
  qpg_statement_timeout_seconds :: "nat option"
  qpg_result_row_cap :: "nat option"
  qpg_result_byte_cap :: "nat option"
  qpg_warehouse :: "string option"
  qpg_export_mode :: bool

definition new_query_plan :: "string \<Rightarrow> QueryPlanGuard" where
  "new_query_plan sql =
     \<lparr>qpg_sql = sql, qpg_statement_timeout_seconds = None, qpg_result_row_cap = None,
      qpg_result_byte_cap = None, qpg_warehouse = None, qpg_export_mode = False\<rparr>"

record GuardrailWarning =
  gw_code :: string
  gw_message :: string

record BoundedQueryPlan =
  bqp_sql :: string
  bqp_statement_timeout_seconds :: nat
  bqp_result_row_cap :: nat
  bqp_result_byte_cap :: nat
  bqp_warehouse :: string
  bqp_warnings :: "GuardrailWarning list"

definition classify_sql_operation :: "string \<Rightarrow> SqlOperationClass" where
  "classify_sql_operation sql =
     (let l = lex sql
      in if is_unreliable l then Mutating
         else case first_word l of
                None \<Rightarrow> Read
              | Some verb \<Rightarrow>
                  if is_mutating_verb verb then Mutating
                  else if verb = ''with'' \<and> \<not> is_read_statement l then Mutating
                  else Read)"

definition looks_unconstrained :: "string \<Rightarrow> bool" where
  "looks_unconstrained sql =
     (let words = lex_words (lex sql)
      in list_ex (\<lambda>w. w = ''select'') words
         \<and> \<not> list_ex (\<lambda>w. w \<in> set [''limit'', ''where'', ''qualify'', ''fetch'']) words)"

definition pick_warehouse :: "QueryPlanGuard \<Rightarrow> QuerySafetyLimits \<Rightarrow> string option" where
  "pick_warehouse plan limits =
     (case qpg_warehouse plan of
        Some w \<Rightarrow> if str_trim w \<noteq> [] then Some w
                  else if lim_require_warehouse limits then None else Some []
      | None \<Rightarrow> if lim_require_warehouse limits then None else Some [])"

text \<open>A caller's positive value is kept up to the limit; anything else takes the limit.\<close>

definition bounded :: "nat option \<Rightarrow> nat \<Rightarrow> nat" where
  "bounded requested limit =
     (case requested of Some v \<Rightarrow> if v > 0 then min v limit else limit | None \<Rightarrow> limit)"

definition defaulted :: "nat option \<Rightarrow> bool" where
  "defaulted requested \<longleftrightarrow> (case requested of Some v \<Rightarrow> v = 0 | None \<Rightarrow> True)"

definition plan_warnings :: "QueryPlanGuard \<Rightarrow> QuerySafetyLimits \<Rightarrow> GuardrailWarning list" where
  "plan_warnings plan limits =
     (if defaulted (qpg_statement_timeout_seconds plan)
      then [\<lparr>gw_code = ''auto_statement_timeout'',
             gw_message = ''applied STATEMENT_TIMEOUT_IN_SECONDS=''
               @ nat_str (lim_statement_timeout_seconds limits)\<rparr>] else [])
     @ (if defaulted (qpg_result_row_cap plan) \<and> \<not> qpg_export_mode plan
        then [\<lparr>gw_code = ''auto_row_cap'',
               gw_message = ''applied result row cap '' @ nat_str (lim_max_result_rows limits)\<rparr>] else [])
     @ (if defaulted (qpg_result_byte_cap plan)
        then [\<lparr>gw_code = ''auto_byte_cap'',
               gw_message = ''applied result byte cap '' @ nat_str (lim_max_result_bytes limits)\<rparr>] else [])
     @ (if looks_unconstrained (qpg_sql plan)
        then [\<lparr>gw_code = ''unconstrained_query'',
               gw_message = ''query appears unconstrained; row and byte caps remain enforced''\<rparr>] else [])"

definition enforce_query_safety ::
  "QueryPlanGuard \<Rightarrow> QuerySafetyLimits \<Rightarrow> SnowflakeError + BoundedQueryPlan" where
  "enforce_query_safety plan limits =
     (if length (qpg_sql plan) > lim_max_statement_bytes limits then
        Inl (new_error SafetyLimitExceeded
          (''statement is '' @ nat_str (length (qpg_sql plan)) @ '' bytes; max_statement_bytes is ''
           @ nat_str (lim_max_statement_bytes limits)))
      else if classify_sql_operation (qpg_sql plan) = Mutating \<and> lim_mutation_policy limits = ReadOnly then
        Inl (new_error MutationRefused
          ''mutating SQL is disabled by default; use the future write-intent ladder'')
      else case pick_warehouse plan limits of
        None \<Rightarrow> Inl (new_error WarehouseRefused ''warehouse is required for cost attribution and guardrails'')
      | Some warehouse \<Rightarrow>
          if lim_allowed_warehouses limits \<noteq> []
             \<and> \<not> list_ex (\<lambda>allowed. eq_ignore_ascii_case allowed warehouse) (lim_allowed_warehouses limits)
          then Inl (new_error WarehouseRefused ''warehouse is not in the profile allowlist'')
          else Inr
            \<lparr>bqp_sql = qpg_sql plan,
             bqp_statement_timeout_seconds =
               bounded (qpg_statement_timeout_seconds plan) (lim_statement_timeout_seconds limits),
             bqp_result_row_cap = bounded (qpg_result_row_cap plan) (lim_max_result_rows limits),
             bqp_result_byte_cap = bounded (qpg_result_byte_cap plan) (lim_max_result_bytes limits),
             bqp_warehouse = warehouse, bqp_warnings = plan_warnings plan limits\<rparr>)"

section \<open>Cost, provenance and output channels\<close>

record CostVector =
  cv_statements_run :: nat
  cv_partitions_fetched :: nat
  cv_bytes_scanned :: nat
  cv_warehouse_credits_estimate_micros :: nat
  cv_warehouse_credits_estimate_is_advisory :: bool
  cv_warehouse_billing_seconds :: nat

definition estimate_warehouse :: "nat \<Rightarrow> nat \<Rightarrow> nat \<Rightarrow> nat \<Rightarrow> nat \<Rightarrow> CostVector" where
  "estimate_warehouse statements partitions bytes elapsed_seconds credits_per_hour_micros =
     (let billed = max elapsed_seconds WAREHOUSE_BILLING_MINIMUM_SECONDS;
          estimate = sat_mul u64_max credits_per_hour_micros billed div 3600
      in \<lparr>cv_statements_run = statements, cv_partitions_fetched = partitions,
          cv_bytes_scanned = bytes, cv_warehouse_credits_estimate_micros = estimate,
          cv_warehouse_credits_estimate_is_advisory = True,
          cv_warehouse_billing_seconds = billed\<rparr>)"

definition breaches_advisory_budget :: "CostVector \<Rightarrow> nat \<Rightarrow> bool" where
  "breaches_advisory_budget cost quota \<longleftrightarrow> cv_warehouse_credits_estimate_micros cost > quota"

datatype OutputChannel = Stdout | Stderr | Receipt | Log | Export

record CanaryLeakFinding =
  clf_channel :: OutputChannel
  clf_message :: string

record GuardrailLogLine =
  gll_schema_version :: nat
  gll_event :: string
  gll_outcome_kind :: OutcomeKind
  gll_message :: string
  gll_redactions_applied :: "string list"

definition new_log_line :: "string \<Rightarrow> OutcomeKind \<Rightarrow> string \<Rightarrow> string list \<Rightarrow> GuardrailLogLine" where
  "new_log_line event kind message redactions =
     \<lparr>gll_schema_version = 1, gll_event = event, gll_outcome_kind = kind, gll_message = message,
      gll_redactions_applied = redactions\<rparr>"

definition redact_for_output :: "string \<Rightarrow> string list \<Rightarrow> bool \<Rightarrow> string" where
  "redact_for_output input account_identifiers redact_account =
     (if redact_account then redact_with_account (redact input) account_identifiers else redact input)"

fun data_source_name :: "DataSource \<Rightarrow> string" where
  "data_source_name Live = ''Live''"
| "data_source_name Fixture = ''Fixture''"
| "data_source_name DataSource.Empty = ''Empty''"
| "data_source_name Unspecified = ''Unspecified''"

definition enforce_require_live :: "bool \<Rightarrow> DataSource \<Rightarrow> SnowflakeError + unit" where
  "enforce_require_live require_live d =
     (if require_live \<and> d \<noteq> Live
      then Inl (new_error RequireLiveRefused (''--require-live requires live data; got '' @ data_source_name d))
      else Inr ())"

definition enforce_data_source_stamped :: "DataSource \<Rightarrow> SnowflakeError + unit" where
  "enforce_data_source_stamped d =
     (if is_unspecified d then Inl (new_error SnowflakeErrorCode.Internal ''envelope missing data_source provenance stamp'')
      else Inr ())"

definition cost_budget_breach_log :: "CostVector \<Rightarrow> nat \<Rightarrow> GuardrailLogLine option" where
  "cost_budget_breach_log cost quota =
     (if breaches_advisory_budget cost quota
      then Some (new_log_line ''cost_budget_breach'' OutcomeKind.Cancelled
             ''advisory cost quota breached; surface as Cancelled(CostBudget)'' [])
      else None)"

definition scan_canary_outputs :: "(OutputChannel \<times> string) list \<Rightarrow> CanaryLeakFinding list" where
  "scan_canary_outputs outputs =
     map (\<lambda>(channel, _). \<lparr>clf_channel = channel,
            clf_message = ''secret-shaped canary found in output channel''\<rparr>)
       (filter (\<lambda>(_, output). contains_secret output) outputs)"

definition dedupe_redaction_markers :: "string list \<Rightarrow> string list" where
  "dedupe_redaction_markers markers = sorted_list_of_set (set markers)"

section \<open>Properties of the guardrails\<close>

lemma find_map_map_filter: "find_map f xs = (case List.map_filter f xs of [] \<Rightarrow> None | y # _ \<Rightarrow> Some y)"
  by (induction xs) (auto simp: List.map_filter_simps split: option.split)

lemma first_word_words: "lex_words l = w # ws \<Longrightarrow> first_word l = Some w"
  by (simp add: first_word_def find_map_map_filter lex_words_significant)

lemma read_verbs_not_mutating:
  "v \<in> set READ_VERBS \<or> v = ''with'' \<Longrightarrow> \<not> is_mutating_verb v"
proof -
  have "list_all (\<lambda>v. \<not> is_mutating_verb v) (''with'' # READ_VERBS)" by code_simp
  then show "v \<in> set READ_VERBS \<or> v = ''with'' \<Longrightarrow> \<not> is_mutating_verb v" by (auto simp: list_all_iff)
qed

lemma bounded_le: "bounded requested limit \<le> limit"
  by (auto simp: bounded_def split: option.split)

lemma bounded_pos: "0 < limit \<Longrightarrow> 0 < bounded requested limit"
  by (auto simp: bounded_def split: option.split)

lemma select_like_read: "is_select_like sql \<Longrightarrow> classify_sql_operation sql = Read"
proof -
  assume "is_select_like sql"
  then have l: "\<not> is_unreliable (lex sql)" "is_read_statement (lex sql)"
    by (auto simp: is_select_like_def Let_def)
  from l(2) obtain v ws where v: "lex_words (lex sql) = v # ws" "v \<in> set READ_VERBS \<or> v = ''with''"
    by (rule read_statement_first_word)
  with l read_verbs_not_mutating [OF v(2)] show ?thesis
    by (simp add: classify_sql_operation_def first_word_words)
qed

text \<open>
  The query guard never refuses a read as a mutation: a text the command line accepts as a
  read is classified as one, so the only refusals left for it are its size and its warehouse.
\<close>

theorem select_like_is_classified_read:
  assumes "is_select_like sql"
  shows "classify_sql_operation sql = Read
         \<and> (enforce_query_safety (plan\<lparr>qpg_sql := sql\<rparr>) limits = Inl e \<longrightarrow>
              err_code e = SafetyLimitExceeded \<or> err_code e = WarehouseRefused)"
  using select_like_read [OF assms]
  by (auto simp: enforce_query_safety_def new_error_def Let_def split: if_splits option.splits)

theorem select_like_is_classified_read_witness:
  "classify_sql_operation ''(select 1)'' = Read"
proof -
  have "is_select_like ''(select 1)''" by code_simp
  from select_like_is_classified_read [OF this] show ?thesis by blast
qed

text \<open>
  C37. An accepted plan is bounded: its statement fits, it is not a mutation under a read-only
  policy, its timeout and both caps are within the limits (and within what the caller asked
  for), positive when the limits are, its warehouse is present when one is required and
  allowlisted when there is an allowlist, and the SQL is the caller's, unchanged.
\<close>

theorem accepted_plan_is_bounded:
  assumes "enforce_query_safety plan limits = Inr b"
  shows "bqp_sql b = qpg_sql plan \<and> length (bqp_sql b) \<le> lim_max_statement_bytes limits
         \<and> (lim_mutation_policy limits = ReadOnly \<longrightarrow> classify_sql_operation (bqp_sql b) = Read)
         \<and> bqp_statement_timeout_seconds b \<le> lim_statement_timeout_seconds limits
         \<and> bqp_result_row_cap b \<le> lim_max_result_rows limits
         \<and> bqp_result_byte_cap b \<le> lim_max_result_bytes limits
         \<and> (0 < lim_max_result_rows limits \<longrightarrow> 0 < bqp_result_row_cap b)
         \<and> (\<forall>v. qpg_result_row_cap plan = Some v \<and> 0 < v \<longrightarrow> bqp_result_row_cap b \<le> v)
         \<and> (lim_require_warehouse limits \<longrightarrow> str_trim (bqp_warehouse b) \<noteq> [])
         \<and> (lim_allowed_warehouses limits \<noteq> [] \<longrightarrow>
              (\<exists>w \<in> set (lim_allowed_warehouses limits). eq_ignore_ascii_case w (bqp_warehouse b)))"
proof -
  have op: "classify_sql_operation sql \<noteq> Mutating \<longleftrightarrow> classify_sql_operation sql = Read" for sql
    by (cases "classify_sql_operation sql") auto
  from assms obtain warehouse where
    w: "pick_warehouse plan limits = Some warehouse"
    and c: "length (qpg_sql plan) \<le> lim_max_statement_bytes limits"
      "lim_mutation_policy limits = ReadOnly \<longrightarrow> classify_sql_operation (qpg_sql plan) = Read"
      "lim_allowed_warehouses limits \<noteq> [] \<longrightarrow>
         (\<exists>w \<in> set (lim_allowed_warehouses limits). eq_ignore_ascii_case w warehouse)"
    and b: "bqp_sql b = qpg_sql plan" "bqp_warehouse b = warehouse"
      "bqp_statement_timeout_seconds b =
         bounded (qpg_statement_timeout_seconds plan) (lim_statement_timeout_seconds limits)"
      "bqp_result_row_cap b = bounded (qpg_result_row_cap plan) (lim_max_result_rows limits)"
      "bqp_result_byte_cap b = bounded (qpg_result_byte_cap plan) (lim_max_result_bytes limits)"
    using op by (fastforce simp: enforce_query_safety_def list_ex_iff split: if_splits option.splits)
  from w have "lim_require_warehouse limits \<longrightarrow> str_trim warehouse \<noteq> []"
    by (auto simp: pick_warehouse_def split: option.splits if_splits)
  moreover have "\<forall>v. qpg_result_row_cap plan = Some v \<and> 0 < v \<longrightarrow>
      bounded (qpg_result_row_cap plan) (lim_max_result_rows limits) \<le> v"
    by (simp add: bounded_def)
  ultimately show ?thesis using c by (simp add: b bounded_le bounded_pos)
qed

definition sample_plan :: QueryPlanGuard where
  "sample_plan = (new_query_plan ''select 1'')\<lparr>qpg_warehouse := Some ''WH'', qpg_result_row_cap := Some 5\<rparr>"

definition sample_limits :: QuerySafetyLimits where
  "sample_limits =
     \<lparr>lim_max_statement_bytes = 20, lim_max_result_rows = 9, lim_max_result_bytes = 9,
      lim_statement_timeout_seconds = 9, lim_require_warehouse = True,
      lim_allowed_warehouses = [''wh''], lim_mutation_policy = ReadOnly\<rparr>"

theorem accepted_plan_is_bounded_witness:
  "\<exists>b. enforce_query_safety sample_plan sample_limits = Inr b \<and> bqp_result_row_cap b \<le> 5"
proof -
  have "\<not> isl (enforce_query_safety sample_plan sample_limits)" by code_simp
  then obtain b where b: "enforce_query_safety sample_plan sample_limits = Inr b"
    by (cases "enforce_query_safety sample_plan sample_limits") auto
  have "qpg_result_row_cap sample_plan = Some 5" by (simp add: sample_plan_def)
  with accepted_plan_is_bounded [OF b] have "bqp_result_row_cap b \<le> 5" by simp
  with b show ?thesis by blast
qed

text \<open>
  Rights fail closed: a label is below the most restrictive class only when it normalizes
  to one of the six known labels; an entitlement permits nothing from its expiry on; and what
  permits a class permits every less restrictive one.
\<close>

theorem rights_fail_closed:
  "(parse_fail_closed label < Restricted \<longleftrightarrow>
      normalize_label label \<in> set [''public'', ''internal'', ''organization'', ''org'', ''private'', ''confidential''])
   \<and> (permits e required now \<longleftrightarrow>
        required \<le> ent_max_rights_class e
        \<and> (case ent_expires_at_unix_seconds e of None \<Rightarrow> True | Some t \<Rightarrow> now < t))
   \<and> {c. permits e c now} = (if permits e Public now then {c. c \<le> ent_max_rights_class e} else {})"
proof -
  have "Public \<le> c" for c by (simp add: less_eq_RightsClass_def)
  then show ?thesis
    by (auto simp: parse_fail_closed_def Let_def permits_def active_at_def less_RightsClass_def
        split: option.splits)
qed

text \<open>
  The cost estimate never under-bills and never wraps: at least the billing minimum is
  billed; short of saturation the estimate is the rate times the billed seconds over an hour,
  rounded down; and it always fits the machine word.
\<close>

theorem cost_estimate_bounds:
  "let c = estimate_warehouse st pa by elapsed rate
   in cv_warehouse_billing_seconds c = max elapsed 60
      \<and> cv_warehouse_credits_estimate_micros c = min u64_max (rate * max elapsed 60) div 3600
      \<and> cv_warehouse_credits_estimate_micros c * 3600 \<le> rate * max elapsed 60
      \<and> cv_warehouse_credits_estimate_micros c \<le> u64_max
      \<and> cv_warehouse_credits_estimate_is_advisory c"
proof -
  have le: "min u64_max x div 3600 * 3600 \<le> x" for x :: nat
    using div_times_less_eq_dividend [of "min u64_max x" 3600] by linarith
  have "min u64_max x div 3600 \<le> u64_max" for x :: nat
    using div_le_dividend [of "min u64_max x" 3600] by linarith
  with le [of "rate * max elapsed 60"] show ?thesis
    by (simp add: estimate_warehouse_def Let_def sat_mul_def WAREHOUSE_BILLING_MINIMUM_SECONDS_def)
qed

text \<open>
  The query guard's classification does not fail closed on every mutation: it judges the
  first word alone, so a second statement is not seen, and verbs missing from the mutating list
  pass as reads.
\<close>

theorem classification_passes_mutations:
  "classify_sql_operation ''select 1; drop table t'' = Read
   \<and> classify_sql_operation ''comment on table t is ' ' '' = Read
   \<and> classify_sql_operation ''start transaction'' = Read"
  by code_simp

end
