(* ===== verification/Endpoint.thy ===== *)
theory Endpoint
  imports Utf8
begin

text \<open>
  Endpoint construction and validation, \<^verbatim>\<open>crates/franken-snowflake-core/src/endpoint.rs\<close>: which
  account handles become which host, and the fail-closed rule that the bearer token only goes
  to a Snowflake domain.

  \<^verbatim>\<open>s[..n]\<close> panics when \<open>n\<close> is not a character boundary, so every routine that slices returns
  an option, \<^term>\<open>None\<close> standing for the panic.

  Lemmas: an accepted endpoint is canonical and on a Snowflake domain, validation is
  idempotent, ASCII input never panics, and some other input does.
\<close>

definition SNOWFLAKE_HOST_SUFFIX :: string where
  "SNOWFLAKE_HOST_SUFFIX = ''.snowflakecomputing.com''"

definition SNOWFLAKE_CHINA_HOST_SUFFIX :: string where
  "SNOWFLAKE_CHINA_HOST_SUFFIX = ''.snowflakecomputing.cn''"

definition CHINA_REGION_ID :: string where
  "CHINA_REGION_ID = ''cn-northwest-1''"

definition snowflake_suffix :: "string \<Rightarrow> string option" where
  "snowflake_suffix host =
     List.find (\<lambda>suffix. ends_with host suffix \<and> length suffix < length host)
       [SNOWFLAKE_HOST_SUFFIX, SNOWFLAKE_CHINA_HOST_SUFFIX]"

text \<open>\<^verbatim>\<open>s[..prefix.len()]\<close> is evaluated whenever \<open>s\<close> is long enough.\<close>

definition strip_prefix_ignore_ascii_case :: "string \<Rightarrow> string \<Rightarrow> string option option" where
  "strip_prefix_ignore_ascii_case s prefix =
     (if length prefix \<le> length s then
        if is_char_boundary s (length prefix) then
          Some (if eq_ignore_ascii_case (take (length prefix) s) prefix
                then Some (drop (length prefix) s) else None)
        else None
      else Some None)"

definition trim_end_slashes :: "string \<Rightarrow> string" where
  "trim_end_slashes s = rev (dropWhile (\<lambda>c. c = CHR ''/'') (rev s))"

definition host_byte :: "char \<Rightarrow> bool" where
  "host_byte b \<longleftrightarrow> is_ascii_alphanumeric b \<or> b \<in> set ''.-_''"

text \<open>\<^verbatim>\<open>str::split\<close> on one byte.\<close>

fun split_on :: "char \<Rightarrow> string \<Rightarrow> string list" where
  "split_on d [] = [[]]"
| "split_on d (c # s) =
     (if c = d then [] # split_on d s
      else case split_on d s of [] \<Rightarrow> [[c]] | w # ws \<Rightarrow> (c # w) # ws)"

text \<open>
  \<^verbatim>\<open>parse::<IpAddr>\<close> on the bytes a bare host can have (no colon, so no IPv6 form): four decimal
  fields of one to three digits, no leading zero, at most 255.
\<close>

definition is_ip_literal :: "string \<Rightarrow> bool" where
  "is_ip_literal s =
     (let fields = split_on CHR ''.'' s
      in length fields = 4 \<and>
         list_all (\<lambda>f. f \<noteq> [] \<and> length f \<le> 3 \<and> list_all is_ascii_digit f
                       \<and> (length f = 1 \<or> hd f \<noteq> CHR ''0'') \<and> digits_val f \<le> 255) fields)"

definition endpoint_url :: "string \<Rightarrow> string option" where
  "endpoint_url account =
     (let trimmed = trim_end_slashes (str_trim account)
      in case strip_prefix_ignore_ascii_case trimmed ''http://'' of
           None \<Rightarrow> None
         | Some (Some _) \<Rightarrow> Some trimmed
         | Some None \<Rightarrow>
             (case strip_prefix_ignore_ascii_case trimmed ''https://'' of
                None \<Rightarrow> None
              | Some r \<Rightarrow>
                  let had_scheme = (r \<noteq> None);
                      rest = (case r of Some rest \<Rightarrow> trim_end_slashes rest | None \<Rightarrow> trimmed);
                      bare = (rest \<noteq> [] \<and> list_all host_byte rest)
                  in if \<not> bare then Some (''https://'' @ rest)
                     else
                       let lower = to_ascii_lowercase rest;
                           is_ip_or_loopback = (is_ip_literal lower \<or> lower = ''localhost'')
                       in if snowflake_suffix lower \<noteq> None \<or> had_scheme \<or> is_ip_or_loopback
                          then Some (''https://'' @ lower)
                          else if list_ex (\<lambda>label. label = CHINA_REGION_ID) (split_on CHR ''.'' lower)
                          then Some (''https://'' @ lower @ SNOWFLAKE_CHINA_HOST_SUFFIX)
                          else Some (''https://'' @ lower @ SNOWFLAKE_HOST_SUFFIX)))"

datatype EndpointError =
  EndpointEmpty | EndpointNotHttps | EndpointHasCredentials | EndpointHasPath
  | EndpointHostMissing | EndpointHostNotCanonical

definition is_canonical_host :: "string \<Rightarrow> bool" where
  "is_canonical_host host \<longleftrightarrow>
     list_all host_byte host \<and> contains_sub host ''.'' \<and> \<not> starts_with host ''.''
     \<and> \<not> ends_with host ''.'' \<and> \<not> contains_sub host ''..'' \<and> snowflake_suffix host \<noteq> None"

definition validate_endpoint :: "string \<Rightarrow> (EndpointError + string \<times> string) option" where
  "validate_endpoint raw =
     (let raw = str_trim raw
      in if raw = [] then Some (Inl EndpointEmpty)
         else case strip_prefix_ignore_ascii_case raw ''https://'' of
           None \<Rightarrow> None
         | Some None \<Rightarrow> Some (Inl EndpointNotHttps)
         | Some (Some rest) \<Rightarrow>
             if contains_sub rest ''@'' \<or> contains_sub raw ''#'' \<or> contains_sub raw ''?''
             then Some (Inl EndpointHasCredentials)
             else
               let trimmed = trim_end_slashes rest
               in if contains_sub trimmed ''/'' then Some (Inl EndpointHasPath)
                  else if trimmed = [] then Some (Inl EndpointHostMissing)
                  else
                    let host = to_ascii_lowercase trimmed
                    in if \<not> is_canonical_host host then Some (Inl EndpointHostNotCanonical)
                       else Some (Inr (''https://'' @ host, host)))"

definition validate_account :: "string \<Rightarrow> (EndpointError + string) option" where
  "validate_account account =
     (case endpoint_url account of
        None \<Rightarrow> None
      | Some url \<Rightarrow> map_option (map_sum id fst) (validate_endpoint url))"

section \<open>Scheme prefixes and trimming\<close>

lemma boundary_ascii: "list_all is_ascii s \<Longrightarrow> n \<le> length s \<Longrightarrow> is_char_boundary s n"
  by (auto simp: is_char_boundary_def list_all_length ascii_not_cont)

lemma strip_prefix_ascii:
  "list_all is_ascii s \<Longrightarrow> strip_prefix_ignore_ascii_case s p \<noteq> None"
  by (simp add: strip_prefix_ignore_ascii_case_def boundary_ascii)

lemma strip_https:
  assumes "list_all is_ascii host"
  shows "strip_prefix_ignore_ascii_case (''https://'' @ host) ''https://'' = Some (Some host)"
proof -
  have "is_char_boundary (''https://'' @ host) (length ''https://'')"
    using assms by (intro boundary_ascii) (auto simp: byte_class)
  then show ?thesis by (simp add: strip_prefix_ignore_ascii_case_def eq_ignore_ascii_case_def)
qed

lemma strip_http_of_https:
  assumes "list_all is_ascii host"
  shows "strip_prefix_ignore_ascii_case (''https://'' @ host) ''http://'' = Some None"
proof -
  have "is_char_boundary (''https://'' @ host) (length ''http://'')"
    using assms by (intro boundary_ascii) (auto simp: byte_class)
  moreover have "\<not> eq_ignore_ascii_case ''https:/'' ''http://''" by code_simp
  ultimately show ?thesis by (simp add: strip_prefix_ignore_ascii_case_def)
qed

lemma host_byte_ascii: "host_byte b \<Longrightarrow> is_ascii b"
  by (auto simp: host_byte_def byte_class)

lemma host_byte_plain: "host_byte b \<Longrightarrow> b \<noteq> CHR ''/'' \<and> \<not> ws1 b \<and> b \<noteq> CHR ''@'' \<and> b \<noteq> CHR '':''
    \<and> b \<noteq> CHR ''#'' \<and> b \<noteq> CHR ''?''"
  by (auto simp: host_byte_def byte_class ws1_def)

lemma canonical_host_bytes:
  assumes "is_canonical_host host"
  shows "list_all host_byte host" and "list_all is_ascii host" and "host \<noteq> []"
  using assms host_byte_ascii
  by (auto simp: is_canonical_host_def list_all_iff contains_sub_def snowflake_suffix_def find_Some_iff)

lemma trim_end_slashes_id: "s \<noteq> [] \<Longrightarrow> last s \<noteq> CHR ''/'' \<Longrightarrow> trim_end_slashes s = s"
  by (cases s rule: rev_cases) (auto simp: trim_end_slashes_def)

lemma to_ascii_lowercase_host:
  "list_all host_byte s \<Longrightarrow> list_all host_byte (to_ascii_lowercase s)"
  by (auto simp: to_ascii_lowercase_def list_all_iff host_byte_def byte_class code_of_to_lower to_lower_def)

lemma trimmed_url:
  assumes "list_all host_byte host" and "host \<noteq> []"
  shows "str_trim (''https://'' @ host) = ''https://'' @ host"
    and "trim_end_slashes (''https://'' @ host) = ''https://'' @ host"
    and "trim_end_slashes host = host"
proof -
  from assms have "host_byte (last host)" by (simp add: list_all_iff)
  then have l: "is_ascii (last host)" "\<not> ws1 (last host)" "last host \<noteq> CHR ''/''"
    using host_byte_ascii host_byte_plain by blast+
  with assms(2) show "str_trim (''https://'' @ host) = ''https://'' @ host"
    by (intro str_trim_ascii) (simp_all add: byte_class ws1_def)
  from l assms(2) show "trim_end_slashes (''https://'' @ host) = ''https://'' @ host"
    by (intro trim_end_slashes_id) simp_all
  from l assms(2) show "trim_end_slashes host = host" by (intro trim_end_slashes_id) simp_all
qed

lemma contains_single: "contains_sub s [c] \<longleftrightarrow> c \<in> set s"
  by (auto simp: contains_sub_iff in_set_conv_decomp)

lemma validate_endpoint_canonical:
  assumes "is_canonical_host host" and "to_ascii_lowercase host = host"
  shows "validate_endpoint (''https://'' @ host) = Some (Inr (''https://'' @ host, host))"
proof -
  note b = canonical_host_bytes [OF assms(1)]
  have no: "CHR ''@'' \<notin> set host" "CHR ''#'' \<notin> set host" "CHR ''?'' \<notin> set host" "CHR ''/'' \<notin> set host"
    using b(1) host_byte_plain by (auto simp: list_all_iff)
  show ?thesis
    unfolding validate_endpoint_def trimmed_url(1) [OF b(1,3)] Let_def strip_https [OF b(2)]
    by (simp add: contains_single no trimmed_url(3) [OF b(1,3)] assms b(3))
qed

lemma validate_endpoint_Inr:
  assumes "validate_endpoint raw = Some (Inr (base, host))"
  shows "base = ''https://'' @ host \<and> is_canonical_host host \<and> to_ascii_lowercase host = host"
  using assms by (auto simp: validate_endpoint_def Let_def split: if_splits option.splits)

lemma endpoint_url_canonical:
  assumes "is_canonical_host host" and "to_ascii_lowercase host = host"
  shows "endpoint_url (''https://'' @ host) = Some (''https://'' @ host)"
proof -
  note b = canonical_host_bytes [OF assms(1)]
  note t = trimmed_url [OF b(1,3)]
  have "snowflake_suffix host \<noteq> None" using assms(1) by (simp add: is_canonical_host_def)
  then show ?thesis
    unfolding endpoint_url_def t(1,2) Let_def strip_http_of_https [OF b(2)] strip_https [OF b(2)]
    by (simp add: t(3) b assms(2))
qed

lemma snowflake_suffix_Some:
  "snowflake_suffix host = Some suffix \<Longrightarrow>
     suffix \<in> {SNOWFLAKE_HOST_SUFFIX, SNOWFLAKE_CHINA_HOST_SUFFIX} \<and> (\<exists>p. p \<noteq> [] \<and> host = p @ suffix)"
  by (auto simp: snowflake_suffix_def ends_with_iff split: if_splits)

lemma list_all_str_trim:
  assumes "list_all P s"
  shows "list_all P (str_trim s)"
proof -
  have 1: "set (trim_start u) \<subseteq> set u" for u by (induction u rule: trim_start.induct) auto
  have 2: "set (trim_rev u) \<subseteq> set u" for u by (induction u rule: trim_rev.induct) auto
  have "set (str_trim s) \<subseteq> set s"
    using 2 [of "rev (trim_start s)"] 1 [of s] by (auto simp: str_trim_def trim_end_def)
  with assms show ?thesis by (auto simp: list_all_iff)
qed

lemma list_all_trim_end_slashes: "list_all P s \<Longrightarrow> list_all P (trim_end_slashes s)"
  by (auto simp: trim_end_slashes_def list_all_iff dest: set_dropWhileD)

section \<open>Properties of the endpoint rule\<close>

text \<open>
  C38. The bearer token only goes to Snowflake: an accepted endpoint is https, its host is the
  canonical lower-case form with no port, path, credentials, query or fragment in it, and it
  ends in one of the two Snowflake domains with a non-empty account before it. Validating it
  again gives the same answer.
\<close>

theorem accepted_endpoint_is_snowflake:
  assumes "validate_endpoint raw = Some (Inr (base, host))"
  shows "base = ''https://'' @ host \<and> list_all host_byte host
         \<and> set host \<inter> {CHR ''/'', CHR '':'', CHR ''@'', CHR ''?'', CHR ''#''} = {}
         \<and> (\<exists>account. account \<noteq> [] \<and>
              (host = account @ SNOWFLAKE_HOST_SUFFIX \<or> host = account @ SNOWFLAKE_CHINA_HOST_SUFFIX))
         \<and> validate_endpoint base = Some (Inr (base, host))"
proof -
  note v = validate_endpoint_Inr [OF assms]
  then have c: "is_canonical_host host" and low: "to_ascii_lowercase host = host" by auto
  note b = canonical_host_bytes [OF c]
  have "set host \<inter> {CHR ''/'', CHR '':'', CHR ''@'', CHR ''?'', CHR ''#''} = {}"
    using b(1) host_byte_plain by (auto simp: list_all_iff)
  moreover from c obtain suffix where "snowflake_suffix host = Some suffix"
    by (auto simp: is_canonical_host_def)
  from snowflake_suffix_Some [OF this] have "\<exists>account. account \<noteq> [] \<and>
      (host = account @ SNOWFLAKE_HOST_SUFFIX \<or> host = account @ SNOWFLAKE_CHINA_HOST_SUFFIX)"
    by blast
  ultimately show ?thesis using v b(1) validate_endpoint_canonical [OF c low] by blast
qed

theorem accepted_endpoint_is_snowflake_witness:
  "validate_endpoint ''https://xy1.snowflakecomputing.com'' =
     Some (Inr (''https://xy1.snowflakecomputing.com'', ''xy1.snowflakecomputing.com''))"
proof -
  have "validate_endpoint '' HTTPS://XY1.snowflakecomputing.com/'' =
      Some (Inr (''https://xy1.snowflakecomputing.com'', ''xy1.snowflakecomputing.com''))"
    by code_simp
  from accepted_endpoint_is_snowflake [OF this] show ?thesis by blast
qed

text \<open>
  Account handles and their URLs agree: the URL an account validates to is itself an
  account handle that validates to the same URL, so normalizing twice changes nothing.
\<close>

theorem validated_account_is_stable:
  assumes "validate_account account = Some (Inr base)"
  shows "endpoint_url base = Some base \<and> validate_account base = Some (Inr base)"
proof -
  from assms obtain url host where "endpoint_url account = Some url"
    "validate_endpoint url = Some (Inr (base, host))"
    by (auto simp: validate_account_def map_sum_Inr split: option.splits)
  from validate_endpoint_Inr [OF this(2)] have v: "base = ''https://'' @ host" "is_canonical_host host"
    "to_ascii_lowercase host = host" by auto
  from endpoint_url_canonical [OF v(2,3)] validate_endpoint_canonical [OF v(2,3)] v(1)
  show ?thesis by (simp add: validate_account_def)
qed

theorem validated_account_is_stable_witness:
  "validate_account ''https://xy1.cn-northwest-1.snowflakecomputing.cn'' =
     Some (Inr ''https://xy1.cn-northwest-1.snowflakecomputing.cn'')"
proof -
  have "validate_account ''XY1.cn-northwest-1'' =
      Some (Inr ''https://xy1.cn-northwest-1.snowflakecomputing.cn'')"
    by code_simp
  from validated_account_is_stable [OF this] show ?thesis by blast
qed

lemma endpoint_url_ascii:
  assumes a: "list_all is_ascii s"
  shows "\<exists>url. endpoint_url s = Some url \<and> list_all is_ascii url"
proof -
  let ?t = "trim_end_slashes (str_trim s)"
  have t: "list_all is_ascii ?t" using a list_all_str_trim list_all_trim_end_slashes by blast
  obtain r1 r2 where r: "strip_prefix_ignore_ascii_case ?t ''http://'' = Some r1"
    "strip_prefix_ignore_ascii_case ?t ''https://'' = Some r2"
    using strip_prefix_ascii [OF t] by fastforce
  have rest: "list_all is_ascii x" if "r2 = Some x" for x
    using r(2) that t set_drop_subset [of 8 ?t]
    by (auto simp: strip_prefix_ignore_ascii_case_def list_all_iff split: if_splits dest: in_set_dropD)
  have low: "list_all is_ascii x \<Longrightarrow> list_all is_ascii (to_ascii_lowercase x)" for x
    by (simp add: to_ascii_lowercase_def list.pred_map comp_def)
  have lits: "list_all is_ascii ''https://''" "list_all is_ascii SNOWFLAKE_HOST_SUFFIX"
    "list_all is_ascii SNOWFLAKE_CHINA_HOST_SUFFIX" by code_simp+
  show ?thesis
  proof (cases r1)
    case (Some x)
    with r t show ?thesis by (simp add: endpoint_url_def Let_def)
  next
    case None
    define rest where "rest = (case r2 of Some rest \<Rightarrow> trim_end_slashes rest | None \<Rightarrow> ?t)"
    have "list_all is_ascii rest"
      using \<open>\<And>x. r2 = Some x \<Longrightarrow> list_all is_ascii x\<close> list_all_trim_end_slashes t
      by (auto simp: rest_def split: option.splits)
    then have ok: "list_all is_ascii (''https://'' @ rest)"
      "list_all is_ascii (''https://'' @ to_ascii_lowercase rest)"
      "list_all is_ascii (''https://'' @ to_ascii_lowercase rest @ SNOWFLAKE_HOST_SUFFIX)"
      "list_all is_ascii (''https://'' @ to_ascii_lowercase rest @ SNOWFLAKE_CHINA_HOST_SUFFIX)"
      using low [of rest] lits unfolding list_all_append by blast+
    show ?thesis
      unfolding endpoint_url_def Let_def r None option.case rest_def [symmetric]
      using ok by (simp split: if_split del: append_Cons append_Nil)
  qed
qed

definition panicking_account :: string where
  "panicking_account = ''abcdef'' @ [CHR 0xC3, CHR 0xA9]"

text \<open>
  Validation never panics on an ASCII handle, and does on some others: the case-insensitive
  prefix test slices at the prefix length, so a handle with a two-byte character across byte 7
  aborts instead of being refused.
\<close>

theorem account_validation_panics_only_off_ascii:
  "(list_all is_ascii account \<longrightarrow> validate_account account \<noteq> None)
   \<and> valid_utf8 panicking_account \<and> validate_account panicking_account = None"
proof -
  have "validate_endpoint u \<noteq> None" if u: "list_all is_ascii u" for u
  proof -
    obtain r where "strip_prefix_ignore_ascii_case (str_trim u) ''https://'' = Some r"
      using strip_prefix_ascii [OF list_all_str_trim [OF u], of "''https://''"] by auto
    then show ?thesis by (simp add: validate_endpoint_def Let_def split: option.split)
  qed
  with endpoint_url_ascii have "list_all is_ascii account \<longrightarrow> validate_account account \<noteq> None"
    by (fastforce simp: validate_account_def)
  moreover have "valid_utf8 panicking_account" "validate_account panicking_account = None" by code_simp+
  ultimately show ?thesis by blast
qed

theorem account_validation_panics_only_off_ascii_witness:
  "validate_account ''10.0.0.5:443'' \<noteq> None"
proof -
  have "list_all is_ascii ''10.0.0.5:443''" by code_simp
  then show ?thesis using account_validation_panics_only_off_ascii [of "''10.0.0.5:443''"] by blast
qed

end
