(* ===== verification/Json.thy ===== *)
theory Json
  imports Main
begin

text \<open>
  \<^verbatim>\<open>serde_json::Value\<close>, as the cell decoders (\<open>Typed\<close>) and the predicates of the catalog (\<open>Predicates\<close>,
  \<open>Planner\<close>) take it apart. The type of numbers is a parameter: how the library stores and prints a
  number is not under the repository.
\<close>

datatype 'n JsonValue =
  JNull | JBool bool | Number 'n | JString string | JArray "'n JsonValue list"
  | JObject "(string \<times> 'n JsonValue) list"

end
