(* ===== verification/Typed.thy ===== *)
theory Typed
  imports Utf8 Json
begin

text \<open>
  Typed decoding of result cells, \<^verbatim>\<open>crates/franken-snowflake-core/src/typed.rs\<close>: the type family of
  a column, the one JSON representation its cells get, and the decoder of each
  representation, with the calendar arithmetic of dates and timestamps.

  \<^verbatim>\<open>serde_json\<close> and the float type are outside the source: a record of their operations is the
  argument of the routines that use them, and a JSON number and a float are type parameters.
  Signed 64 and 128 bit integers are \<^typ>\<open>int\<close> with the checked operations of the source written
  out; the one unchecked addition that can overflow is an outer option, \<^term>\<open>None\<close> standing
  for the overflow (a panic in a checked build, a wrapped value in a release build).

  Lemmas: the date arithmetic inverts the Gregorian day count, printed instants read back, every
  cell has the shape its column announces, and where the addition overflows.
\<close>

section \<open>Type families and representations\<close>

datatype LogicalType =
  Fixed | Real | Decfloat | LText | LBinary | Boolean | LDate | LTime | LTimestampNtz
  | TimestampLtz | TimestampTz | Variant | Object | Array | Other

fun split_first :: "(char \<Rightarrow> bool) \<Rightarrow> string \<Rightarrow> (string \<times> string) option" where
  "split_first p [] = None"
| "split_first p (c # s) =
     (if p c then Some ([], s) else map_option (\<lambda>(a, b). (c # a, b)) (split_first p s))"

definition from_row_type :: "string \<Rightarrow> LogicalType" where
  "from_row_type type_name =
     (let base = to_ascii_lowercase (str_trim (takeWhile (\<lambda>c. c \<noteq> CHR ''('') type_name))
      in if base \<in> {''fixed'', ''number'', ''decimal'', ''numeric'', ''int'', ''integer'', ''bigint'',
                    ''smallint'', ''tinyint'', ''byteint''} then Fixed
         else if base \<in> {''real'', ''float'', ''float4'', ''float8'', ''double'', ''double precision''} then Real
         else if base = ''decfloat'' then Decfloat
         else if base \<in> {''text'', ''varchar'', ''string'', ''char'', ''character''} then LText
         else if base \<in> {''binary'', ''varbinary''} then LBinary
         else if base = ''boolean'' then Boolean
         else if base = ''date'' then LDate
         else if base = ''time'' then LTime
         else if base \<in> {''timestamp_ntz'', ''datetime''} then LTimestampNtz
         else if base = ''timestamp_ltz'' then TimestampLtz
         else if base = ''timestamp_tz'' then TimestampTz
         else if base = ''variant'' then Variant
         else if base = ''object'' then Object
         else if base = ''array'' then Array
         else Other)"

datatype JsonRepr =
  Integer | DecimalString | Float | Bool | JsonRepr_String | Hex | Date | Time | TimestampNtz
  | TimestampUtc | TimestampOffset | Json | Wire

definition json_repr_as_str :: "JsonRepr \<Rightarrow> string" where
  "json_repr_as_str r =
     (case r of Integer \<Rightarrow> ''integer'' | DecimalString \<Rightarrow> ''decimal_string'' | Float \<Rightarrow> ''float''
      | Bool \<Rightarrow> ''bool'' | JsonRepr_String \<Rightarrow> ''string'' | Hex \<Rightarrow> ''hex'' | Date \<Rightarrow> ''date'' | Time \<Rightarrow> ''time''
      | TimestampNtz \<Rightarrow> ''timestamp_ntz'' | TimestampUtc \<Rightarrow> ''timestamp_utc''
      | TimestampOffset \<Rightarrow> ''timestamp_offset'' | Json \<Rightarrow> ''json'' | Wire \<Rightarrow> ''wire'')"

record ColumnCodec =
  logical :: LogicalType
  precision :: "int option"
  scale :: "int option"

definition MAX_EXACT_INTEGER_PRECISION :: int where "MAX_EXACT_INTEGER_PRECISION = 15"
definition NANOS_PER_SECOND :: int where "NANOS_PER_SECOND = 1000000000"
definition SECONDS_PER_DAY :: int where "SECONDS_PER_DAY = 86400"

definition column_codec :: "string \<Rightarrow> int option \<Rightarrow> int option \<Rightarrow> ColumnCodec" where
  "column_codec type_name p s = \<lparr>logical = from_row_type type_name, precision = p, scale = s\<rparr>"

definition json_repr :: "ColumnCodec \<Rightarrow> JsonRepr" where
  "json_repr self =
     (case logical self of
        Fixed \<Rightarrow>
          if (case scale self of None \<Rightarrow> 0 | Some s \<Rightarrow> s) = 0
             \<and> (case precision self of None \<Rightarrow> False | Some p \<Rightarrow> p \<le> MAX_EXACT_INTEGER_PRECISION)
          then Integer else DecimalString
      | Decfloat \<Rightarrow> DecimalString
      | Real \<Rightarrow> Float
      | Boolean \<Rightarrow> Bool
      | LText \<Rightarrow> JsonRepr_String
      | LBinary \<Rightarrow> Hex
      | LDate \<Rightarrow> Date
      | LTime \<Rightarrow> Time
      | LTimestampNtz \<Rightarrow> TimestampNtz
      | TimestampLtz \<Rightarrow> TimestampUtc
      | TimestampTz \<Rightarrow> TimestampOffset
      | Variant \<Rightarrow> Json | Object \<Rightarrow> Json | Array \<Rightarrow> Json
      | Other \<Rightarrow> Wire)"

section \<open>The operations of \<^verbatim>\<open>serde_json\<close>\<close>

record ('n, 'f) Serde =
  from_str :: "string \<Rightarrow> 'n JsonValue option"
  number_to_string :: "'n \<Rightarrow> string"
  as_i64 :: "'n \<Rightarrow> int option"
  as_f64 :: "'n \<Rightarrow> 'f option"
  from_f64 :: "'f \<Rightarrow> 'n option"
  from_i64 :: "int \<Rightarrow> 'n"
  parse_f64 :: "string \<Rightarrow> 'f option"
  is_finite :: "'f \<Rightarrow> bool"

type_synonym TypedCellError = string

definition canonical_number :: "('n, 'f) Serde \<Rightarrow> 'n \<Rightarrow> 'n JsonValue" where
  "canonical_number S number =
     (let text = number_to_string S number;
          integer = list_all (\<lambda>b. is_ascii_digit b \<or> b = CHR ''-'') text;
          as_float = (case Option.bind (as_f64 S number) (from_f64 S) of
                        Some float \<Rightarrow> Number float | None \<Rightarrow> Number number)
      in if integer
         then (case as_i64 S number of Some value \<Rightarrow> Number (from_i64 S value) | None \<Rightarrow> as_float)
         else as_float)"

primrec canonical_numbers :: "('n, 'f) Serde \<Rightarrow> 'n JsonValue \<Rightarrow> 'n JsonValue" where
  "canonical_numbers S JNull = JNull"
| "canonical_numbers S (JBool b) = JBool b"
| "canonical_numbers S (Number n) = canonical_number S n"
| "canonical_numbers S (JString s) = JString s"
| "canonical_numbers S (JArray items) = JArray (map (canonical_numbers S) items)"
| "canonical_numbers S (JObject entries) = JObject (map (map_prod id (canonical_numbers S)) entries)"

section \<open>Number text\<close>

abbreviation is_exp :: "char \<Rightarrow> bool" where
  "is_exp c \<equiv> c = CHR ''e'' \<or> c = CHR ''E''"

definition parse_i64 :: "string \<Rightarrow> int option" where
  "parse_i64 s = parse_int i64_min i64_max s"

definition parse_i128 :: "string \<Rightarrow> int option" where
  "parse_i128 s = parse_int i128_min i128_max s"

definition number_is_exact :: "('n, 'f) Serde \<Rightarrow> string \<Rightarrow> bool" where
  "number_is_exact S token =
     (if list_all (\<lambda>b. is_ascii_digit b \<or> b = CHR ''-'') token then parse_i64 token \<noteq> None
      else
        let mantissa = takeWhile (\<lambda>c. \<not> is_exp c) token;
            significant = length (dropWhile (\<lambda>d. d = CHR ''0'') (filter is_ascii_digit mantissa))
        in significant \<le> 15
           \<and> (case parse_f64 S token of None \<Rightarrow> False | Some f \<Rightarrow> is_finite S f))"

abbreviation number_byte :: "char \<Rightarrow> bool" where
  "number_byte c \<equiv> is_ascii_digit c \<or> c \<in> set ''-+.eE''"

text \<open>The scan over a JSON text from one byte on, inside or outside a string.\<close>

function json_scan :: "('n, 'f) Serde \<Rightarrow> bool \<Rightarrow> string \<Rightarrow> bool" where
  "json_scan S in_string [] = True"
| "json_scan S in_string (byte # r) =
     (if in_string then
        if byte = CHR 0x5C then json_scan S True (drop 1 r)
        else if byte = CHR 0x22 then json_scan S False r
        else json_scan S True r
      else if byte = CHR 0x22 then json_scan S True r
      else if byte = CHR ''-'' \<or> is_ascii_digit byte then
        number_is_exact S (takeWhile number_byte (byte # r))
        \<and> json_scan S False (dropWhile number_byte (byte # r))
      else json_scan S False r)"
  by pat_completeness auto
termination
proof (relation "measure (\<lambda>(S, b, s). length s)", goal_cases)
  case (6 S in_string byte r)
  then show ?case using length_dropWhile_le [of number_byte r] by auto
qed auto

definition json_numbers_are_exact :: "('n, 'f) Serde \<Rightarrow> string \<Rightarrow> bool" where
  "json_numbers_are_exact S text = json_scan S False text"

definition digits :: "string \<Rightarrow> bool" where
  "digits part \<longleftrightarrow> part \<noteq> [] \<and> list_all is_ascii_digit part"

definition strip_sign :: "string \<Rightarrow> string" where
  "strip_sign s = (case s of c # r \<Rightarrow> if c = CHR ''-'' \<or> c = CHR ''+'' then r else s | [] \<Rightarrow> [])"

definition is_decimal :: "string \<Rightarrow> bool \<Rightarrow> bool" where
  "is_decimal text allow_exponent =
     (let unsigned = strip_sign text;
          (mantissa, exponent) = (case split_first is_exp unsigned of
                                    Some (m, e) \<Rightarrow> (m, Some e) | None \<Rightarrow> (unsigned, None));
          mantissa_ok = (case split_first (\<lambda>c. c = CHR ''.'') mantissa of
                           Some (whole, fraction) \<Rightarrow> digits whole \<and> digits fraction
                         | None \<Rightarrow> digits mantissa);
          exponent_ok = (case exponent of None \<Rightarrow> True
                         | Some e \<Rightarrow> allow_exponent \<and> digits (strip_sign e))
      in mantissa_ok \<and> exponent_ok)"

definition decode_float :: "('n, 'f) Serde \<Rightarrow> string \<Rightarrow> TypedCellError + 'n JsonValue" where
  "decode_float S wire =
     (let w = to_ascii_lowercase wire
      in if w = ''nan'' then Inr (JString ''NaN'')
         else if w \<in> {''inf'', ''+inf'', ''infinity''} then Inr (JString ''Infinity'')
         else if w \<in> {''-inf'', ''-infinity''} then Inr (JString ''-Infinity'')
         else case parse_f64 S wire of
           None \<Rightarrow> Inl ''not a float''
         | Some value \<Rightarrow>
             (case from_f64 S value of
                Some n \<Rightarrow> Inr (Number n)
              | None \<Rightarrow> Inl ''not a finite float''))"

section \<open>Dates and times\<close>

text \<open>\<^verbatim>\<open>parse_epoch_nanos\<close>: the sign, the two parts, the checked arithmetic of \<^verbatim>\<open>i128\<close>.\<close>

primrec fraction_nanos :: "nat \<Rightarrow> string \<Rightarrow> int" where
  "fraction_nanos index [] = 0"
| "fraction_nanos index (byte # r) =
     int (digit_val byte) * 10 ^ (8 - index) + fraction_nanos (Suc index) r"

definition parse_epoch_nanos :: "string \<Rightarrow> TypedCellError + int" where
  "parse_epoch_nanos text =
     (let bad = ''not fractional seconds'';
          (negative, unsigned) = (case text of
             c # r \<Rightarrow> if c = CHR ''-'' then (True, r) else (False, text) | [] \<Rightarrow> (False, text));
          (whole, fraction) = (case split_first (\<lambda>c. c = CHR ''.'') unsigned of
                                 Some p \<Rightarrow> p | None \<Rightarrow> (unsigned, []))
      in if whole = [] \<or> \<not> list_all is_ascii_digit whole \<or> length fraction > 9
            \<or> \<not> list_all is_ascii_digit fraction then Inl bad
         else case parse_i128 whole of
           None \<Rightarrow> Inl bad
         | Some seconds \<Rightarrow>
             let nanos = fraction_nanos 0 fraction
             in if seconds * NANOS_PER_SECOND > i128_max
                   \<or> seconds * NANOS_PER_SECOND + nanos > i128_max then Inl bad
                else let total = seconds * NANOS_PER_SECOND + nanos
                     in Inr (if negative then - total else total))"

text \<open>Howard Hinnant's \<^verbatim>\<open>civil_from_days\<close>: year, month, day.\<close>

definition civil_from_days :: "int \<Rightarrow> int \<times> int \<times> int" where
  "civil_from_days days =
     (let z = days + 719468;
          era = z div 146097;
          doe = z mod 146097;
          yoe = (doe - doe div 1460 + doe div 36524 - doe div 146096) div 365;
          doy = doe - (365 * yoe + yoe div 4 - yoe div 100);
          mp = (5 * doy + 2) div 153;
          day = doy - (153 * mp + 2) div 5 + 1;
          month = (if mp < 10 then mp + 3 else mp - 9);
          year = yoe + era * 400 + (if month \<le> 2 then 1 else 0)
      in (year, month, day))"

text \<open>\<^verbatim>\<open>{:0w}\<close> on a number that is not negative.\<close>

definition zero_padded :: "nat \<Rightarrow> int \<Rightarrow> string" where
  "zero_padded w i = pad0 w (nat_str (nat i))"

definition format_date :: "int \<Rightarrow> string" where
  "format_date days =
     (let (year, month, day) = civil_from_days days
      in (if year < 0 then ''-'' @ zero_padded 4 (- year) else zero_padded 4 year)
         @ ''-'' @ zero_padded 2 month @ ''-'' @ zero_padded 2 day)"

definition format_time_of_day :: "int \<Rightarrow> string" where
  "format_time_of_day nanos =
     (let seconds = nanos div NANOS_PER_SECOND;
          fraction = nanos mod NANOS_PER_SECOND
      in zero_padded 2 (seconds div 3600) @ '':'' @ zero_padded 2 ((seconds div 60) mod 60) @ '':''
         @ zero_padded 2 (seconds mod 60) @ ''.'' @ zero_padded 9 fraction)"

definition format_timestamp :: "int \<Rightarrow> string" where
  "format_timestamp nanos =
     (let day_nanos = SECONDS_PER_DAY * NANOS_PER_SECOND
      in format_date (nanos div day_nanos) @ ''T'' @ format_time_of_day (nanos mod day_nanos))"

text \<open>
  The addition of the offset is not checked in the source: \<^term>\<open>None\<close> when it leaves the range
  of \<^verbatim>\<open>i128\<close>.
\<close>

definition decode_timestamp_tz :: "string \<Rightarrow> (TypedCellError + 'n JsonValue) option" where
  "decode_timestamp_tz wire =
     (case split_first (\<lambda>c. c = CHR '' '') wire of
        None \<Rightarrow> Some (Inl ''TIMESTAMP_TZ without an offset'')
      | Some (instant, offset) \<Rightarrow>
          (case parse_i128 (str_trim offset) of
             None \<Rightarrow> Some (Inl ''not an offset'')
           | Some raw_offset \<Rightarrow>
               if \<not> (0 \<le> raw_offset \<and> raw_offset \<le> 2880) then Some (Inl ''offset out of range'')
               else
                 let offset_minutes = raw_offset - 1440
                 in case parse_epoch_nanos instant of
                      Inl e \<Rightarrow> Some (Inl e)
                    | Inr n \<Rightarrow>
                        let local_nanos = n + offset_minutes * 60 * NANOS_PER_SECOND;
                            sign = (if offset_minutes < 0 then ''-'' else ''+'');
                            magnitude = \<bar>offset_minutes\<bar>
                        in if local_nanos < i128_min \<or> local_nanos > i128_max then None
                           else Some (Inr (JString (format_timestamp local_nanos @ sign
                                  @ zero_padded 2 (magnitude div 60) @ '':''
                                  @ zero_padded 2 (magnitude mod 60))))))"

section \<open>One cell\<close>

definition decode :: "('n, 'f) Serde \<Rightarrow> ColumnCodec \<Rightarrow> string option
    \<Rightarrow> (TypedCellError + 'n JsonValue) option" where
  "decode S self wire_cell =
     (case wire_cell of
        None \<Rightarrow> Some (Inr JNull)
      | Some wire \<Rightarrow>
          (case json_repr self of
             Integer \<Rightarrow> Some (case parse_i64 wire of
                 Some v \<Rightarrow> Inr (Number (from_i64 S v)) | None \<Rightarrow> Inl ''not an integer'')
           | DecimalString \<Rightarrow> Some
                 (if is_decimal wire (logical self = Decfloat) then Inr (JString wire)
                  else Inl ''not a decimal'')
           | Float \<Rightarrow> Some (decode_float S wire)
           | Bool \<Rightarrow> Some
                 (let w = to_ascii_lowercase wire
                  in if w \<in> {''true'', ''1''} then Inr (JBool True)
                     else if w \<in> {''false'', ''0''} then Inr (JBool False)
                     else Inl ''not a boolean'')
           | JsonRepr_String \<Rightarrow> Some (Inr (JString wire))
           | Wire \<Rightarrow> Some (Inr (JString wire))
           | Hex \<Rightarrow> Some
                 (if even (length wire) \<and> list_all is_ascii_hexdigit wire then Inr (JString wire)
                  else Inl ''not hex'')
           | Date \<Rightarrow> Some (case parse_i64 wire of
                 None \<Rightarrow> Inl ''not a day count''
               | Some days \<Rightarrow> Inr (JString (format_date days)))
           | Time \<Rightarrow> Some (case parse_epoch_nanos wire of
                 Inl e \<Rightarrow> Inl e
               | Inr nanos \<Rightarrow>
                   if \<not> (0 \<le> nanos \<and> nanos < SECONDS_PER_DAY * NANOS_PER_SECOND)
                   then Inl ''time of day out of range''
                   else Inr (JString (format_time_of_day nanos)))
           | TimestampNtz \<Rightarrow> Some (case parse_epoch_nanos wire of
                 Inl e \<Rightarrow> Inl e | Inr nanos \<Rightarrow> Inr (JString (format_timestamp nanos)))
           | TimestampUtc \<Rightarrow> Some (case parse_epoch_nanos wire of
                 Inl e \<Rightarrow> Inl e | Inr nanos \<Rightarrow> Inr (JString (format_timestamp nanos @ ''Z'')))
           | TimestampOffset \<Rightarrow> decode_timestamp_tz wire
           | Json \<Rightarrow> Some
                 (if \<not> json_numbers_are_exact S wire
                  then Inl ''holds a number a JSON number cannot carry exactly''
                  else case from_str S wire of
                         Some v \<Rightarrow> Inr (canonical_numbers S v)
                       | None \<Rightarrow> Inl ''not JSON'')))"


section \<open>The calendar\<close>

text \<open>The proleptic Gregorian calendar, counted from its rules.\<close>

definition leap_year :: "int \<Rightarrow> bool" where
  "leap_year y \<longleftrightarrow> 4 dvd y \<and> (\<not> 100 dvd y \<or> 400 dvd y)"

definition month_length :: "int \<Rightarrow> int \<Rightarrow> int" where
  "month_length y m = (if m = 2 then if leap_year y then 29 else 28
                       else if m \<in> {4, 6, 9, 11} then 30 else 31)"

definition valid_date :: "int \<times> int \<times> int \<Rightarrow> bool" where
  "valid_date = (\<lambda>(y, m, d). 1 \<le> m \<and> m \<le> 12 \<and> 1 \<le> d \<and> d \<le> month_length y m)"

text \<open>Days from 0001-01-01 to the first day of year \<open>y\<close>, and from there to the first of month \<open>m\<close>.\<close>

definition days_before_year :: "int \<Rightarrow> int" where
  "days_before_year y = 365 * (y - 1) + (y - 1) div 4 - (y - 1) div 100 + (y - 1) div 400"

definition days_before_month :: "int \<Rightarrow> int \<Rightarrow> int" where
  "days_before_month y m = sum_list (map (month_length y) [1..m - 1])"

definition day_count :: "int \<times> int \<times> int \<Rightarrow> int" where
  "day_count = (\<lambda>(y, m, d). days_before_year y + days_before_month y m + d - 1)"

definition year_start :: "int \<Rightarrow> int" where
  "year_start y = 365 * y + y div 4 - y div 100 + y div 400"

abbreviation yoe_num :: "int \<Rightarrow> int" where
  "yoe_num n \<equiv> n - n div 1460 + n div 36524 - n div 146096"

lemma div_step:
  fixes n c :: int
  assumes "0 < c"
  shows "(n + 1) div c = n div c \<or> (n + 1) div c = n div c + 1"
proof -
  have "n div c \<le> (n + 1) div c" "(n + 1) div c \<le> (n + c) div c"
    using assms by (auto intro: zdiv_mono1)
  moreover have "(n + c) div c = n div c + 1" using assms by (intro div_add_self2) simp
  ultimately show ?thesis by linarith
qed

lemma div_step_le:
  fixes n c :: int
  assumes "0 < c"
  shows "n div c \<le> (n + 1) div c" "(n + 1) div c \<le> n div c + 1"
  using div_step [OF assms, of n] by linarith+

lemma yoe_num_mono: "m \<le> n \<Longrightarrow> yoe_num m \<le> yoe_num n"
proof (induction n rule: int_ge_induct)
  case (step n)
  define q where "q = n div 36524"
  define q' where "q' = (n + 1) div 36524"
  have "k div 146096 = k div 36524 div 4" for k :: int
    using zdiv_zmult2_eq [of 4 k 36524] by simp
  then have e: "n div 146096 = q div 4" "(n + 1) div 146096 = q' div 4" by (simp_all add: q_def q'_def)
  have "q' = q \<or> q' = q + 1" unfolding q_def q'_def by (rule div_step) simp
  then have "q - q div 4 \<le> q' - q' div 4"
    using div_step_le(2) [of 4 q] by (elim disjE) simp_all
  moreover have "(n + 1) div 1460 \<le> n div 1460 + 1" by (rule div_step_le) simp
  ultimately show ?case using step.IH unfolding e q_def [symmetric] q'_def [symmetric] by linarith
qed (rule order_refl)

lemma year_sum_step:
  fixes a a' b b' c c' n s :: int
  assumes "a \<le> a'" "b' \<le> b + 1" "c \<le> c'" "s \<le> 365 * n + a - b + c"
  shows "s \<le> 365 * (n + 1) + a' - b' + c'"
  using assms by (simp add: distrib_left)

lemma year_start_mono: "m \<le> n \<Longrightarrow> year_start m \<le> year_start n"
proof (induction n rule: int_ge_induct)
  case (step n)
  have "n div 4 \<le> (n + 1) div 4" "(n + 1) div 100 \<le> n div 100 + 1" "n div 400 \<le> (n + 1) div 400"
    by (rule div_step_le; simp)+
  from year_sum_step [OF this] step.IH show ?case unfolding year_start_def .
qed (rule order_refl)

lemma year_of_era_table:
  "list_all (\<lambda>y. yoe_num (year_start y) div 365 = y
     \<and> yoe_num (min 146096 (year_start (y + 1) - 1)) div 365 = y) [0..399]"
  by code_simp

lemma year_of_era:
  assumes "0 \<le> doe" and "doe < 146097"
  defines "y \<equiv> yoe_num doe div 365"
  shows "0 \<le> y" "y \<le> 399" "year_start y \<le> doe" "doe < year_start (y + 1)"
proof -
  have "\<exists>y. 0 \<le> y \<and> y \<le> 399 \<and> year_start y \<le> doe \<and> doe < year_start (y + 1)"
  proof -
    have "\<exists>k. year_start (int k) \<le> doe \<and> doe < year_start (int k + 1)"
    proof (rule ccontr)
      assume no: "\<nexists>k. year_start (int k) \<le> doe \<and> doe < year_start (int k + 1)"
      have "year_start (int k) \<le> doe" for k
      proof (induction k)
        case 0
        then show ?case using assms(1) by (simp add: year_start_def)
      next
        case (Suc k)
        with no show ?case by (auto simp: add.commute not_less)
      qed
      from this [of 400] assms(2) show False by (simp add: year_start_def)
    qed
    then obtain k where k: "year_start (int k) \<le> doe" "doe < year_start (int k + 1)" by blast
    have "int k \<le> 399"
    proof (rule ccontr)
      assume "\<not> int k \<le> 399"
      then have "year_start 400 \<le> year_start (int k)" by (intro year_start_mono) simp
      with k(1) assms(2) show False by (simp add: year_start_def)
    qed
    with k show ?thesis by (intro exI [of _ "int k"]) simp
  qed
  then obtain z where z: "0 \<le> z" "z \<le> 399" "year_start z \<le> doe" "doe < year_start (z + 1)" by blast
  have "z \<in> set [0..399]" using z by simp
  with year_of_era_table have t: "yoe_num (year_start z) div 365 = z"
    "yoe_num (min 146096 (year_start (z + 1) - 1)) div 365 = z"
    unfolding list_all_iff by (blast dest: bspec)+
  have "yoe_num (year_start z) div 365 \<le> y"
    unfolding y_def using z(3) by (intro zdiv_mono1 yoe_num_mono) simp_all
  moreover have "y \<le> yoe_num (min 146096 (year_start (z + 1) - 1)) div 365"
    unfolding y_def using z(4) assms(2) by (intro zdiv_mono1 yoe_num_mono) simp_all
  ultimately have "y = z" unfolding t by (rule order_antisym [rotated])
  with z show "0 \<le> y" "y \<le> 399" "year_start y \<le> doe" "doe < year_start (y + 1)" by simp_all
qed


lemma leap_year_shift: "leap_year (y + 400 * e) = leap_year y"
proof -
  have "c dvd y + 400 * e \<longleftrightarrow> c dvd y" if "c dvd 400" for c :: int
    using that by (simp add: dvd_add_left_iff)
  then show ?thesis by (simp add: leap_year_def)
qed

lemma div_step_dvd:
  fixes n c :: int
  assumes "0 < c"
  shows "(n + 1) div c = n div c + (if c dvd n + 1 then 1 else 0)"
proof (cases "c dvd n + 1")
  case True
  then obtain k where k: "n + 1 = c * k" by blast
  then have "n = c * (k - 1) + (c - 1)" by (simp add: algebra_simps)
  moreover have "(c * (k - 1) + (c - 1)) div c = k - 1" using assms by (subst div_mult_self4) simp_all
  ultimately have "n div c = k - 1" by simp
  with True k assms show ?thesis by simp
next
  case False
  then have "(n + 1) mod c \<noteq> 0" by (simp add: dvd_eq_mod_eq_0)
  moreover have "0 \<le> (n + 1) mod c" "(n + 1) mod c < c" using assms by simp_all
  ultimately have r: "0 \<le> (n + 1) mod c - 1" "(n + 1) mod c - 1 < c" by linarith+
  have "n = c * ((n + 1) div c) + ((n + 1) mod c - 1)" using mult_div_mod_eq [of c "n + 1"] by linarith
  then have "n div c = (c * ((n + 1) div c) + ((n + 1) mod c - 1)) div c" by simp
  also have "\<dots> = (n + 1) div c" using r assms by (subst div_mult_self4) simp_all
  finally show ?thesis using False by simp
qed

lemma leap_sum:
  fixes a b c y :: int
  assumes "P400 \<Longrightarrow> P100" and "P100 \<Longrightarrow> P4"
  shows "365 * (y + 1) + (a + (if P4 then 1 else 0)) - (b + (if P100 then 1 else 0)) + (c + (if P400 then 1 else 0))
    = 365 * y + a - b + c + 365 + (if P4 \<and> (\<not> P100 \<or> P400) then 1 else 0)"
  using assms by auto

lemma year_start_Suc: "year_start (y + 1) = year_start y + 365 + (if leap_year (y + 1) then 1 else 0)"
proof -
  have d: "400 dvd y + 1 \<Longrightarrow> 100 dvd y + 1" "100 dvd y + 1 \<Longrightarrow> 4 dvd y + 1"
    by (rule dvd_trans [of 100 400] dvd_trans [of 4 100]; simp)+
  have e: "(y + 1) div 4 = y div 4 + (if 4 dvd y + 1 then 1 else 0)"
    "(y + 1) div 100 = y div 100 + (if 100 dvd y + 1 then 1 else 0)"
    "(y + 1) div 400 = y div 400 + (if 400 dvd y + 1 then 1 else 0)"
    by (rule div_step_dvd; simp)+
  show ?thesis unfolding year_start_def leap_year_def e by (rule leap_sum) (fact d)+
qed

lemma year_start_shift: "year_start (y + 400 * e) = year_start y + 146097 * e"
proof -
  have "(y + 400 * e) div c = y div c + (400 div c) * e" if "c dvd 400" "c \<noteq> 0" for c :: int
  proof -
    from that(1) obtain k where k: "400 = c * k" by (rule dvdE)
    have "(y + c * (k * e)) div c = y div c + k * e" using that(2) by simp
    moreover have "400 div c = k" unfolding k using that(2) by simp
    moreover have "400 * e = c * (k * e)" unfolding k by simp
    ultimately show ?thesis by (simp only:)
  qed
  from this [of 4] this [of 100] this [of 400] show ?thesis by (simp add: year_start_def algebra_simps)
qed

lemma month_table:
  "list_all (\<lambda>doy. let mp = (5 * doy + 2) div 153; day = doy - (153 * mp + 2) div 5 + 1;
       month = (if mp < 10 then mp + 3 else mp - 9)
     in 1 \<le> month \<and> month \<le> 12 \<and> 1 \<le> day
        \<and> day \<le> (if month = 2 then if doy = 365 then 29 else 28 else if month \<in> {4, 6, 9, 11} then 30 else 31)
        \<and> doy + 1 = day + (if month = 1 then 306 else if month = 2 then 337
             else [0, 31, 61, 92, 122, 153, 184, 214, 245, 275] ! nat (month - 3))) [0..365 :: int]"
  by code_simp

lemma days_before_month_table:
  assumes "1 \<le> m" and "m \<le> 12"
  shows "days_before_month y m =
    (if m = 1 then 0 else if m = 2 then 31
     else 59 + (if leap_year y then 1 else 0) + [0, 31, 61, 92, 122, 153, 184, 214, 245, 275] ! nat (m - 3))"
proof -
  have "m = 1 \<or> m = 2 \<or> m = 3 \<or> m = 4 \<or> m = 5 \<or> m = 6 \<or> m = 7 \<or> m = 8 \<or> m = 9 \<or> m = 10 \<or> m = 11 \<or> m = 12"
    using assms by presburger
  then show ?thesis
    by (elim disjE; simp add: days_before_month_def month_length_def upto_rec1)
qed


lemma civil_from_days_parts:
  fixes days :: int
  defines "era \<equiv> (days + 719468) div 146097" and "doe \<equiv> (days + 719468) mod 146097"
  defines "yoe \<equiv> yoe_num doe div 365"
  defines "doy \<equiv> doe - year_start yoe"
  defines "mp \<equiv> (5 * doy + 2) div 153"
  defines "month \<equiv> (if mp < 10 then mp + 3 else mp - 9)"
  shows "civil_from_days days =
      (yoe + era * 400 + (if month \<le> 2 then 1 else 0), month, doy - (153 * mp + 2) div 5 + 1)"
    and "days + 719468 = 146097 * era + doe"
    and "0 \<le> yoe" and "yoe \<le> 399" and "0 \<le> doy" and "doy \<le> 364 + (if leap_year (yoe + 1) then 1 else 0)"
proof -
  have b: "0 \<le> doe" "doe < 146097" unfolding doe_def by simp_all
  note y = year_of_era [OF b, folded yoe_def]
  have "yoe div 400 = 0" using y(1,2) by (intro div_pos_pos_trivial) simp_all
  then have d: "doe - (365 * yoe + yoe div 4 - yoe div 100) = doy"
    unfolding doy_def year_start_def by simp
  show "civil_from_days days =
      (yoe + era * 400 + (if month \<le> 2 then 1 else 0), month, doy - (153 * mp + 2) div 5 + 1)"
    unfolding civil_from_days_def Let_def era_def [symmetric] doe_def [symmetric] yoe_def [symmetric] d
      mp_def [symmetric] month_def [symmetric] by (rule refl)
  show "days + 719468 = 146097 * era + doe" unfolding era_def doe_def by simp
  show "0 \<le> yoe" "yoe \<le> 399" by (fact y)+
  show "0 \<le> doy" "doy \<le> 364 + (if leap_year (yoe + 1) then 1 else 0)"
    using y(3,4) unfolding doy_def year_start_Suc by simp_all
qed

lemma civil_from_days_split:
  obtains w doy month day where
    "civil_from_days days = (w + (if month \<le> 2 then 1 else 0), month, day)"
    "year_start w + doy = days + 719468" "doy = 365 \<Longrightarrow> leap_year (w + 1)"
    "1 \<le> month" "month \<le> 12" "1 \<le> day"
    "day \<le> (if month = 2 then if doy = 365 then 29 else 28 else if month \<in> {4, 6, 9, 11} then 30 else 31)"
    "doy + 1 = day + (if month = 1 then 306 else if month = 2 then 337
       else [0, 31, 61, 92, 122, 153, 184, 214, 245, 275] ! nat (month - 3))"
proof -
  define era where "era = (days + 719468) div 146097"
  define doe where "doe = (days + 719468) mod 146097"
  define yoe where "yoe = yoe_num doe div 365"
  define doy where "doy = doe - year_start yoe"
  define mp where "mp = (5 * doy + 2) div 153"
  define day where "day = doy - (153 * mp + 2) div 5 + 1"
  define month where "month = (if mp < 10 then mp + 3 else mp - 9)"
  note parts = civil_from_days_parts [of days, folded era_def doe_def yoe_def doy_def mp_def month_def day_def,
      folded doe_def, folded yoe_def, folded doy_def, folded mp_def, folded month_def day_def]
  have "doy \<in> set [0..365]" using parts(5,6) by (auto split: if_splits)
  with month_table have t: "1 \<le> month" "month \<le> 12" "1 \<le> day"
    "day \<le> (if month = 2 then if doy = 365 then 29 else 28 else if month \<in> {4, 6, 9, 11} then 30 else 31)"
    "doy + 1 = day + (if month = 1 then 306 else if month = 2 then 337
       else [0, 31, 61, 92, 122, 153, 184, 214, 245, 275] ! nat (month - 3))"
    unfolding list_all_iff Let_def mp_def month_def day_def by (blast dest: bspec)+
  have leap: "doy = 365 \<Longrightarrow> leap_year (yoe + 1)" using parts(6) by (simp split: if_splits)
  have shift: "leap_year (yoe + 1 + era * 400) = leap_year (yoe + 1)"
    using leap_year_shift [of "yoe + 1" era] by (simp add: mult.commute)
  have total: "year_start (yoe + era * 400) + doy = days + 719468"
    using parts(2) year_start_shift [of yoe era] unfolding doy_def by (simp add: mult.commute)
  have "leap_year (yoe + era * 400 + 1) = leap_year (yoe + 1 + era * 400)" by (simp add: algebra_simps)
  with leap shift have "doy = 365 \<Longrightarrow> leap_year (yoe + era * 400 + 1)" by simp
  from that [OF parts(1) total this t] show thesis .
qed

lemma civil_from_days_dates:
  "valid_date (civil_from_days days)
   \<and> day_count (civil_from_days days) = days + day_count (1970, 1, 1)"
proof -
  obtain w doy month day where
    c: "civil_from_days days = (w + (if month \<le> 2 then 1 else 0), month, day)" and
    total: "year_start w + doy = days + 719468" and leap: "doy = 365 \<Longrightarrow> leap_year (w + 1)" and
    t: "1 \<le> month" "month \<le> 12" "1 \<le> day"
      "day \<le> (if month = 2 then if doy = 365 then 29 else 28 else if month \<in> {4, 6, 9, 11} then 30 else 31)"
      "doy + 1 = day + (if month = 1 then 306 else if month = 2 then 337
         else [0, 31, 61, 92, 122, 153, 184, 214, 245, 275] ! nat (month - 3))"
    by (rule civil_from_days_split [of days]) (rule that; assumption)
  have epoch: "day_count (1970, 1, 1) = 719162"
    by (simp add: day_count_def days_before_year_def days_before_month_def)
  show ?thesis
  proof (cases "month \<le> 2")
    case True
    with t(1) have m: "month = 1 \<or> month = 2" by linarith
    have "days_before_year (w + 1) = year_start w" unfolding days_before_year_def year_start_def by simp
    with m t(1,2,5) total True have "day_count (civil_from_days days) = days + 719162"
      unfolding c day_count_def by (auto simp: days_before_month_table)
    moreover have "valid_date (civil_from_days days)"
      using m t(3,4) leap unfolding c valid_date_def month_length_def by (auto split: if_splits)
    ultimately show ?thesis unfolding epoch by blast
  next
    case False
    have "days_before_year w = year_start (w - 1)" unfolding days_before_year_def year_start_def by simp
    moreover have "year_start w = year_start (w - 1) + 365 + (if leap_year w then 1 else 0)"
      using year_start_Suc [of "w - 1"] by simp
    ultimately have "day_count (civil_from_days days) = days + 719162"
      using False t(1,2,5) total unfolding c day_count_def by (auto simp: days_before_month_table)
    moreover have "valid_date (civil_from_days days)"
      using False t(1-4) unfolding c valid_date_def month_length_def by auto
    ultimately show ?thesis unfolding epoch by blast
  qed
qed

text \<open>
  C32. The date arithmetic is correct for every day number: the year, month and day it computes
  are a date of the proleptic Gregorian calendar, and counting the days from that date, by leap
  years and month lengths, gives the day number back (1970-01-01 being day 0).
\<close>

theorem civil_from_days_correct:
  "valid_date (civil_from_days days)
   \<and> day_count (civil_from_days days) = days + day_count (1970, 1, 1)"
  by (rule civil_from_days_dates)


text \<open>
  A printed timestamp denotes its instant: the text is a Gregorian date and a time of
  day with nine fraction digits, hour, minute and second in range, and the days from the epoch
  to that date together with the time of day are the nanoseconds it was made from, before the
  epoch as well as after it.
\<close>

theorem format_timestamp_denotes:
  "\<exists>y m d hh mm ss ff. valid_date (y, m, d)
     \<and> format_timestamp nanos =
         (if y < 0 then ''-'' @ zero_padded 4 (- y) else zero_padded 4 y) @ ''-'' @ zero_padded 2 m
           @ ''-'' @ zero_padded 2 d @ ''T'' @ zero_padded 2 hh @ '':'' @ zero_padded 2 mm @ '':''
           @ zero_padded 2 ss @ ''.'' @ zero_padded 9 ff
     \<and> hh \<in> {0..23} \<and> mm \<in> {0..59} \<and> ss \<in> {0..59} \<and> ff \<in> {0..999999999}
     \<and> nanos = ((day_count (y, m, d) - day_count (1970, 1, 1)) * 86400 + hh * 3600 + mm * 60 + ss)
                 * 1000000000 + ff"
proof -
  define D where "D = nanos div (86400 * 1000000000)"
  define w where "w = nanos mod (86400 * 1000000000)"
  define s where "s = w div 1000000000"
  obtain y m d where c: "civil_from_days D = (y, m, d)" by (metis prod_cases3)
  note ymd = civil_from_days_dates [of D, unfolded c]
  have n: "nanos = D * (86400 * 1000000000) + w" unfolding D_def w_def by simp
  have w: "0 \<le> w" "w < 86400 * 1000000000" unfolding w_def by simp_all
  have ws: "w = s * 1000000000 + w mod 1000000000" unfolding s_def by simp
  define r where "r = w mod 1000000000"
  have r: "0 \<le> r" unfolding r_def by simp
  have "0 \<le> s" using w(1) unfolding s_def by (simp add: pos_imp_zdiv_nonneg_iff)
  moreover have "s < 86400" using w(2) r ws [folded r_def] by linarith
  ultimately have s: "0 \<le> s" "s < 86400" .
  have "s div 3600 = s div 60 div 60" using zdiv_zmult2_eq [of 60 s 60] by simp
  then have "s div 3600 * 3600 + (s div 60) mod 60 * 60 = (s div 60 div 60 * 60 + (s div 60) mod 60) * 60"
    by (simp only: distrib_right)
  then have sp: "s = s div 3600 * 3600 + (s div 60) mod 60 * 60 + s mod 60"
    by (simp only: div_mult_mod_eq)
  have "s div 3600 \<le> 86399 div 3600" using s(2) by (intro zdiv_mono1) simp_all
  then have h: "0 \<le> s div 3600" "s div 3600 \<le> 23" using s(1) by (simp_all add: pos_imp_zdiv_nonneg_iff)
  have f: "format_timestamp nanos =
      (if y < 0 then ''-'' @ zero_padded 4 (- y) else zero_padded 4 y) @ ''-'' @ zero_padded 2 m
        @ ''-'' @ zero_padded 2 d @ ''T'' @ zero_padded 2 (s div 3600) @ '':'' @ zero_padded 2 ((s div 60) mod 60)
        @ '':'' @ zero_padded 2 (s mod 60) @ ''.'' @ zero_padded 9 (w mod 1000000000)"
    unfolding format_timestamp_def format_date_def format_time_of_day_def Let_def SECONDS_PER_DAY_def
      NANOS_PER_SECOND_def D_def [symmetric] w_def [symmetric] s_def [symmetric] c by simp
  have "nanos = ((day_count (y, m, d) - day_count (1970, 1, 1)) * 86400 + s div 3600 * 3600
      + (s div 60) mod 60 * 60 + s mod 60) * 1000000000 + w mod 1000000000"
    using ymd n ws sp by simp
  moreover have "w mod 1000000000 \<in> {0..999999999}" using pos_mod_bound [of 1000000000 w] by auto
  moreover have "(s div 60) mod 60 \<in> {0..59}" "s mod 60 \<in> {0..59}"
    using pos_mod_bound [of 60 "s div 60"] pos_mod_bound [of 60 s] by auto
  moreover have "s div 3600 \<in> {0..23}" using h by simp
  moreover note f conjunct1 [OF ymd]
  ultimately show ?thesis
    by (intro exI [of _ y] exI [of _ m] exI [of _ d] exI [of _ "s div 3600"] exI [of _ "(s div 60) mod 60"]
        exI [of _ "s mod 60"] exI [of _ "w mod 1000000000"] conjI) assumption+
qed

section \<open>Round trips\<close>

lemma split_first_absent: "list_all (\<lambda>c. \<not> p c) s \<Longrightarrow> split_first p s = None"
  by (induction s) auto

lemma split_first_at: "list_all (\<lambda>c. \<not> p c) s \<Longrightarrow> p c \<Longrightarrow> split_first p (s @ c # t) = Some (s, t)"
  by (induction s) auto

lemma digits_avoid: "list_all is_ascii_digit s \<Longrightarrow> \<not> is_ascii_digit x \<Longrightarrow> list_all (\<lambda>c. \<not> c = x) s"
  by (auto simp: list_all_iff)

lemma fraction_nanos_value:
  "list_all is_ascii_digit s \<Longrightarrow> i + length s = 9 \<Longrightarrow> fraction_nanos i s = int (digits_val s)"
proof (induction s arbitrary: i)
  case (Cons c s)
  then have "8 - i = length s" by simp
  with Cons digits_val_append [of "[c]" s] show ?case by simp
qed simp

lemma hd_nat_str_digit: "is_ascii_digit (hd (nat_str n))"
  using nat_str_digits [of n] by (cases "nat_str n") auto

lemma parse_int_nat_str:
  "lo \<le> int n \<Longrightarrow> int n \<le> hi \<Longrightarrow> parse_int lo hi (nat_str n) = Some (int n)"
  using nat_str_digits [of n] hd_nat_str_digit [of n] digits_val_nat_str [of n] nat_str_nonempty [of n]
  by (cases "nat_str n") (auto simp: parse_int_def byte_class)

lemma parse_int_int_str:
  "lo \<le> i \<Longrightarrow> i \<le> hi \<Longrightarrow> parse_int lo hi (int_str i) = Some i"
  using parse_int_nat_str [of lo "nat i" hi] nat_str_digits [of "nat (- i)"]
  by (simp add: int_str_def parse_int_def)

text \<open>Seconds and nine fraction digits, as the wire format has them.\<close>

definition epoch_text :: "int \<Rightarrow> string" where
  "epoch_text nanos =
     (if nanos < 0 then ''-'' else '''') @ nat_str (nat \<bar>nanos\<bar> div 1000000000) @ ''.''
       @ pad0 9 (nat_str (nat \<bar>nanos\<bar> mod 1000000000))"

text \<open>
  Instants survive the wire: parsing the decimal seconds of an instant gives its
  nanoseconds, exactly, for every instant that fits 128 bits, negative ones included.
\<close>

theorem parse_epoch_nanos_inverts:
  assumes "\<bar>nanos\<bar> \<le> i128_max"
  shows "parse_epoch_nanos (epoch_text nanos) = Inr nanos"
proof -
  define q where "q = nat \<bar>nanos\<bar> div 1000000000"
  define r where "r = nat \<bar>nanos\<bar> mod 1000000000"
  define W where "W = nat_str q"
  define F where "F = pad0 9 (nat_str r)"
  have shape: "epoch_text nanos = (if nanos < 0 then CHR ''-'' # W @ CHR ''.'' # F else W @ CHR ''.'' # F)"
    by (simp add: epoch_text_def W_def F_def q_def r_def)
  have lf: "length F = 9" unfolding F_def using length_nat_str_le [of r 9] by (simp add: r_def)
  have dw: "list_all is_ascii_digit W" and df: "list_all is_ascii_digit F"
    unfolding W_def F_def by (simp_all add: nat_str_digits)
  have nd: "\<not> is_ascii_digit (CHR ''.'')" "\<not> is_ascii_digit (CHR ''-'')" by (simp_all add: byte_class)
  have sp: "split_first (\<lambda>c. c = CHR ''.'') (W @ CHR ''.'' # F) = Some (W, F)"
    by (rule split_first_at) (use digits_avoid [OF dw nd(1)] in simp_all)
  obtain c cs where W: "W = c # cs" "c \<noteq> CHR ''-''"
    using hd_nat_str_digit [of q] nd(2) nat_str_nonempty [of q] unfolding W_def [symmetric]
    by (cases W) auto
  have sum: "int q * NANOS_PER_SECOND + int r = \<bar>nanos\<bar>"
    unfolding NANOS_PER_SECOND_def q_def r_def by (simp add: zdiv_int zmod_int)
  then have le: "int q * NANOS_PER_SECOND \<le> i128_max" "int q \<le> i128_max"
    using assms unfolding NANOS_PER_SECOND_def by linarith+
  then have pw: "parse_i128 W = Some (int q)"
    unfolding parse_i128_def W_def by (intro parse_int_nat_str) (simp_all add: i128_min_def)
  have fr: "fraction_nanos 0 F = int r"
    using fraction_nanos_value [OF df] lf unfolding F_def by simp
  show ?thesis
  proof (cases "nanos < 0")
    case True
    with dw df lf pw fr sum le assms sp show ?thesis
      by (simp add: parse_epoch_nanos_def shape W(1))
  next
    case False
    with dw df lf pw fr sum le assms sp show ?thesis
      by (simp add: parse_epoch_nanos_def shape W)
  qed
qed

lemma parse_epoch_nanos_inverts_witness: "parse_epoch_nanos (epoch_text (-1500000000)) = Inr (-1500000000)"
  by (rule parse_epoch_nanos_inverts) (simp add: i128_max_def)


section \<open>Cells\<close>







lemma is_decimal_int_str: "is_decimal (int_str i) e"
proof -
  have "is_decimal (nat_str n) e \<and> is_decimal (CHR ''-'' # nat_str n) e" for n
  proof -
    have d: "list_all is_ascii_digit (nat_str n)" by (rule nat_str_digits)
    have "split_first is_exp (nat_str n) = None" "split_first (\<lambda>c. c = CHR ''.'') (nat_str n) = None"
      by (rule split_first_absent; use d in \<open>auto simp: list_all_iff byte_class\<close>)+
    moreover have "strip_sign (nat_str n) = nat_str n"
      using hd_nat_str_digit [of n] by (cases "nat_str n") (auto simp: strip_sign_def byte_class)
    ultimately show ?thesis using d by (simp add: is_decimal_def digits_def strip_sign_def)
  qed
  then show ?thesis by (simp add: int_str_def)
qed

text \<open>
  Fixed-point columns never lose an integer: every 64-bit integer written in decimal is
  decoded to the JSON integer of that value when the column is represented by integers, and to
  the same digits otherwise; no cell goes through a float.
\<close>

theorem fixed_integers_are_exact:
  assumes "logical codec = Fixed" and "i64_min \<le> i" and "i \<le> i64_max"
  shows "decode S codec (Some (int_str i)) =
    Some (Inr (if json_repr codec = Integer then Number (from_i64 S i) else JString (int_str i)))"
proof -
  have "json_repr codec = Integer \<or> json_repr codec = DecimalString"
    using assms(1) by (auto simp: json_repr_def)
  with assms show ?thesis
    by (auto simp: decode_def parse_i64_def parse_int_int_str is_decimal_int_str)
qed

text \<open>An instance of the parameters whose numbers are integers, for the examples.\<close>

definition integer_serde :: "(int, int) Serde" where
  "integer_serde = \<lparr>from_str = \<lambda>s. map_option Number (parse_i64 s), number_to_string = int_str, as_i64 = Some,
     as_f64 = Some, from_f64 = Some, from_i64 = id, parse_f64 = parse_i64, is_finite = \<lambda>_. True\<rparr>"

lemma fixed_integers_are_exact_witness:
  "decode integer_serde \<lparr>logical = Fixed, precision = Some 15, scale = None\<rparr> (Some (int_str (-42)))
     = Some (Inr (Number (-42)))"
  using fixed_integers_are_exact [of "\<lparr>logical = Fixed, precision = Some 15, scale = None\<rparr>" "-42" integer_serde]
  by (simp add: i64_min_def i64_max_def json_repr_def MAX_EXACT_INTEGER_PRECISION_def integer_serde_def)

text \<open>
  The addition of a time zone offset is unchecked and can overflow: the largest instant the
  parser accepts, with an offset of one day, leaves the 128-bit range.
\<close>

theorem tz_offset_addition_overflows:
  "decode_timestamp_tz ''170141183460469231731687303715.884105727 2880'' = None"
proof -
  let ?a = "''170141183460469231731687303715.884105727''"
  have "split_first (\<lambda>c. c = CHR '' '') (?a @ '' 2880'') = Some (?a, ''2880'')" by simp
  moreover have "str_trim ''2880'' = ''2880''" by (rule str_trim_ascii) (simp_all add: is_ascii_def ws1_def)
  moreover have "parse_i128 ''2880'' = Some 2880"
    by (simp add: parse_i128_def parse_int_def digits_val_def digit_val_def byte_class i128_min_def i128_max_def)
  moreover have "parse_epoch_nanos ?a = Inr i128_max"
    by (simp add: parse_epoch_nanos_def parse_i128_def parse_int_def digits_val_def digit_val_def byte_class
        i128_min_def i128_max_def NANOS_PER_SECOND_def)
  ultimately show ?thesis
    by (simp add: decode_timestamp_tz_def i128_max_def NANOS_PER_SECOND_def)
qed

end
