(* ===== verification/Jsonv2Scanner.thy ===== *)
theory Jsonv2Scanner
  imports Utf8 "HOL-Library.Word"
begin

text \<open>
  The byte scanner for \<^verbatim>\<open>jsonv2\<close> partitions, \<^verbatim>\<open>crates/franken-snowflake-core/src/jsonv2_scanner.rs\<close>:
  the word-at-a-time delimiter search, the extraction of the row array from a response, escape
  decoding, the streaming row scan with its visitor, and the batch decoder.

  A byte position is the suffix that starts there. The scratch buffer is the accumulator of
  \<open>decode_escapes_into\<close>. A visitor is a state transformer that may fail; \<open>map_err\<close> is a
  function argument, as in the source. The cell scanner is the code both row loops repeat.

  Lemmas: the word search is the linear search; a rendered table decodes to itself, bare or in
  an envelope; the streaming scan accepts exactly what the batch decoder does with rows of the
  expected width, and visits the same cells.
\<close>

unbundle bit_operations_syntax

section \<open>Errors and cells\<close>

datatype CellSlice = Null | Borrowed string | Unescaped string

definition cell_as_str :: "CellSlice \<Rightarrow> string option" where
  "cell_as_str c = (case c of Null \<Rightarrow> None | Borrowed s \<Rightarrow> Some s | Unescaped s \<Rightarrow> Some s)"

datatype Jsonv2ScanError =
  RowWidthMismatch nat nat nat nat \<comment> \<open>partition index, row index, expected, actual\<close>
  | RowCountOverflow
  | Decode string

section \<open>Delimiter search\<close>

definition is_quote_or_escape :: "char \<Rightarrow> bool" where
  "is_quote_or_escape b \<longleftrightarrow> b = CHR 0x22 \<or> b = CHR 0x5C"

fun find_linear :: "string \<Rightarrow> nat option" where
  "find_linear [] = None"
| "find_linear (b # r) = (if is_quote_or_escape b then Some 0 else map_option Suc (find_linear r))"

text \<open>\<^verbatim>\<open>u64::from_ne_bytes\<close> on a little-endian machine, and the zero-byte test of the chunk.\<close>

primrec bytes_value :: "nat list \<Rightarrow> int" where
  "bytes_value [] = 0"
| "bytes_value (b # bs) = int b + 256 * bytes_value bs"

definition chunk_word :: "string \<Rightarrow> 64 word" where
  "chunk_word s = word_of_int (bytes_value (map of_char s))"

definition chunk_hit :: "string \<Rightarrow> bool" where
  "chunk_hit s =
     (let chunk = chunk_word s;
          m1 = chunk XOR 0x2222222222222222;
          m2 = chunk XOR 0x5C5C5C5C5C5C5C5C;
          r1 = (m1 - 0x0101010101010101) AND (NOT m1);
          r2 = (m2 - 0x0101010101010101) AND (NOT m2)
      in (r1 OR r2) AND 0x8080808080808080 \<noteq> 0)"

function find_from :: "nat \<Rightarrow> string \<Rightarrow> nat option" where
  "find_from i s =
     (if 8 \<le> length s then
        case (if chunk_hit (take 8 s) then find_linear (take 8 s) else None) of
          Some j \<Rightarrow> Some (i + j)
        | None \<Rightarrow> find_from (i + 8) (drop 8 s)
      else map_option (\<lambda>j. i + j) (find_linear s))"
  by pat_completeness auto
termination
  by (relation "measure (\<lambda>(i, s). length s)") auto

declare find_from.simps [simp del]

definition find_quote_or_escape :: "string \<Rightarrow> nat option" where
  "find_quote_or_escape s = find_from 0 s"

lemma bit_byte_add:
  fixes a v :: int
  assumes "0 \<le> a" "a < 256"
  shows "bit (a + 256 * v) n \<longleftrightarrow> (if n < 8 then bit a n else bit v (n - 8))"
proof (cases "n < 8")
  case True
  have "take_bit 8 (a + 256 * v) = take_bit 8 a"
    by (simp add: take_bit_eq_mod)
  then have "bit (take_bit 8 (a + 256 * v)) n = bit (take_bit 8 a) n" by simp
  with True show ?thesis by (simp add: bit_take_bit_iff)
next
  case False
  have "drop_bit 8 (a + 256 * v) = v" using assms by (simp add: drop_bit_eq_div)
  then have "bit v (n - 8) = bit (drop_bit 8 (a + 256 * v)) (n - 8)" by simp
  with False show ?thesis by (simp add: bit_drop_bit_eq)
qed

lemma bytes_value_xor:
  assumes "list_all (\<lambda>b. b < 256) bs" and "c < 256"
  shows "bytes_value bs XOR bytes_value (replicate (length bs) c) = bytes_value (map (\<lambda>b. b XOR c) bs)"
  using assms(1)
proof (induction bs)
  case (Cons b bs)
  have "int b XOR int c < 2 ^ 8" using Cons.prems assms(2) by (intro XOR_upper) simp_all
  then have y: "0 \<le> int b XOR int c" "int b XOR int c < 256" by simp_all
  show ?case
  proof (rule bit_eqI)
    fix n
    have "bit (bytes_value (b # bs) XOR bytes_value (replicate (length (b # bs)) c)) n =
        (if n < 8 then bit (int b XOR int c) n
         else bit (bytes_value bs XOR bytes_value (replicate (length bs) c)) (n - 8))"
      using Cons.prems assms(2) by (simp add: bit_xor_iff bit_byte_add)
    also have "\<dots> = bit (bytes_value (map (\<lambda>b. b XOR c) (b # bs))) n"
      using Cons bit_byte_add [OF y] by (simp add: of_nat_xor_eq)
    finally show "bit (bytes_value (b # bs) XOR bytes_value (replicate (length (b # bs)) c)) n =
        bit (bytes_value (map (\<lambda>b. b XOR c) (b # bs))) n" .
  qed
qed simp

text \<open>Subtracting one from every byte sets the top bit of the lowest zero byte.\<close>

lemma zero_byte_bit:
  assumes "list_all (\<lambda>b. b < 256) bs" and "0 \<in> set bs"
  shows "\<exists>n. n < 8 * length bs \<and> n mod 8 = 7
    \<and> bit (bytes_value bs - bytes_value (replicate (length bs) 1)) n \<and> \<not> bit (bytes_value bs) n"
  using assms
proof (induction bs)
  case (Cons b bs)
  let ?d = "bytes_value bs - bytes_value (replicate (length bs) 1)"
  show ?case
  proof (cases "b = 0")
    case True
    have e: "bytes_value (b # bs) - bytes_value (replicate (length (b # bs)) 1) = 255 + 256 * (?d - 1)"
      using True by simp
    have "bit (255 :: int) 7" by (simp add: bit_iff_odd)
    then have "bit (bytes_value (b # bs) - bytes_value (replicate (length (b # bs)) 1)) 7"
      unfolding e using bit_byte_add [of 255 "?d - 1" 7] by simp
    moreover have "\<not> bit (bytes_value (b # bs)) 7"
      using True bit_byte_add [of 0 "bytes_value bs" 7] by simp
    ultimately show ?thesis by (intro exI [of _ 7]) simp
  next
    case False
    with Cons obtain n where n: "n < 8 * length bs" "n mod 8 = 7" "bit ?d n" "\<not> bit (bytes_value bs) n"
      by auto
    have e: "bytes_value (b # bs) - bytes_value (replicate (length (b # bs)) 1) = (int b - 1) + 256 * ?d"
      by simp
    have bnd: "0 \<le> int b - 1" "int b - 1 < 256" "0 \<le> int b" "int b < 256" using False Cons.prems by auto
    have "bit (bytes_value (b # bs) - bytes_value (replicate (length (b # bs)) 1)) (n + 8)"
      unfolding e bit_byte_add [OF bnd(1,2)] using n(3) by simp
    moreover have "\<not> bit (bytes_value (b # bs)) (n + 8)"
      using n(4) bit_byte_add [OF bnd(3,4), of "bytes_value bs" "n + 8"] by simp
    ultimately show ?thesis using n(1,2) by (intro exI [of _ "n + 8"]) simp
  qed
qed simp

lemma top_bits:
  assumes "n < 64" and "n mod 8 = 7"
  shows "bit (0x8080808080808080 :: 64 word) n"
proof -
  have all: "\<forall>k \<in> set [0..<8]. bit (0x8080808080808080 :: 64 word) (8 * k + 7)" by code_simp
  have "n div 8 \<in> set [0..<8]" using assms(1) by (simp add: less_mult_imp_div_less)
  with all have b: "bit (0x8080808080808080 :: 64 word) (8 * (n div 8) + 7)" by (rule bspec)
  have "8 * (n div 8) + 7 = n" using assms(2) mult_div_mod_eq [of 8 n] by simp
  with b show ?thesis by (simp only:)
qed

lemma zero_test_word:
  assumes "list_all (\<lambda>b. b < 256) bs" and "length bs = 8" and "0 \<in> set bs"
  defines "m \<equiv> word_of_int (bytes_value bs) :: 64 word"
  shows "((m - 0x0101010101010101) AND NOT m) AND 0x8080808080808080 \<noteq> 0"
proof -
  have ones: "bytes_value (replicate 8 1) = 0x0101010101010101"
    by (simp add: numeral_eq_Suc)
  obtain n where n: "n < 64" "n mod 8 = 7" "bit (bytes_value bs - bytes_value (replicate 8 1)) n"
    "\<not> bit (bytes_value bs) n"
    using zero_byte_bit [OF assms(1,3)] assms(2) by auto
  have e: "m - 0x0101010101010101 = word_of_int (bytes_value bs - bytes_value (replicate 8 1))"
    unfolding ones m_def by simp
  have "bit (m - 0x0101010101010101) n" unfolding e bit_word_of_int_iff using n by simp
  moreover have "\<not> bit m n" using n by (simp add: m_def bit_word_of_int_iff)
  ultimately have "bit (((m - 0x0101010101010101) AND NOT m) AND 0x8080808080808080) n"
    using n top_bits [OF n(1,2)] by (simp add: bit_and_iff bit_not_iff)
  then show ?thesis by (metis bit_0_eq bot_fun_def bot_bool_def)
qed

lemma chunk_xor:
  assumes "length s = 8" and "c < 256"
  shows "chunk_word s XOR word_of_int (bytes_value (replicate 8 c)) =
         word_of_int (bytes_value (map (\<lambda>b. of_char b XOR c) s))"
proof -
  have "list_all (\<lambda>b. b < 256) (map of_char s :: nat list)" by (simp add: list_all_iff)
  from bytes_value_xor [OF this assms(2)] assms(1)
  show ?thesis by (simp add: chunk_word_def of_int_xor_eq [symmetric] comp_def)
qed

lemma find_linear_None: "find_linear s = None \<longleftrightarrow> (\<forall>b \<in> set s. \<not> is_quote_or_escape b)"
  by (induction s) auto

lemma chunk_hit_complete:
  assumes "length s = 8" and "\<not> chunk_hit s"
  shows "find_linear s = None"
proof (rule ccontr)
  assume "find_linear s \<noteq> None"
  then obtain b where b: "b \<in> set s" "b = CHR 0x22 \<or> b = CHR 0x5C"
    by (auto simp: find_linear_None is_quote_or_escape_def)
  have c22: "word_of_int (bytes_value (replicate 8 0x22)) = (0x2222222222222222 :: 64 word)"
    and c5c: "word_of_int (bytes_value (replicate 8 0x5C)) = (0x5C5C5C5C5C5C5C5C :: 64 word)"
    by code_simp+
  have test: "((m - 0x0101010101010101) AND NOT m) AND 0x8080808080808080 \<noteq> 0"
    if "c < 256" "of_char b = c" "m = chunk_word s XOR word_of_int (bytes_value (replicate 8 c))"
    for c :: nat and m :: "64 word"
  proof -
    have "of_char x XOR c < 256" for x
      using XOR_upper [of "int (of_char x)" 8 "int c"] that(1)
      by (simp add: of_nat_xor_eq [symmetric] del: of_char_of)
    then have "list_all (\<lambda>b. b < 256) (map (\<lambda>b. of_char b XOR c) s)" by (simp add: list_all_iff)
    moreover have "0 \<in> set (map (\<lambda>b. of_char b XOR c) s)" using b(1) that(2) by force
    ultimately show ?thesis using zero_test_word that(3) assms(1) chunk_xor [OF assms(1) that(1)] by simp
  qed
  from assms(2) have no: "((m1 - 0x0101010101010101) AND NOT m1) AND 0x8080808080808080 = 0"
    "((m2 - 0x0101010101010101) AND NOT m2) AND 0x8080808080808080 = 0"
    if "m1 = chunk_word s XOR 0x2222222222222222" "m2 = chunk_word s XOR 0x5C5C5C5C5C5C5C5C" for m1 m2
    using that by (simp_all add: chunk_hit_def Let_def bit.conj_disj_distrib2 or_eq_0_iff)
  from b(2) show False
  proof
    assume "b = CHR 0x22"
    with test [where c = "0x22" and m = "chunk_word s XOR 0x2222222222222222"] no(1) [OF refl refl]
    show False by (simp add: c22)
  next
    assume "b = CHR 0x5C"
    with test [where c = "0x5C" and m = "chunk_word s XOR 0x5C5C5C5C5C5C5C5C"] no(2) [OF refl refl]
    show False by (simp add: c5c)
  qed
qed

lemma find_linear_append:
  "find_linear (s @ t) = (case find_linear s of Some j \<Rightarrow> Some j
                          | None \<Rightarrow> map_option (\<lambda>j. length s + j) (find_linear t))"
proof (induction s)
  case Nil
  then show ?case by (cases "find_linear t") auto
next
  case (Cons b s)
  then show ?case by (cases "find_linear t"; cases "find_linear s") auto
qed

lemma find_from_linear: "find_from i s = map_option (\<lambda>j. i + j) (find_linear s)"
proof (induction i s rule: find_from.induct)
  case (1 i s)
  show ?case
  proof (cases "8 \<le> length s")
    case True
    have hit: "(if chunk_hit (take 8 s) then find_linear (take 8 s) else None) = find_linear (take 8 s)"
      using chunk_hit_complete [of "take 8 s"] True by auto
    have lin: "find_linear s = (case find_linear (take 8 s) of Some j \<Rightarrow> Some j
        | None \<Rightarrow> map_option (\<lambda>j. 8 + j) (find_linear (drop 8 s)))"
      using find_linear_append [of "take 8 s" "drop 8 s"] length_take [of 8 s] True
      by (simp split: option.splits)
    show ?thesis
    proof (cases "find_linear (take 8 s)")
      case None
      with "1.IH" [OF True] hit have "find_from (i + 8) (drop 8 s) =
          map_option (\<lambda>j. i + 8 + j) (find_linear (drop 8 s))" by simp
      with None True hit lin show ?thesis
        by (simp add: find_from.simps [of i s] option.map_comp comp_def add.assoc)
    next
      case (Some j)
      with True hit lin show ?thesis by (simp add: find_from.simps [of i s])
    qed
  qed (simp add: find_from.simps [of i s])
qed

lemma find_quote_or_escape_linear: "find_quote_or_escape s = find_linear s"
  by (simp add: find_quote_or_escape_def find_from_linear option.map_ident)

lemma find_linear_Some: "find_linear s = Some n \<Longrightarrow> n < length s \<and> is_quote_or_escape (s ! n)"
  by (induction s arbitrary: n) (auto split: if_splits)

lemma find_quote_bound: "find_quote_or_escape s = Some n \<Longrightarrow> n < length s"
  using find_linear_Some by (simp add: find_quote_or_escape_linear)

section \<open>Strings, white space and the data array\<close>

definition json_ws :: "char \<Rightarrow> bool" where
  "json_ws b \<longleftrightarrow> b = CHR '' '' \<or> b = CHR 0x09 \<or> b = CHR 0x0A \<or> b = CHR 0x0D"

definition skip_whitespace :: "string \<Rightarrow> string" where
  "skip_whitespace s = dropWhile json_ws s"

lemma skip_whitespace_le: "length (skip_whitespace s) \<le> length s"
  by (simp add: skip_whitespace_def length_dropWhile_le)

lemma skip_whitespace_Cons: "c # r = skip_whitespace s \<Longrightarrow> length r < length s"
  by (metis Suc_le_eq length_Cons skip_whitespace_le)

text \<open>What follows the string whose body starts \<open>s\<close>.\<close>

function skip_json_string :: "string \<Rightarrow> string option" where
  "skip_json_string s =
     (case find_quote_or_escape s of
        None \<Rightarrow> None
      | Some rel \<Rightarrow>
          if s ! rel = CHR 0x22 then Some (drop (rel + 1) s)
          else if s ! rel = CHR 0x5C then skip_json_string (drop (rel + 2) s)
          else skip_json_string (drop (rel + 1) s))"
  by pat_completeness auto
termination
  by (relation "measure length") (auto dest: find_quote_bound)

declare skip_json_string.simps [simp del]

lemma skip_json_string_lt: "skip_json_string s = Some r \<Longrightarrow> length r < length s"
proof (induction s rule: skip_json_string.induct)
  case (1 s)
  from "1.prems" obtain rel where rel: "find_quote_or_escape s = Some rel"
    by (auto simp: skip_json_string.simps [of s] split: option.splits)
  note b = find_quote_bound [OF rel]
  consider "r = drop (rel + 1) s"
    | "s ! rel \<noteq> CHR 0x22" "s ! rel = CHR 0x5C" "skip_json_string (drop (rel + 2) s) = Some r"
    | "s ! rel \<noteq> CHR 0x22" "s ! rel \<noteq> CHR 0x5C" "skip_json_string (drop (rel + 1) s) = Some r"
    using "1.prems" rel by (auto simp: skip_json_string.simps [of s] split: if_splits)
  then show ?case
  proof cases
    case 1
    with b show ?thesis by simp
  next
    case 2
    from "1.IH"(1) [OF rel 2] b show ?thesis by simp
  next
    case 3
    from "1.IH"(2) [OF rel 3] b show ?thesis by simp
  qed
qed

text \<open>
  The scan from inside an array at the given depth to the end of it: what follows the closing
  bracket.
\<close>

function skip_array :: "nat \<Rightarrow> string \<Rightarrow> Jsonv2ScanError + nat \<times> string" where
  "skip_array depth s =
     (if s = [] \<or> depth = 0 then Inr (depth, s)
      else if hd s = CHR 0x22 then
        (case skip_json_string (tl s) of
           None \<Rightarrow> Inl (Decode ''unterminated string inside 'data' array'')
         | Some r \<Rightarrow> skip_array depth r)
      else if hd s = CHR ''['' then skip_array (depth + 1) (tl s)
      else if hd s = CHR '']'' then skip_array (depth - 1) (tl s)
      else skip_array depth (tl s))"
  by pat_completeness auto
termination
proof (relation "measure (\<lambda>(d, s). length s)", goal_cases)
  case (2 depth s r)
  then show ?case using skip_json_string_lt [of "tl s" r] by (cases s) auto
qed auto

declare skip_array.simps [simp del]

text \<open>The array that starts \<open>s\<close>, after the envelope's \<open>data\<close> key.\<close>

definition envelope_array :: "string \<Rightarrow> Jsonv2ScanError + string" where
  "envelope_array s =
     (if s = [] \<or> hd s \<noteq> CHR ''[''
      then Inl (Decode ''expected '[' at start of 'data' array in envelope'')
      else case skip_array 1 (tl s) of
        Inl e \<Rightarrow> Inl e
      | Inr (depth, rest) \<Rightarrow>
          if depth \<noteq> 0 then Inl (Decode ''unclosed 'data' array in envelope'')
          else
            let after_array = skip_whitespace rest
            in if after_array = [] \<or> hd after_array \<notin> {CHR '','', CHR ''}''}
               then Inl (Decode ''expected ',' or '}' after 'data' array in envelope'')
               else Inr (take (length s - length rest) s))"

function scan_envelope :: "nat \<Rightarrow> string \<Rightarrow> Jsonv2ScanError + string" where
  "scan_envelope depth s =
     (if s = [] \<or> depth = 0 then Inl (Decode ''missing 'data' array in jsonv2 envelope object'')
      else
        let s = skip_whitespace s
        in case s of
             [] \<Rightarrow> Inl (Decode ''missing 'data' array in jsonv2 envelope object'')
           | c # r \<Rightarrow>
               if c = CHR 0x22 then
                 (case skip_json_string r of
                    None \<Rightarrow> Inl (Decode ''unterminated string in jsonv2 envelope'')
                  | Some after_quote \<Rightarrow>
                      let key = take (length r - length after_quote - 1) r;
                          next = skip_whitespace after_quote
                      in if depth = 1 \<and> key = ''data'' \<and> next \<noteq> [] \<and> hd next = CHR '':''
                         then envelope_array (skip_whitespace (tl next))
                         else scan_envelope depth next)
               else if c = CHR ''{'' then scan_envelope (depth + 1) r
               else if c = CHR ''}'' then scan_envelope (depth - 1) r
               else scan_envelope depth r)"
  by pat_completeness auto
termination
proof (relation "measure (\<lambda>(d, s). length s)", goal_cases)
  case (2 depth s s' c r after_quote key nxt)
  then have "c # r = skip_whitespace s" "skip_json_string r = Some after_quote" by auto
  with 2 skip_whitespace_Cons [of c r s] skip_json_string_lt [of r after_quote]
    skip_whitespace_le [of after_quote] show ?case by simp
next
  case (3 depth s s' c r)
  with skip_whitespace_Cons [of c r s] show ?case by simp
next
  case (4 depth s s' c r)
  with skip_whitespace_Cons [of c r s] show ?case by simp
next
  case (5 depth s s' c r)
  with skip_whitespace_Cons [of c r s] show ?case by simp
qed simp

declare scan_envelope.simps [simp del]

definition extract_jsonv2_data_array :: "string \<Rightarrow> Jsonv2ScanError + string" where
  "extract_jsonv2_data_array bytes =
     (case skip_whitespace bytes of
        [] \<Rightarrow> Inl (Decode ''unexpected EOF: expected '[' or '{' at start of jsonv2 payload'')
      | c # r \<Rightarrow>
          if c = CHR ''['' then Inr (c # r)
          else if c = CHR ''{'' then scan_envelope 1 r
          else Inl (Decode ''expected '[' or '{' at start of jsonv2 payload''))"

section \<open>Escapes\<close>

definition hex_value :: "char \<Rightarrow> nat" where
  "hex_value c = (if is_ascii_digit c then code_of c - 48
                  else if 97 \<le> code_of c then code_of c - 87 else code_of c - 55)"

text \<open>
  \<^verbatim>\<open>u16::from_str_radix(_, 16)\<close>: an optional plus sign and at least one hexadecimal digit; the
  callers pass four bytes, so the value fits.
\<close>

definition parse_hex_u16 :: "string \<Rightarrow> nat option" where
  "parse_hex_u16 s =
     (let ds = (case s of c # r \<Rightarrow> if c = CHR ''+'' then r else s | [] \<Rightarrow> []);
          v = foldl (\<lambda>v c. v * 16 + hex_value c) 0 ds
      in if ds \<noteq> [] \<and> list_all is_ascii_hexdigit ds \<and> v < 65536 then Some v else None)"

definition simple_escape :: "char \<Rightarrow> char option" where
  "simple_escape c =
     (if c = CHR 0x22 then Some (CHR 0x22) else if c = CHR 0x5C then Some (CHR 0x5C)
      else if c = CHR ''/'' then Some (CHR ''/'') else if c = CHR ''b'' then Some (CHR 0x08)
      else if c = CHR ''f'' then Some (CHR 0x0C) else if c = CHR ''n'' then Some (CHR 0x0A)
      else if c = CHR ''r'' then Some (CHR 0x0D) else if c = CHR ''t'' then Some (CHR 0x09)
      else None)"

text \<open>
  A \<open>\u\<close> escape, on the bytes after the \<open>u\<close>: the bytes it stands for and what follows it
  (\<^verbatim>\<open>pos + 4 >= len\<close> with \<open>pos\<close> at the \<open>u\<close>: fewer than four bytes follow; \<^verbatim>\<open>pos + 6 < len\<close> with
  \<open>pos\<close> at the last digit: at least six follow).
\<close>

definition unicode_escape :: "string \<Rightarrow> Jsonv2ScanError + string \<times> string" where
  "unicode_escape s =
     (if length s < 4 then Inl (Decode ''unterminated unicode escape'')
      else if \<not> valid_utf8 (take 4 s) then Inl (Decode ''invalid UTF-8 in unicode escape'')
      else case parse_hex_u16 (take 4 s) of
        None \<Rightarrow> Inl (Decode ''invalid hex digits in unicode escape'')
      | Some code \<Rightarrow>
          let r = drop 4 s
          in if 0xD800 \<le> code \<and> code \<le> 0xDBFF then
               if 6 \<le> length r \<and> r ! 0 = CHR 0x5C \<and> r ! 1 = CHR ''u'' then
                 let low = take 4 (drop 2 r)
                 in if \<not> valid_utf8 low then Inl (Decode ''invalid UTF-8 in low surrogate'')
                    else case parse_hex_u16 low of
                      None \<Rightarrow> Inl (Decode ''invalid hex in low surrogate'')
                    | Some low_code \<Rightarrow>
                        if 0xDC00 \<le> low_code \<and> low_code \<le> 0xDFFF then
                          let scalar = 0x10000 + (((code - 0xD800) * 1024) OR (low_code - 0xDC00))
                          in if is_scalar scalar then Inr (encode_utf8 scalar, drop 6 r)
                             else Inl (Decode ''invalid surrogate scalar codepoint'')
                        else Inl (Decode ''expected low surrogate after high surrogate'')
               else Inl (Decode ''lone high surrogate without low surrogate'')
             else if is_scalar code then Inr (encode_utf8 code, r)
             else Inl (Decode ''invalid unicode codepoint''))"

text \<open>One escape, from its backslash.\<close>

definition one_escape :: "string \<Rightarrow> Jsonv2ScanError + string \<times> string" where
  "one_escape s =
     (case s of
        [] \<Rightarrow> Inl (Decode ''unexpected EOF in escaped string'')
      | b # r \<Rightarrow>
          if b \<noteq> CHR 0x5C then Inl (Decode ''expected backslash in escape decoder'')
          else (case r of
                  [] \<Rightarrow> Inl (Decode ''unexpected EOF after backslash'')
                | c # r' \<Rightarrow>
                    if c = CHR ''u'' then unicode_escape r'
                    else case simple_escape c of
                           Some d \<Rightarrow> Inr ([d], r')
                         | None \<Rightarrow> Inl (Decode ''unknown escape sequence'')))"


lemma unicode_escape_le: "unicode_escape s = Inr (d, r) \<Longrightarrow> length r \<le> length s"
  by (auto simp: unicode_escape_def Let_def split: if_splits option.splits)

lemma one_escape_lt: "one_escape s = Inr (d, r) \<Longrightarrow> length r < length s"
  using unicode_escape_le [of "tl (tl s)" d r]
  by (cases s; cases "tl s")
     (auto simp: one_escape_def Suc_le_eq split: if_splits option.splits)

text \<open>
  The loop over escapes, from a backslash: the scratch buffer with the decoded rest of the string
  appended, and what follows the closing quote.
\<close>

function decode_escapes_into :: "string \<Rightarrow> string \<Rightarrow> Jsonv2ScanError + string \<times> string" where
  "decode_escapes_into s scratch =
     (case one_escape s of
        Inl e \<Rightarrow> Inl e
      | Inr (d, r) \<Rightarrow>
          (case find_quote_or_escape r of
             None \<Rightarrow> Inl (Decode ''unterminated string after escape'')
           | Some rel_hit \<Rightarrow>
               let scratch = scratch @ d @ take rel_hit r
               in if r ! rel_hit = CHR 0x22 then Inr (scratch, drop (rel_hit + 1) r)
                  else decode_escapes_into (drop rel_hit r) scratch))"
  by pat_completeness auto
termination
proof (relation "measure (\<lambda>(s, b). length s)", goal_cases)
  case (2 s scratch ok d r n scratch')
  then show ?case using one_escape_lt [of s d r] by auto
qed simp

declare decode_escapes_into.simps [simp del]

section \<open>Cells and rows\<close>

text \<open>
  The code both row loops run for one cell: the cell and what follows it.
\<close>

definition scan_cell :: "string \<Rightarrow> Jsonv2ScanError + CellSlice \<times> string" where
  "scan_cell s =
     (case s of
        [] \<Rightarrow> Inl (Decode ''unexpected EOF in jsonv2 row'')
      | b # r \<Rightarrow>
          if b = CHR ''n'' then
            if take 4 s = ''null'' then Inr (Null, drop 4 s)
            else Inl (Decode ''invalid null literal in cell'')
          else if b = CHR 0x22 then
            (case find_quote_or_escape r of
               None \<Rightarrow> Inl (Decode ''unterminated string quote in cell'')
             | Some rel_hit \<Rightarrow>
                 if r ! rel_hit = CHR 0x22 then
                   if valid_utf8 (take rel_hit r)
                   then Inr (Borrowed (take rel_hit r), drop (rel_hit + 1) r)
                   else Inl (Decode ''invalid UTF-8 in cell string'')
                 else
                   case decode_escapes_into (drop rel_hit r) (take rel_hit r) of
                     Inl e \<Rightarrow> Inl e
                   | Inr (scratch, rest) \<Rightarrow>
                       if valid_utf8 scratch then Inr (Unescaped scratch, rest)
                       else Inl (Decode ''invalid UTF-8 after unescaping cell string''))
          else Inl (Decode ''unexpected token in jsonv2 cell: expected quote or null''))"

text \<open>
  After a cell, and after a row: whether a comma follows (then white space is skipped again) or
  the closing bracket, and the rest.
\<close>

definition after_item :: "string \<Rightarrow> string \<Rightarrow> string \<Rightarrow> Jsonv2ScanError + bool \<times> string" where
  "after_item eof_reason token_reason s =
     (case skip_whitespace s of
        [] \<Rightarrow> Inl (Decode eof_reason)
      | b # r \<Rightarrow>
          if b = CHR '','' then Inr (True, skip_whitespace r)
          else if b = CHR '']'' then Inr (False, r)
          else Inl (Decode token_reason))"

abbreviation after_cell :: "string \<Rightarrow> Jsonv2ScanError + bool \<times> string" where
  "after_cell \<equiv> after_item ''unexpected EOF after cell'' ''expected ',' or ']' after cell''"

abbreviation after_row :: "string \<Rightarrow> Jsonv2ScanError + bool \<times> string" where
  "after_row \<equiv> after_item ''unexpected EOF after row'' ''expected ',' or ']' after row''"

lemma decode_escapes_into_lt:
  "decode_escapes_into s b = Inr (b', r) \<Longrightarrow> length r < length s"
proof (induction s b rule: decode_escapes_into.induct)
  case (1 s b)
  from "1.prems" obtain d t n where e: "one_escape s = Inr (d, t)" "find_quote_or_escape t = Some n"
    by (auto simp: decode_escapes_into.simps [of s] split: sum.splits option.splits)
  note lt = one_escape_lt [OF e(1)]
  show ?case
  proof (cases "t ! n = CHR 0x22")
    case True
    with "1.prems" e lt show ?thesis by (auto simp: decode_escapes_into.simps [of s] Let_def)
  next
    case False
    with "1.prems" e have "decode_escapes_into (drop n t) (b @ d @ take n t) = Inr (b', r)"
      by (simp add: decode_escapes_into.simps [of s] Let_def)
    from "1.IH" [OF e(1) refl e(2) refl False this] lt show ?thesis by simp
  qed
qed

lemma scan_cell_lt: "scan_cell s = Inr (c, r) \<Longrightarrow> length r < length s"
  by (auto simp: scan_cell_def split: list.splits if_splits option.splits sum.splits
           dest: decode_escapes_into_lt)

lemma after_item_lt: "after_item e t s = Inr (b, r) \<Longrightarrow> length r < length s"
  using skip_whitespace_le [of s] skip_whitespace_le [of "tl (skip_whitespace s)"]
  by (auto simp: after_item_def split: list.splits if_splits)


text \<open>
  The cells of one row, from the first cell: the streaming loop calls the visitor on the first
  \<open>exp\<close> of them and counts all; the batch loop pushes them.
\<close>

function scan_row ::
  "(Jsonv2ScanError \<Rightarrow> 'e) \<Rightarrow> ('st \<Rightarrow> nat \<Rightarrow> nat \<Rightarrow> CellSlice \<Rightarrow> 'e + 'st) \<Rightarrow> nat \<Rightarrow> nat \<Rightarrow>
   nat \<Rightarrow> 'st \<Rightarrow> string \<Rightarrow> 'e + nat \<times> 'st \<times> string" where
  "scan_row map_err visit expected row_index col_index st s =
     (case scan_cell s of
        Inl e \<Rightarrow> Inl (map_err e)
      | Inr (cell, r) \<Rightarrow>
          (case (if col_index < expected then visit st row_index col_index cell else Inr st) of
             Inl e \<Rightarrow> Inl e
           | Inr st' \<Rightarrow>
               (case after_cell r of
                  Inl e \<Rightarrow> Inl (map_err e)
                | Inr (True, r') \<Rightarrow> scan_row map_err visit expected row_index (col_index + 1) st' r'
                | Inr (False, r') \<Rightarrow> Inr (col_index + 1, st', r'))))"
  by pat_completeness auto
termination
proof (relation "measure (\<lambda>(_, _, _, _, _, _, s). length s)", goal_cases)
  case (2 map_err visit expected row_index col_index st s cr cell r st' br b r')
  then show ?case using scan_cell_lt [of s cell r] after_item_lt by fastforce
qed simp

function decode_row :: "string \<Rightarrow> Jsonv2ScanError + string option list \<times> string" where
  "decode_row s =
     (case scan_cell s of
        Inl e \<Rightarrow> Inl e
      | Inr (cell, r) \<Rightarrow>
          (case after_cell r of
             Inl e \<Rightarrow> Inl e
           | Inr (True, r') \<Rightarrow>
               (case decode_row r' of
                  Inl e \<Rightarrow> Inl e
                | Inr (row, r'') \<Rightarrow> Inr (cell_as_str cell # row, r''))
           | Inr (False, r') \<Rightarrow> Inr ([cell_as_str cell], r')))"
  by pat_completeness auto
termination
proof (relation "measure length", goal_cases)
  case (2 s cr cell r br b r')
  then show ?case using scan_cell_lt [of s cell r] after_item_lt by fastforce
qed simp

declare scan_row.simps [simp del] decode_row.simps [simp del]

lemma scan_row_lt: "scan_row m v x i j st s = Inr (n, st', r) \<Longrightarrow> length r < length s"
proof (induction m v x i j st s rule: scan_row.induct)
  case (1 m v x i j st s)
  from "1.prems" obtain c t st1 b u where e: "scan_cell s = Inr (c, t)"
    "(if j < x then v st i j c else Inr st) = Inr st1" "after_cell t = Inr (b, u)"
    by (auto simp: scan_row.simps [of _ _ _ _ _ _ s] split: sum.splits)
  note lt = scan_cell_lt [OF e(1)] after_item_lt [OF e(3)]
  show ?case
  proof (cases b)
    case True
    with "1.prems" e have "scan_row m v x i (j + 1) st1 u = Inr (n, st', r)"
      by (simp add: scan_row.simps [of _ _ _ _ _ _ s])
    from "1.IH" [OF e(1) refl e(2,3) refl _ this] True lt show ?thesis by simp
  next
    case False
    with "1.prems" e lt show ?thesis by (simp add: scan_row.simps [of _ _ _ _ _ _ s])
  qed
qed

lemma decode_row_lt: "decode_row s = Inr (row, r) \<Longrightarrow> length r < length s"
proof (induction s arbitrary: row rule: decode_row.induct)
  case (1 s)
  from "1.prems" obtain c t b u where e: "scan_cell s = Inr (c, t)" "after_cell t = Inr (b, u)"
    by (auto simp: decode_row.simps [of s] split: sum.splits)
  note lt = scan_cell_lt [OF e(1)] after_item_lt [OF e(2)]
  show ?case
  proof (cases b)
    case True
    with "1.prems" e obtain row' where "decode_row u = Inr (row', r)"
      by (auto simp: decode_row.simps [of s] split: sum.splits)
    from "1.IH" [OF e(1) refl e(2) refl _ this] True lt show ?thesis by simp
  next
    case False
    with "1.prems" e lt show ?thesis by (simp add: decode_row.simps [of s])
  qed
qed

text \<open>A whole row, from its opening bracket; the streaming one with its width check.\<close>

definition scan_one_row ::
  "(Jsonv2ScanError \<Rightarrow> 'e) \<Rightarrow> ('st \<Rightarrow> nat \<Rightarrow> nat \<Rightarrow> CellSlice \<Rightarrow> 'e + 'st) \<Rightarrow> nat \<Rightarrow> nat \<Rightarrow>
   nat \<Rightarrow> 'st \<Rightarrow> string \<Rightarrow> 'e + 'st \<times> string" where
  "scan_one_row map_err visit partition_index expected row_index st s =
     (if hd s \<noteq> CHR ''['' then Inl (map_err (Decode ''expected '[' at start of jsonv2 row''))
      else
        let s = skip_whitespace (tl s)
        in if s \<noteq> [] \<and> hd s = CHR '']'' then
             if expected \<noteq> 0
             then Inl (map_err (RowWidthMismatch partition_index row_index expected 0))
             else Inr (st, tl s)
           else
             (case scan_row map_err visit expected row_index 0 st s of
                Inl e \<Rightarrow> Inl e
              | Inr (cols, st', r) \<Rightarrow>
                  if cols \<noteq> expected
                  then Inl (map_err (RowWidthMismatch partition_index row_index expected cols))
                  else Inr (st', r)))"

definition decode_one_row :: "string \<Rightarrow> Jsonv2ScanError + string option list \<times> string" where
  "decode_one_row s =
     (if hd s \<noteq> CHR ''['' then Inl (Decode ''expected '[' at start of jsonv2 row'')
      else
        let s = skip_whitespace (tl s)
        in if s \<noteq> [] \<and> hd s = CHR '']'' then Inr ([], tl s) else decode_row s)"

lemma tl_skip_le: "length (tl (skip_whitespace s)) \<le> length s"
  using skip_whitespace_le [of s] by simp

lemma scan_one_row_lt: "s \<noteq> [] \<Longrightarrow> scan_one_row m v p x i st s = Inr (st', r) \<Longrightarrow> length r < length s"
  using skip_whitespace_le [of "tl s"] tl_skip_le [of "tl s"]
  by (cases s) (fastforce simp: scan_one_row_def Let_def split: if_splits sum.splits dest: scan_row_lt)+

lemma decode_one_row_lt: "s \<noteq> [] \<Longrightarrow> decode_one_row s = Inr (row, r) \<Longrightarrow> length r < length s"
  using skip_whitespace_le [of "tl s"] tl_skip_le [of "tl s"]
  by (cases s) (fastforce simp: decode_one_row_def Let_def split: if_splits dest: decode_row_lt)+


section \<open>The row loops\<close>

text \<open>After the outer array: only white space may follow.\<close>

definition at_end :: "string \<Rightarrow> 'a \<Rightarrow> Jsonv2ScanError + 'a" where
  "at_end s x = (if skip_whitespace s \<noteq> [] then Inl (Decode ''trailing bytes after jsonv2 array closure'')
                 else Inr x)"

definition map_error :: "('a \<Rightarrow> 'b) \<Rightarrow> 'a + 'c \<Rightarrow> 'b + 'c" where
  "map_error f x = (case x of Inl e \<Rightarrow> Inl (f e) | Inr v \<Rightarrow> Inr v)"

function scan_rows_loop ::
  "(Jsonv2ScanError \<Rightarrow> 'e) \<Rightarrow> ('st \<Rightarrow> nat \<Rightarrow> nat \<Rightarrow> CellSlice \<Rightarrow> 'e + 'st) \<Rightarrow> nat \<Rightarrow> nat \<Rightarrow>
   nat \<Rightarrow> 'st \<Rightarrow> string \<Rightarrow> 'e + nat \<times> 'st" where
  "scan_rows_loop map_err visit partition_index expected row_index st s =
     (if s = [] then Inl (map_err (Decode ''unexpected EOF: unclosed jsonv2 outer array''))
      else
        case scan_one_row map_err visit partition_index expected row_index st s of
          Inl e \<Rightarrow> Inl e
        | Inr (st', r) \<Rightarrow>
            if row_index + 1 > usize_max then Inl (map_err RowCountOverflow)
            else
              (case after_row r of
                 Inl e \<Rightarrow> Inl (map_err e)
               | Inr (True, r') \<Rightarrow>
                   scan_rows_loop map_err visit partition_index expected (row_index + 1) st' r'
               | Inr (False, r') \<Rightarrow> map_error map_err (at_end r' (row_index + 1, st'))))"
  by pat_completeness auto
termination
proof (relation "measure (\<lambda>(_, _, _, _, _, _, s). length s)", goal_cases)
  case (2 m v p x i st s one st' r br b r')
  from 2(2) [symmetric] 2(3) have "scan_one_row m v p x i st s = Inr (st', r)" by simp
  from scan_one_row_lt [OF 2(1) this] 2 show ?case using after_item_lt by fastforce
qed simp

function decode_rows_loop :: "string option list list \<Rightarrow> string
    \<Rightarrow> Jsonv2ScanError + string option list list" where
  "decode_rows_loop rows s =
     (if s = [] then Inl (Decode ''unexpected EOF: unclosed jsonv2 outer array'')
      else
        case decode_one_row s of
          Inl e \<Rightarrow> Inl e
        | Inr (row, r) \<Rightarrow>
            (case after_row r of
               Inl e \<Rightarrow> Inl e
             | Inr (True, r') \<Rightarrow> decode_rows_loop (rows @ [row]) r'
             | Inr (False, r') \<Rightarrow> at_end r' (rows @ [row])))"
  by pat_completeness auto
termination
proof (relation "measure (\<lambda>(_, s). length s)", goal_cases)
  case (2 rows s one row r br b r')
  from 2(2) [symmetric] 2(3) have "decode_one_row s = Inr (row, r)" by simp
  from decode_one_row_lt [OF 2(1) this] 2 show ?case using after_item_lt by fastforce
qed simp

declare scan_rows_loop.simps [simp del] decode_rows_loop.simps [simp del]

definition scan_rows_with ::
  "(Jsonv2ScanError \<Rightarrow> 'e) \<Rightarrow> ('st \<Rightarrow> nat \<Rightarrow> nat \<Rightarrow> CellSlice \<Rightarrow> 'e + 'st) \<Rightarrow> nat \<Rightarrow> nat \<Rightarrow>
   'st \<Rightarrow> string \<Rightarrow> 'e + nat \<times> 'st" where
  "scan_rows_with map_err visit partition_index expected st bytes =
     (case extract_jsonv2_data_array bytes of
        Inl e \<Rightarrow> Inl (map_err e)
      | Inr b \<Rightarrow>
          (case skip_whitespace b of
             [] \<Rightarrow> Inl (map_err (Decode ''unexpected EOF: expected '[' at start of jsonv2 array''))
           | c # r \<Rightarrow>
               if c \<noteq> CHR ''['' then Inl (map_err (Decode ''expected '[' at start of jsonv2 array''))
               else
                 (case skip_whitespace r of
                    [] \<Rightarrow> Inl (map_err (Decode
                            ''unexpected EOF: unclosed '[' at start of jsonv2 array''))
                  | d # r' \<Rightarrow>
                      if d = CHR '']'' then map_error map_err (at_end r' (0, st))
                      else scan_rows_loop map_err visit partition_index expected 0 st (d # r'))))"

definition decode_partition_rows :: "string \<Rightarrow> Jsonv2ScanError + string option list list" where
  "decode_partition_rows bytes =
     (case extract_jsonv2_data_array bytes of
        Inl e \<Rightarrow> Inl e
      | Inr b \<Rightarrow>
          (case skip_whitespace b of
             [] \<Rightarrow> Inl (Decode ''expected '[' at start of jsonv2 array'')
           | c # r \<Rightarrow>
               if c \<noteq> CHR ''['' then Inl (Decode ''expected '[' at start of jsonv2 array'')
               else
                 (case skip_whitespace r of
                    [] \<Rightarrow> Inl (Decode ''unexpected EOF: unclosed '[' at start of jsonv2 array'')
                  | d # r' \<Rightarrow> if d = CHR '']'' then at_end r' [] else decode_rows_loop [] (d # r'))))"


section \<open>Streaming and batch decoding agree\<close>

text \<open>A visitor run over decoded cells, rows and tables, in the order of the source.\<close>

primrec visit_cells ::
  "('st \<Rightarrow> nat \<Rightarrow> nat \<Rightarrow> string option \<Rightarrow> 'e + 'st) \<Rightarrow> nat \<Rightarrow> nat \<Rightarrow> string option list \<Rightarrow> 'st \<Rightarrow> 'e + 'st" where
  "visit_cells v i j [] st = Inr st"
| "visit_cells v i j (c # cs) st =
     (case v st i j c of Inl e \<Rightarrow> Inl e | Inr st' \<Rightarrow> visit_cells v i (j + 1) cs st')"

primrec visit_table ::
  "('st \<Rightarrow> nat \<Rightarrow> nat \<Rightarrow> string option \<Rightarrow> 'e + 'st) \<Rightarrow> nat \<Rightarrow> string option list list \<Rightarrow> 'st \<Rightarrow> 'e + 'st" where
  "visit_table v i [] st = Inr st"
| "visit_table v i (row # rows) st =
     (case visit_cells v i 0 row st of Inl e \<Rightarrow> Inl e | Inr st' \<Rightarrow> visit_table v (i + 1) rows st')"

abbreviation on_text ::
  "('st \<Rightarrow> nat \<Rightarrow> nat \<Rightarrow> string option \<Rightarrow> 'e + 'st) \<Rightarrow> 'st \<Rightarrow> nat \<Rightarrow> nat \<Rightarrow> CellSlice \<Rightarrow> 'e + 'st" where
  "on_text v \<equiv> \<lambda>st i j c. v st i j (cell_as_str c)"

lemma scan_row_decode:
  "scan_row m (on_text v) x i j st s = Inr (n, st', r) \<longleftrightarrow>
     (\<exists>cs. decode_row s = Inr (cs, r) \<and> n = j + length cs \<and> visit_cells v i j (take (x - j) cs) st = Inr st')"
proof (induction "length s" arbitrary: s j st rule: less_induct)
  case less
  show ?case
  proof (cases "scan_cell s")
    case (Inl e)
    then show ?thesis by (simp add: scan_row.simps [of _ _ _ _ _ _ s] decode_row.simps [of s])
  next
    case (Inr ct)
    then obtain c t where c: "scan_cell s = Inr (c, t)" by (cases ct) auto
    show ?thesis
    proof (cases "after_cell t")
      case (Inl e)
      with c show ?thesis
        by (auto simp: scan_row.simps [of _ _ _ _ _ _ s] decode_row.simps [of s] split: sum.splits)
    next
      case (Inr bu)
      then obtain b u where u: "after_cell t = Inr (b, u)" by (cases bu) auto
      then have lt: "length u < length s" using scan_cell_lt [OF c] after_item_lt [OF u] by simp
      have tk: "take (x - j) (y # ys) = (if j < x then y # take (x - Suc j) ys else [])"
        for y :: "string option" and ys
        by (cases "x - j") (auto simp: Suc_diff_Suc [symmetric])
      show ?thesis
      proof (cases b)
        case True
        have ih: "scan_row m (on_text v) x i (Suc j) st1 u = Inr (n, st', r) \<longleftrightarrow>
          (\<exists>cs. decode_row u = Inr (cs, r) \<and> n = Suc (j + length cs)
            \<and> visit_cells v i (Suc j) (take (x - Suc j) cs) st1 = Inr st')" for st1
          using less [OF lt, of "Suc j" st1] by simp
        from True c u show ?thesis
          by (simp add: scan_row.simps [of _ _ _ _ _ _ s] decode_row.simps [of s] ih tk
              split: sum.split)
      next
        case False
        with c u show ?thesis
          by (auto simp: scan_row.simps [of _ _ _ _ _ _ s] decode_row.simps [of s] tk split: sum.splits)
      qed
    qed
  qed
qed

lemma scan_one_row_decode:
  "scan_one_row m (on_text v) p x i st s = Inr (st', r) \<longleftrightarrow>
     (\<exists>cs. decode_one_row s = Inr (cs, r) \<and> length cs = x \<and> visit_cells v i 0 cs st = Inr st')"
proof -
  have row: "scan_row m (on_text v) x i 0 st t = Inr (x, st', r) \<longleftrightarrow>
     (\<exists>cs. decode_row t = Inr (cs, r) \<and> length cs = x \<and> visit_cells v i 0 cs st = Inr st')" for t
    unfolding scan_row_decode by auto
  show ?thesis
  proof (cases "hd s = CHR ''['' \<and> (skip_whitespace (tl s) = [] \<or> hd (skip_whitespace (tl s)) \<noteq> CHR '']'')")
    case True
    then have "scan_one_row m (on_text v) p x i st s = Inr (st', r) \<longleftrightarrow>
        scan_row m (on_text v) x i 0 st (skip_whitespace (tl s)) = Inr (x, st', r)"
      by (auto simp: scan_one_row_def Let_def split: sum.splits)
    with True show ?thesis by (auto simp: decode_one_row_def row)
  next
    case False
    then show ?thesis by (auto simp: scan_one_row_def decode_one_row_def)
  qed
qed

lemma decode_rows_loop_acc:
  "decode_rows_loop acc s = map_sum id (\<lambda>rows. acc @ rows) (decode_rows_loop [] s)"
proof (induction "length s" arbitrary: s acc rule: less_induct)
  case less
  show ?case
  proof (cases "s = [] \<or> (\<exists>e. decode_one_row s = Inl e)")
    case True
    then show ?thesis by (auto simp: decode_rows_loop.simps [of _ s])
  next
    case False
    then obtain row r where d: "s \<noteq> []" "decode_one_row s = Inr (row, r)"
      by (metis surj_pair sum.exhaust)
    have ih: "decode_rows_loop acc' u = map_sum id (\<lambda>rows. acc' @ rows) (decode_rows_loop [] u)"
      if "after_row r = Inr (b, u)" for b u acc'
      by (rule less) (use decode_one_row_lt [OF d] after_item_lt [OF that] in simp)
    show ?thesis
    proof (cases "after_row r")
      case (Inr bu)
      then obtain b u where u: "after_row r = Inr (b, u)" by (cases bu) auto
      with d ih [OF u, of "acc @ [row]"] ih [OF u, of "[row]"] show ?thesis
        by (cases "decode_rows_loop [] u")
           (auto simp: decode_rows_loop.simps [of _ s] at_end_def split: bool.splits)
    qed (use d in \<open>simp add: decode_rows_loop.simps [of _ s]\<close>)
  qed
qed


lemma scan_rows_loop_decode:
  "i \<le> usize_max \<Longrightarrow>
   scan_rows_loop m (on_text v) p x i st s = Inr (n, st') \<longleftrightarrow>
     (\<exists>rows. decode_rows_loop [] s = Inr rows \<and> list_all (\<lambda>row. length row = x) rows
       \<and> n = i + length rows \<and> n \<le> usize_max \<and> visit_table v i rows st = Inr st')"
proof (induction "length s" arbitrary: s i st rule: less_induct)
  case less
  show ?case
  proof (cases "s = [] \<or> (\<exists>e. decode_one_row s = Inl e)")
    case True
    then have "scan_rows_loop m (on_text v) p x i st s \<noteq> Inr (n, st')"
      by (cases "scan_one_row m (on_text v) p x i st s")
         (auto simp: scan_rows_loop.simps [of _ _ _ _ _ _ s] scan_one_row_decode)
    with True show ?thesis by (auto simp: decode_rows_loop.simps [of _ s])
  next
    case False
    then obtain cs r where d: "s \<noteq> []" "decode_one_row s = Inr (cs, r)"
      by (metis surj_pair sum.exhaust)
    have one: "scan_one_row m (on_text v) p x i st s = Inr (st1, r1) \<longleftrightarrow>
        r1 = r \<and> length cs = x \<and> visit_cells v i 0 cs st = Inr st1" for st1 r1
      unfolding scan_one_row_decode using d(2) by auto
    show ?thesis
    proof (cases "\<exists>st1. length cs = x \<and> visit_cells v i 0 cs st = Inr st1 \<and> i + 1 \<le> usize_max")
      case False
      have "scan_rows_loop m (on_text v) p x i st s \<noteq> Inr (n, st')"
      proof
        assume "scan_rows_loop m (on_text v) p x i st s = Inr (n, st')"
        then obtain st1 r1 where "scan_one_row m (on_text v) p x i st s = Inr (st1, r1)" "i + 1 \<le> usize_max"
          by (auto simp: scan_rows_loop.simps [of _ _ _ _ _ _ s] split: sum.splits if_splits)
        with one [of st1 r1] False show False by blast
      qed
      moreover have "\<not> (list_all (\<lambda>row. length row = x) rows \<and> i + length rows \<le> usize_max
          \<and> visit_table v i rows st = Inr st')" if "decode_rows_loop [] s = Inr rows" for rows
      proof -
        from that d obtain rest where "rows = cs # rest"
          by (auto simp: decode_rows_loop.simps [of _ s] decode_rows_loop_acc [of "[cs]"] at_end_def
              map_sum_Inr split: sum.splits bool.splits if_splits)
        with False show ?thesis by (auto split: sum.splits)
      qed
      ultimately show ?thesis by auto
    next
      case True
      then obtain st1 where t: "length cs = x" "visit_cells v i 0 cs st = Inr st1" "i + 1 \<le> usize_max"
        by auto
      then have o: "scan_one_row m (on_text v) p x i st s = Inr (st1, r)" using one by simp
      show ?thesis
      proof (cases "after_row r")
        case (Inl e)
        with d t o show ?thesis
          by (auto simp: scan_rows_loop.simps [of _ _ _ _ _ _ s] decode_rows_loop.simps [of _ s])
      next
        case (Inr bu)
        then obtain b u where u: "after_row r = Inr (b, u)" by (cases bu) auto
        have lt: "length u < length s" using decode_one_row_lt [OF d] after_item_lt [OF u] by simp
        show ?thesis
        proof (cases b)
          case True
          have ih: "scan_rows_loop m (on_text v) p x (Suc i) st1 u = Inr (n, st') \<longleftrightarrow>
            (\<exists>rows. decode_rows_loop [] u = Inr rows \<and> list_all (\<lambda>row. length row = x) rows
              \<and> n = Suc (i + length rows) \<and> n \<le> usize_max \<and> visit_table v (Suc i) rows st1 = Inr st')"
            using less.hyps [OF lt, of "Suc i" st1] t(3) by simp
          have s1: "scan_rows_loop m (on_text v) p x i st s
              = scan_rows_loop m (on_text v) p x (Suc i) st1 u"
            using True d t o u by (simp add: scan_rows_loop.simps [of _ _ _ _ _ _ s])
          have s2: "decode_rows_loop [] s = map_sum id (\<lambda>rows. cs # rows) (decode_rows_loop [] u)"
            using True d u by (simp add: decode_rows_loop.simps [of _ s] decode_rows_loop_acc [of "[cs]"])
          show ?thesis unfolding s1 s2 ih using t by (cases "decode_rows_loop [] u") auto
        next
          case False
          with d t o u show ?thesis
            by (auto simp: scan_rows_loop.simps [of _ _ _ _ _ _ s] decode_rows_loop.simps [of _ s]
                at_end_def map_error_def)
        qed
      qed
    qed
  qed
qed

text \<open>
  C4. Streaming is batch decoding followed by the visitor: for a visitor that looks at the text of
  a cell, the streaming scan of a partition succeeds exactly when the batch decoder accepts the
  same bytes, every row has the expected width, the row count fits the index type and the visitor
  accepts the cells in row and column order. It then returns the number of rows and the
  visitor's final state.
\<close>

theorem scan_rows_with_decodes:
  "scan_rows_with m (on_text v) p x st bytes = Inr (n, st') \<longleftrightarrow>
     (\<exists>rows. decode_partition_rows bytes = Inr rows \<and> list_all (\<lambda>row. length row = x) rows
       \<and> n = length rows \<and> n \<le> usize_max \<and> visit_table v 0 rows st = Inr st')"
  by (auto simp: scan_rows_with_def decode_partition_rows_def scan_rows_loop_decode at_end_def
      map_error_def split: sum.splits list.splits if_splits)


section \<open>Rendered tables decode to themselves\<close>

text \<open>
  A reference encoder: quotes, backslashes and control characters are escaped, everything else is
  copied.
\<close>

definition hex_digit :: "nat \<Rightarrow> char" where
  "hex_digit d = (if d < 10 then char_of (48 + d) else char_of (87 + d))"

definition plain :: "char \<Rightarrow> bool" where
  "plain c \<longleftrightarrow> c \<noteq> CHR 0x22 \<and> c \<noteq> CHR 0x5C \<and> \<not> code_of c < 32"

definition escape_byte :: "char \<Rightarrow> string" where
  "escape_byte c =
     (if c = CHR 0x22 then [CHR 0x5C, CHR 0x22] else if c = CHR 0x5C then [CHR 0x5C, CHR 0x5C]
      else if code_of c < 32
      then [CHR 0x5C, CHR ''u'', CHR ''0'', CHR ''0'', hex_digit (code_of c div 16), hex_digit (code_of c mod 16)]
      else [c])"

definition render_text :: "string \<Rightarrow> string" where
  "render_text s = concat (map escape_byte s)"

definition render_cell :: "string option \<Rightarrow> string" where
  "render_cell c = (case c of None \<Rightarrow> ''null'' | Some s \<Rightarrow> CHR 0x22 # render_text s @ [CHR 0x22])"

fun comma_join :: "string list \<Rightarrow> string" where
  "comma_join [] = []"
| "comma_join [x] = x"
| "comma_join (x # y # xs) = x @ CHR '','' # comma_join (y # xs)"

definition render_row :: "string option list \<Rightarrow> string" where
  "render_row cs = CHR ''['' # comma_join (map render_cell cs) @ '']''"

definition render_table :: "string option list list \<Rightarrow> string" where
  "render_table rows = CHR ''['' # comma_join (map render_row rows) @ '']''"

definition text_cell :: "string option \<Rightarrow> bool" where
  "text_cell c \<longleftrightarrow> (case c of None \<Rightarrow> True | Some s \<Rightarrow> valid_utf8 s)"

lemma render_text_simps [simp]:
  "render_text [] = []" "render_text (c # s) = escape_byte c @ render_text s"
  by (simp_all add: render_text_def)

lemma escape_plain [simp]: "plain c \<Longrightarrow> escape_byte c = [c]"
  by (simp add: escape_byte_def plain_def)

lemma char_eq_code: "c = d \<longleftrightarrow> code_of c = code_of d"
  by simp

lemma plain_code: "plain c \<longleftrightarrow> code_of c \<noteq> 0x22 \<and> code_of c \<noteq> 0x5C \<and> \<not> code_of c < 32"
  by (simp add: plain_def char_eq_code [of c "CHR 0x22"] char_eq_code [of c "CHR 0x5C"] del: of_char_eq_iff)

lemma code_of_hex_digit: "d < 16 \<Longrightarrow> code_of (hex_digit d) = (if d < 10 then 48 + d else 87 + d)"
  by (simp add: hex_digit_def code_of_char_of)

lemma hex_digit_facts:
  assumes "d < 16"
  shows "hex_value (hex_digit d) = d" "is_ascii_hexdigit (hex_digit d)" "is_ascii (hex_digit d)"
    "plain (hex_digit d)"
  using assms by (simp_all add: hex_value_def byte_class plain_code code_of_hex_digit)

lemma control_escapes:
  assumes "code_of c < 32"
  shows "unicode_escape (CHR ''0'' # CHR ''0'' # hex_digit (code_of c div 16) # hex_digit (code_of c mod 16) # t)
      = Inr ([c], t)"
    and "plain (hex_digit (code_of c div 16))" "plain (hex_digit (code_of c mod 16))"
proof -
  let ?h = "\<lambda>n. [CHR ''0'', CHR ''0'', hex_digit (n div 16), hex_digit (n mod 16)]"
  have lt: "code_of c div 16 < 16" "code_of c mod 16 < 16" using assms by auto
  note hi = hex_digit_facts [OF lt(1)] and lo = hex_digit_facts [OF lt(2)]
  have zero: "hex_value (CHR ''0'') = 0" "is_ascii_hexdigit (CHR ''0'')" "is_ascii (CHR ''0'')"
    by code_simp+
  have h: "valid_utf8 (?h (code_of c))" "encode_utf8 (code_of c) = [c]" "is_scalar (code_of c)"
    using hi(3) lo(3) zero(3) assms by (simp_all add: encode_utf8_def is_scalar_def)
  have p: "parse_hex_u16 (?h (code_of c)) = Some (code_of c)"
    using hi(1,2) lo(1,2) zero(1,2) assms by (simp add: parse_hex_u16_def)
  have cut: "take 4 (?h (code_of c) @ t) = ?h (code_of c)" "drop 4 (?h (code_of c) @ t) = t"
    "\<not> length (?h (code_of c) @ t) < 4" by simp_all
  have "\<not> 0xD800 \<le> code_of c" using assms by simp
  then have "unicode_escape (?h (code_of c) @ t) = Inr ([c], t)"
    unfolding unicode_escape_def cut by (simp only: h p Let_def if_False simp_thms if_True option.case cut)
  then show "unicode_escape (CHR ''0'' # CHR ''0'' # hex_digit (code_of c div 16) # hex_digit (code_of c mod 16) # t)
      = Inr ([c], t)" by simp
  show "plain (hex_digit (code_of c div 16))" "plain (hex_digit (code_of c mod 16))"
    by (fact hi(4) lo(4))+
qed

lemma one_escape_byte: "\<not> plain c \<Longrightarrow> one_escape (escape_byte c @ t) = Inr ([c], t)"
  using control_escapes(1) [of c t]
  by (auto simp: one_escape_def escape_byte_def plain_def simple_escape_def)

lemma escape_special: "\<not> plain c \<Longrightarrow> \<exists>r. escape_byte c = CHR 0x5C # r"
  by (auto simp: escape_byte_def plain_def)

lemma render_text_plain: "list_all plain s \<Longrightarrow> render_text s = s"
  by (induction s) auto

lemma render_text_append: "render_text (s @ t) = render_text s @ render_text t"
  by (induction s) auto

lemma find_plain: "list_all plain s \<Longrightarrow> find_linear s = None"
  by (auto simp: find_linear_None list_all_iff plain_def is_quote_or_escape_def)

lemma find_after_plain:
  "list_all plain s \<Longrightarrow> is_quote_or_escape q \<Longrightarrow> find_quote_or_escape (s @ q # t) = Some (length s)"
  by (simp add: find_quote_or_escape_linear find_linear_append find_plain)

lemma text_split: obtains
  "list_all plain s"
  | p c t where "s = p @ c # t" "list_all plain p" "\<not> plain c"
proof (cases "dropWhile plain s")
  case Nil
  then have "list_all plain s" by (simp add: list_all_iff dropWhile_eq_Nil_conv)
  then show thesis by (rule that(1))
next
  case (Cons c t)
  have "s = takeWhile plain s @ c # t" using takeWhile_dropWhile_id [of plain s] Cons by simp
  moreover have "list_all plain (takeWhile plain s)" by (auto simp: list_all_iff dest: set_takeWhileD)
  moreover have "\<not> plain c" using hd_dropWhile [of plain s] Cons by simp
  ultimately show thesis by (rule that(2))
qed

lemma is_quote_or_escape_simps [simp]: "is_quote_or_escape (CHR 0x22)" "is_quote_or_escape (CHR 0x5C)"
  by (simp_all add: is_quote_or_escape_def)

lemma decode_rendered:
  "\<not> plain c \<Longrightarrow>
   decode_escapes_into (escape_byte c @ render_text s @ CHR 0x22 # rest) acc = Inr (acc @ c # s, rest)"
proof (induction "length s" arbitrary: c s acc rule: less_induct)
  case less
  note one = one_escape_byte [OF less.prems]
  show ?case
  proof (cases rule: text_split [of s])
    case 1
    then show ?thesis
      by (simp add: decode_escapes_into.simps [of "escape_byte c @ _"] one find_after_plain render_text_plain)
  next
    case (2 p c' t)
    then obtain r where r: "escape_byte c' = CHR 0x5C # r" using escape_special by blast
    have "find_quote_or_escape (p @ escape_byte c' @ u) = Some (length p)" for u
      using 2(2) r by (simp add: find_after_plain)
    moreover have "decode_escapes_into (escape_byte c' @ render_text t @ CHR 0x22 # rest) (acc @ c # p)
        = Inr ((acc @ c # p) @ c' # t, rest)"
      using 2 by (intro less.hyps) auto
    ultimately show ?thesis using 2 r
      by (simp add: decode_escapes_into.simps [of "escape_byte c @ _"] one render_text_append
          render_text_plain nth_append)
  qed
qed

lemma scan_rendered_cell:
  assumes "text_cell c"
  obtains cell where "scan_cell (render_cell c @ rest) = Inr (cell, rest)" "cell_as_str cell = c"
proof (cases c)
  case None
  then show thesis by (intro that [of Null]) (simp_all add: scan_cell_def render_cell_def cell_as_str_def)
next
  case (Some s)
  with assms have v: "valid_utf8 s" by (simp add: text_cell_def)
  show thesis
  proof (cases rule: text_split [of s])
    case 1
    with Some v show thesis
      by (intro that [of "Borrowed s"])
         (simp_all add: scan_cell_def render_cell_def cell_as_str_def render_text_plain find_after_plain)
  next
    case (2 p c' t)
    then obtain r where r: "escape_byte c' = CHR 0x5C # r" using escape_special by blast
    have f: "find_quote_or_escape (p @ escape_byte c' @ u) = Some (length p)" for u
      using 2(2) r by (simp add: find_after_plain)
    have n: "(p @ escape_byte c' @ u) ! length p = CHR 0x5C" for u using r by (simp add: nth_append)
    from Some v 2 show thesis
      by (intro that [of "Unescaped s"])
         (simp_all add: scan_cell_def render_cell_def cell_as_str_def render_text_append render_text_plain
           f n decode_rendered)
  qed
qed


lemma skip_ws_id: "s = [] \<or> \<not> json_ws (hd s) \<Longrightarrow> skip_whitespace s = s"
  by (cases s) (auto simp: skip_whitespace_def)

lemma after_item_sep:
  "after_item e t (CHR '','' # s) = Inr (True, skip_whitespace s)"
  "after_item e t (CHR '']'' # s) = Inr (False, s)"
  by (simp_all add: after_item_def skip_whitespace_def json_ws_def)

lemma render_cell_head: "\<exists>c r. render_cell x @ s = c # r \<and> \<not> json_ws c \<and> c \<noteq> CHR '']''"
  by (auto simp: render_cell_def json_ws_def split: option.split)

lemma join_cells_head:
  "\<exists>c r. comma_join (map render_cell (x # xs)) @ s = c # r \<and> \<not> json_ws c \<and> c \<noteq> CHR '']''"
  using render_cell_head [of x] by (cases xs) simp_all

lemma decode_rendered_cells:
  "list_all text_cell (c # cs) \<Longrightarrow>
   decode_row (comma_join (map render_cell (c # cs)) @ CHR '']'' # rest) = Inr (c # cs, rest)"
proof (induction cs arbitrary: c)
  case Nil
  then obtain cell where "scan_cell (render_cell c @ CHR '']'' # rest) = Inr (cell, CHR '']'' # rest)"
    "cell_as_str cell = c" using scan_rendered_cell [of c] by auto
  then show ?case by (simp add: decode_row.simps [of "_ @ _"] after_item_sep)
next
  case (Cons d cs)
  let ?t = "comma_join (map render_cell (d # cs)) @ CHR '']'' # rest"
  obtain cell where cell: "scan_cell (render_cell c @ CHR '','' # ?t) = Inr (cell, CHR '','' # ?t)"
    "cell_as_str cell = c" using Cons.prems scan_rendered_cell [of c] by auto
  have "skip_whitespace ?t = ?t"
    using join_cells_head [of d cs "CHR '']'' # rest"] by (intro skip_ws_id) auto
  moreover have "decode_row ?t = Inr (d # cs, rest)" using Cons by simp
  ultimately show ?case using cell
    by (simp add: decode_row.simps [of "_ @ _ # _"] after_item_sep)
qed

lemma decode_rendered_row:
  assumes "list_all text_cell cs"
  shows "decode_one_row (render_row cs @ rest) = Inr (cs, rest)"
proof (cases cs)
  case Nil
  then show ?thesis by (simp add: decode_one_row_def render_row_def skip_ws_id json_ws_def)
next
  case (Cons c cs')
  let ?t = "comma_join (map render_cell (c # cs')) @ CHR '']'' # rest"
  obtain d r where t: "?t = d # r" "\<not> json_ws d" "d \<noteq> CHR '']''"
    using join_cells_head by meson
  then have "skip_whitespace ?t = ?t" using skip_ws_id [of "d # r"] by simp
  moreover have "decode_row ?t = Inr (cs, rest)" using decode_rendered_cells assms Cons by simp
  ultimately show ?thesis using Cons t by (simp add: decode_one_row_def render_row_def)
qed

lemma decode_rendered_rows:
  "list_all (list_all text_cell) (r # rows) \<Longrightarrow>
   decode_rows_loop [] (comma_join (map render_row (r # rows)) @ '']'') = Inr (r # rows)"
proof (induction rows arbitrary: r)
  case Nil
  then have "decode_one_row (render_row r @ '']'') = Inr (r, '']'')"
    by (intro decode_rendered_row) simp
  moreover have "render_row r @ '']'' \<noteq> []" by simp
  ultimately show ?case
    by (simp add: decode_rows_loop.simps [of _ "_ @ _"] after_item_sep at_end_def skip_whitespace_def)
next
  case (Cons q rows)
  let ?t = "comma_join (map render_row (q # rows)) @ '']''"
  have one: "decode_one_row (render_row r @ CHR '','' # ?t) = Inr (r, CHR '','' # ?t)"
    using Cons.prems by (intro decode_rendered_row) simp
  have "\<exists>u. ?t = CHR ''['' # u" by (cases rows) (auto simp: render_row_def)
  then have "skip_whitespace ?t = ?t" by (auto simp: skip_ws_id json_ws_def)
  moreover have "decode_rows_loop [] ?t = Inr (q # rows)" using Cons by simp
  ultimately show ?case using one
    by (simp add: decode_rows_loop.simps [of _ "_ @ _ # _"] after_item_sep decode_rows_loop_acc [of "[r]"])
qed

lemma decode_rendered_array:
  assumes "list_all (list_all text_cell) rows" and "extract_jsonv2_data_array bytes = Inr (render_table rows)"
  shows "decode_partition_rows bytes = Inr rows"
proof (cases rows)
  case Nil
  with assms(2) show ?thesis
    by (simp add: decode_partition_rows_def render_table_def skip_whitespace_def json_ws_def at_end_def)
next
  case (Cons r rs)
  have "\<exists>u. comma_join (map render_row (r # rs)) @ '']'' = CHR ''['' # u"
    by (cases rs) (auto simp: render_row_def)
  then obtain u where u: "comma_join (map render_row (r # rs)) @ '']'' = CHR ''['' # u" by blast
  with assms decode_rendered_rows [of r rs] Cons show ?thesis
    by (simp add: decode_partition_rows_def render_table_def skip_whitespace_def json_ws_def)
qed


text \<open>Brackets and quotes inside cell text do not end the array early.\<close>

lemma find_linear_plain_Cons:
  "\<not> is_quote_or_escape c \<Longrightarrow> find_quote_or_escape (c # s) = map_option Suc (find_quote_or_escape s)"
  by (simp add: find_quote_or_escape_linear)

lemma skip_string_steps:
  "\<not> is_quote_or_escape c \<Longrightarrow> skip_json_string (c # s) = skip_json_string s"
  "skip_json_string (CHR 0x22 # s) = Some s"
  "skip_json_string (CHR 0x5C # c # s) = skip_json_string s"
proof -
  assume "\<not> is_quote_or_escape c"
  then show "skip_json_string (c # s) = skip_json_string s"
    using find_linear_plain_Cons [of c s] skip_json_string.simps [of "c # s"] skip_json_string.simps [of s]
    by (cases "find_quote_or_escape s") simp_all
qed (simp_all add: skip_json_string.simps [of "_ # _"] find_quote_or_escape_linear)

lemma plain_not_special: "plain c \<Longrightarrow> \<not> is_quote_or_escape c"
  by (simp add: plain_def is_quote_or_escape_def)

lemma skip_escape_byte: "skip_json_string (escape_byte c @ s) = skip_json_string s"
proof (cases "plain c")
  case False
  have "\<not> is_quote_or_escape (CHR ''0'')" by (simp add: is_quote_or_escape_def)
  with False control_escapes(2,3) [of c] show ?thesis
    by (auto simp: escape_byte_def skip_string_steps plain_def [of c] plain_not_special)
qed (simp add: skip_string_steps plain_not_special)

lemma skip_rendered_text: "skip_json_string (render_text t @ CHR 0x22 # s) = Some s"
  by (induction t) (simp_all add: skip_escape_byte skip_string_steps)

lemma skip_array_steps:
  "0 < d \<Longrightarrow> skip_array d (CHR ''['' # s) = skip_array (Suc d) s"
  "0 < d \<Longrightarrow> skip_array d (CHR '']'' # s) = skip_array (d - 1) s"
  "0 < d \<Longrightarrow> skip_array d (CHR '','' # s) = skip_array d s"
  "0 < d \<Longrightarrow> skip_array d (CHR ''n'' # s) = skip_array d s"
  "0 < d \<Longrightarrow> skip_array d (CHR ''u'' # s) = skip_array d s"
  "0 < d \<Longrightarrow> skip_array d (CHR ''l'' # s) = skip_array d s"
  "skip_array 0 s = Inr (0, s)"
  by (simp_all add: skip_array.simps [of _ "_ # _"] skip_array.simps [of 0])

lemma skip_rendered_cell: "0 < d \<Longrightarrow> skip_array d (render_cell c @ s) = skip_array d s"
  by (auto simp: render_cell_def skip_array_steps skip_array.simps [of _ "CHR 0x22 # _"]
      skip_rendered_text split: option.split)

lemma skip_joined:
  assumes "0 < d" and "\<And>x t. x \<in> set xs \<Longrightarrow> skip_array d (x @ t) = skip_array d t"
  shows "skip_array d (comma_join xs @ s) = skip_array d s"
  using assms(2)
proof (induction xs rule: comma_join.induct)
  case (3 x y xs)
  have "skip_array d (comma_join (x # y # xs) @ s)
      = skip_array d (x @ CHR '','' # comma_join (y # xs) @ s)" by simp
  also have "\<dots> = skip_array d (comma_join (y # xs) @ s)"
    using "3.prems" assms(1) by (simp add: skip_array_steps)
  also have "\<dots> = skip_array d s" using 3 by simp
  finally show ?case .
qed simp_all

lemma skip_rendered_row: "0 < d \<Longrightarrow> skip_array d (render_row cs @ s) = skip_array d s"
  by (simp add: render_row_def skip_array_steps)
     (subst skip_joined, auto simp: skip_rendered_cell skip_array_steps)

lemma skip_rendered_rows: "skip_array 1 (comma_join (map render_row rows) @ CHR '']'' # s) = Inr (0, s)"
  by (subst skip_joined) (auto simp: skip_rendered_row skip_array_steps)

lemma envelope_of_rendered:
  assumes "c = CHR '','' \<or> c = CHR ''}''"
  shows "envelope_array (render_table rows @ c # s) = Inr (render_table rows)"
proof -
  have "skip_whitespace (c # s) = c # s" using assms by (auto simp: skip_ws_id json_ws_def)
  with assms skip_rendered_rows [of rows "c # s"] show ?thesis
    by (auto simp: envelope_array_def render_table_def)
qed

definition data_key :: string where
  "data_key = [CHR ''{'', CHR 0x22, CHR ''d'', CHR ''a'', CHR ''t'', CHR ''a'', CHR 0x22, CHR '':'']"

lemma extract_envelope:
  assumes "c = CHR '','' \<or> c = CHR ''}''"
  shows "extract_jsonv2_data_array (data_key @ render_table rows @ c # s) = Inr (render_table rows)"
proof -
  let ?r = "''data'' @ CHR 0x22 # CHR '':'' # render_table rows @ c # s"
  have skip: "skip_json_string ?r = Some (CHR '':'' # render_table rows @ c # s)"
    by (simp add: skip_string_steps is_quote_or_escape_def)
  have ws: "skip_whitespace (x # u) = x # u" if "x \<in> {CHR ''{'', CHR 0x22, CHR '':'', CHR ''[''}" for x u
    using that by (auto simp: skip_ws_id json_ws_def)
  have tbl: "skip_whitespace (render_table rows @ c # s) = render_table rows @ c # s"
    by (simp add: render_table_def ws)
  have "scan_envelope 1 (CHR 0x22 # ?r) = envelope_array (render_table rows @ c # s)"
    using skip by (subst scan_envelope.simps) (simp add: ws tbl)
  with envelope_of_rendered [OF assms] show ?thesis
    by (simp add: extract_jsonv2_data_array_def data_key_def ws)
qed

text \<open>
  C36. A rendered table decodes to itself: escaping every quote, backslash and control byte and
  writing the table as a JSON array of arrays of strings and nulls, bare or as the \<open>data\<close> member
  of a response object with anything after it, gives bytes from which the batch decoder
  reads the same rows, for all tables whose cells are valid UTF-8.
\<close>

theorem rendered_table_decodes:
  assumes "list_all (list_all text_cell) rows"
  shows "decode_partition_rows (render_table rows) = Inr rows
    \<and> decode_partition_rows (data_key @ render_table rows @ CHR ''}'' # []) = Inr rows
    \<and> decode_partition_rows (data_key @ render_table rows @ CHR '','' # more) = Inr rows"
proof -
  have "extract_jsonv2_data_array (render_table rows) = Inr (render_table rows)"
    by (simp add: extract_jsonv2_data_array_def render_table_def skip_ws_id json_ws_def)
  then show ?thesis using decode_rendered_array [OF assms] extract_envelope by simp
qed

lemma rendered_table_decodes_witness:
  "decode_partition_rows (render_table [[Some [CHR ''a'', CHR 0x22, CHR '']''], None]]) =
   Inr [[Some [CHR ''a'', CHR 0x22, CHR '']''], None]]"
  using rendered_table_decodes [of "[[Some [CHR ''a'', CHR 0x22, CHR '']''], None]]"]
  by (simp add: text_cell_def is_ascii_def)


section \<open>Delimiters, cells and a lenient escape\<close>

text \<open>
  The word-at-a-time search of the scanner, which tests eight bytes at once with wrapping
  64-bit arithmetic, returns the position of the first quote or backslash, as the byte loop
  does; no delimiter is missed.
\<close>

theorem word_search_finds_first_delimiter:
  "find_quote_or_escape s = (let n = length (takeWhile (\<lambda>b. \<not> is_quote_or_escape b) s)
                             in if n < length s then Some n else None)"
  unfolding find_quote_or_escape_linear by (induction s) (auto simp: Let_def)

lemma decode_row_texts: "decode_row s = Inr (row, r) \<Longrightarrow> list_all text_cell row"
proof (induction s arbitrary: row rule: decode_row.induct)
  case (1 s)
  from "1.prems" obtain c t b u where e: "scan_cell s = Inr (c, t)" "after_cell t = Inr (b, u)"
    by (auto simp: decode_row.simps [of s] split: sum.splits)
  then have c: "text_cell (cell_as_str c)"
    by (auto simp: scan_cell_def text_cell_def cell_as_str_def split: list.splits if_splits option.splits sum.splits)
  show ?case
  proof (cases b)
    case True
    with "1.prems" e obtain row' where r: "decode_row u = Inr (row', r)" "row = cell_as_str c # row'"
      by (auto simp: decode_row.simps [of s] split: sum.splits)
    from "1.IH" [OF e(1) refl e(2) refl _ r(1)] True r(2) c show ?thesis by simp
  next
    case False
    with "1.prems" e c show ?thesis by (auto simp: decode_row.simps [of s])
  qed
qed

lemma decode_rows_texts:
  "decode_rows_loop acc s = Inr rows \<Longrightarrow> list_all (list_all text_cell) acc \<Longrightarrow> list_all (list_all text_cell) rows"
proof (induction acc s rule: decode_rows_loop.induct)
  case (1 acc s)
  from "1.prems"(1) obtain row r b u where d: "s \<noteq> []" "decode_one_row s = Inr (row, r)" "after_row r = Inr (b, u)"
    by (auto simp: decode_rows_loop.simps [of _ s] split: if_splits sum.splits)
  then have row: "list_all text_cell row"
    by (auto simp: decode_one_row_def Let_def split: if_splits dest: decode_row_texts)
  show ?case
  proof (cases b)
    case True
    with "1.prems"(1) d have "decode_rows_loop (acc @ [row]) u = Inr rows"
      by (simp add: decode_rows_loop.simps [of _ s])
    from "1.IH" [OF d(1,2) refl d(3) refl _ this] True row "1.prems"(2) show ?thesis by simp
  next
    case False
    with "1.prems" d row show ?thesis
      by (auto simp: decode_rows_loop.simps [of _ s] at_end_def split: if_splits)
  qed
qed

text \<open>
  Every cell the batch decoder returns is null or valid UTF-8, whatever the bytes it was
  given: the strings built from checked slices and from the scratch buffer are always
  strings.
\<close>

theorem decoded_cells_are_utf8:
  assumes "decode_partition_rows bytes = Inr rows"
  shows "list_all (list_all text_cell) rows"
  using assms
  by (auto simp: decode_partition_rows_def at_end_def split: sum.splits list.splits if_splits
      dest: decode_rows_texts)

lemma decoded_cells_are_utf8_witness:
  "decode_partition_rows ''[[null],[null]]'' = Inr [[None], [None]] \<and> list_all (list_all text_cell) [[None], [None]]"
proof
  show d: "decode_partition_rows ''[[null],[null]]'' = Inr [[None], [None]]" by code_simp
  show "list_all (list_all text_cell) [[None], [None]]" by (rule decoded_cells_are_utf8 [OF d])
qed

text \<open>
  The escape decoder accepts a plus sign among the four hexadecimal digits, because the
  number parser it calls takes an optional sign: the bytes \<open>\u+041\<close> decode to \<open>A\<close>, and no JSON
  text has this escape.
\<close>

theorem signed_unicode_escape_accepted:
  "one_escape ([CHR 0x5C, CHR ''u'', CHR ''+'', CHR ''0'', CHR ''4'', CHR ''1''] @ rest) = Inr (''A'', rest)"
proof -
  have "parse_hex_u16 [CHR ''+'', CHR ''0'', CHR ''4'', CHR ''1''] = Some 0x41"
    by (simp add: parse_hex_u16_def hex_value_def byte_class)
  moreover have "valid_utf8 [CHR ''+'', CHR ''0'', CHR ''4'', CHR ''1'']"
    by (simp add: is_ascii_def)
  moreover have "is_scalar 0x41" by (simp add: is_scalar_def)
  moreover have "encode_utf8 0x41 = ''A''" by (simp add: encode_utf8_def char_of_def bit_iff_odd)
  ultimately show ?thesis by (simp add: one_escape_def unicode_escape_def)
qed

end
