(* ===== verification/Lifecycle.thy ===== *)
theory Lifecycle
  imports Registry Jsonv2Scanner
begin

text \<open>
  The statement lifecycle, \<^verbatim>\<open>crates/franken-snowflake-sqlapi/src/lifecycle.rs\<close>: the poll plan and the
  credit cap, and the machine that is fed one response at a time (submit, poll, partition) and
  says what to do next, with the response bodies of \<^verbatim>\<open>response.rs\<close>.

  The JSON parsers of \<^verbatim>\<open>serde_json\<close> are outside the source: a record of three decoders is the
  argument of the handlers. A \<^verbatim>\<open>Duration\<close> is a number of nanoseconds. A handler returns its result
  and the machine after it, so every early return of the source says which phase it leaves. The
  text of an error message is left out; its class is the result.

  Lemmas: a completed statement has the row count the server announced; a terminal machine stays
  terminal; polling ends within the quota; the assembly invariant of every reachable machine;
  streaming hands out the rows the whole-result run returns; the credit cap's time bound is
  sound.
\<close>

section \<open>The credit cap\<close>

type_synonym Duration = nat

definition as_millis :: "Duration \<Rightarrow> nat" where "as_millis d = d div 1000000"
definition from_millis :: "nat \<Rightarrow> Duration" where "from_millis ms = ms * 1000000"

definition MIN_POLL_INTERVAL :: Duration where "MIN_POLL_INTERVAL = from_millis 50"
definition RESUME_BILLING_MINIMUM :: Duration where "RESUME_BILLING_MINIMUM = from_millis 60000"

record CostQuota =
  microcredits_per_hour :: nat
  max_microcredits :: nat
  resumes_warehouse :: bool

definition time_bound :: "CostQuota \<Rightarrow> Duration option" where
  "time_bound self =
     (if microcredits_per_hour self = 0 then None
      else let millis = max_microcredits self * 3600000 div microcredits_per_hour self
           in Some (from_millis (if millis \<le> u64_max then millis else u64_max)))"

definition estimate :: "CostQuota \<Rightarrow> Duration \<Rightarrow> nat" where
  "estimate self execution =
     (let billed = (if resumes_warehouse self then max execution RESUME_BILLING_MINIMUM else execution);
          micro = microcredits_per_hour self * as_millis billed div 3600000
      in if micro \<le> u64_max then micro else u64_max)"

definition below_resume_minimum :: "CostQuota \<Rightarrow> bool" where
  "below_resume_minimum self \<longleftrightarrow> resumes_warehouse self \<and> estimate self 0 > max_microcredits self"

text \<open>
  The credit cap is respected by its time bound: a statement that runs no longer than the
  bound, and is not refused because resuming the warehouse alone would exceed the cap, has an
  estimate within the cap, the resume minimum included.
\<close>

theorem time_bound_respects_cap:
  assumes "case time_bound q of None \<Rightarrow> True | Some b \<Rightarrow> t \<le> b" and "\<not> below_resume_minimum q"
  shows "estimate q t \<le> max_microcredits q"
proof -
  have run: "microcredits_per_hour q * as_millis t div 3600000 \<le> max_microcredits q"
  proof (cases "microcredits_per_hour q = 0")
    case False
    define m where "m = max_microcredits q * 3600000 div microcredits_per_hour q"
    from False assms(1) have "t \<le> from_millis m"
      by (auto simp: time_bound_def Let_def m_def from_millis_def split: if_splits)
    then have "as_millis t \<le> m"
      unfolding as_millis_def from_millis_def using div_le_mono [of t "m * 1000000" 1000000] by simp
    then have "microcredits_per_hour q * as_millis t \<le> microcredits_per_hour q * m" by simp
    also have "\<dots> \<le> max_microcredits q * 3600000" unfolding m_def by simp
    finally show ?thesis
      using div_le_mono [of _ "max_microcredits q * 3600000" 3600000] by fastforce
  qed simp
  show ?thesis
  proof (cases "resumes_warehouse q \<and> t \<le> RESUME_BILLING_MINIMUM")
    case True
    then have "estimate q t = estimate q 0" by (simp add: estimate_def max_def)
    with assms(2) True show ?thesis by (simp add: below_resume_minimum_def)
  next
    case False
    then have "estimate q t \<le> microcredits_per_hour q * as_millis t div 3600000"
      by (auto simp: estimate_def Let_def max_def)
    with run show ?thesis by simp
  qed
qed

lemma time_bound_respects_cap_witness:
  "estimate \<lparr>microcredits_per_hour = 1000000, max_microcredits = 20000, resumes_warehouse = True\<rparr> (from_millis 72000)
     \<le> 20000"
  using time_bound_respects_cap [where t = "from_millis 72000" and
      q = "\<lparr>microcredits_per_hour = 1000000, max_microcredits = 20000, resumes_warehouse = True\<rparr>"]
  by (simp add: time_bound_def below_resume_minimum_def estimate_def as_millis_def from_millis_def
      RESUME_BILLING_MINIMUM_def u64_max_def)

section \<open>The poll plan\<close>

record PollPlan =
  max_polls :: nat
  poll_interval :: Duration
  partition_concurrency :: nat
  row_cap :: "nat option"
  execution_timeout :: "Duration option"
  cost_quota :: "CostQuota option"

definition DEFAULT_PARTITION_CONCURRENCY :: nat where "DEFAULT_PARTITION_CONCURRENCY = 4"
definition MAX_PARTITION_CONCURRENCY :: nat where "MAX_PARTITION_CONCURRENCY = 16"

definition default_poll_plan :: PollPlan where
  "default_poll_plan = \<lparr>max_polls = 120, poll_interval = from_millis 1000,
     partition_concurrency = DEFAULT_PARTITION_CONCURRENCY, row_cap = None, execution_timeout = None,
     cost_quota = None\<rparr>"

definition with_max_polls :: "nat \<Rightarrow> PollPlan" where
  "with_max_polls n = default_poll_plan\<lparr>max_polls := max n 1\<rparr>"

definition with_poll_interval :: "PollPlan \<Rightarrow> Duration \<Rightarrow> PollPlan" where
  "with_poll_interval self d = self\<lparr>poll_interval := max d MIN_POLL_INTERVAL\<rparr>"

definition effective_poll_interval :: "PollPlan \<Rightarrow> Duration" where
  "effective_poll_interval self = max (poll_interval self) MIN_POLL_INTERVAL"

definition clamp :: "nat \<Rightarrow> nat \<Rightarrow> nat \<Rightarrow> nat" where
  "clamp lo hi n = (if n < lo then lo else if n > hi then hi else n)"

definition with_partition_concurrency :: "PollPlan \<Rightarrow> nat \<Rightarrow> PollPlan" where
  "with_partition_concurrency self n =
     self\<lparr>partition_concurrency := clamp 1 MAX_PARTITION_CONCURRENCY n\<rparr>"

definition with_row_cap :: "PollPlan \<Rightarrow> nat option \<Rightarrow> PollPlan" where
  "with_row_cap self r = self\<lparr>row_cap := r\<rparr>"

definition with_execution_timeout :: "PollPlan \<Rightarrow> Duration option \<Rightarrow> PollPlan" where
  "with_execution_timeout self t = self\<lparr>execution_timeout := t\<rparr>"

definition with_cost_quota :: "PollPlan \<Rightarrow> CostQuota option \<Rightarrow> PollPlan" where
  "with_cost_quota self q = self\<lparr>cost_quota := q\<rparr>"

definition effective_partition_concurrency :: "PollPlan \<Rightarrow> nat" where
  "effective_partition_concurrency self = clamp 1 MAX_PARTITION_CONCURRENCY (partition_concurrency self)"

section \<open>Response bodies\<close>

type_synonym StatementHandle = string

record ColumnType =
  ct_name :: string
  ct_column_type :: string
  ct_scale :: "int option"
  ct_precision :: "int option"
  ct_nullable :: bool
  ct_length :: "int option"
  ct_byte_length :: "int option"
  ct_database :: "string option"
  ct_schema :: "string option"
  ct_table :: "string option"
  ct_collation :: "string option"

record PartitionInfo =
  row_count :: int
  compressed_size :: "int option"
  uncompressed_size :: "int option"

record ResultSetMetaData =
  num_rows :: int
  rs_format :: string
  row_type :: "ColumnType list"
  partition_info :: "PartitionInfo list"

type_synonym Row = "string option list"

record 'v ResultSet =
  meta_data :: ResultSetMetaData
  rs_data :: "Row list"
  rs_code :: string
  rs_statement_handle :: StatementHandle
  rs_statement_status_url :: "string option"
  statement_handles :: "StatementHandle list option"
  rs_sql_state :: "string option"
  rs_message :: "string option"
  rs_request_id :: "string option"
  created_on :: "int option"
  rs_stats :: "'v option"

record QueryStatus =
  qs_code :: string
  qs_sql_state :: "string option"
  qs_message :: "string option"
  qs_statement_handle :: StatementHandle
  qs_statement_status_url :: "string option"

record QueryFailureStatus =
  qf_code :: string
  qf_sql_state :: "string option"
  qf_message :: string
  qf_statement_handle :: "StatementHandle option"

definition total_rows :: "'v ResultSet \<Rightarrow> int" where
  "total_rows self = num_rows (meta_data self)"

definition partition_count :: "'v ResultSet \<Rightarrow> nat" where
  "partition_count self = max (length (partition_info (meta_data self))) 1"

definition is_multi_statement :: "'v ResultSet \<Rightarrow> bool" where
  "is_multi_statement self \<longleftrightarrow>
     (case statement_handles self of None \<Rightarrow> False | Some handles \<Rightarrow> handles \<noteq> [])"

text \<open>The parsers of the three bodies (\<^verbatim>\<open>serde_json::from_slice\<close>).\<close>

record 'v Decoders =
  result_set_of :: "string \<Rightarrow> 'v ResultSet option"
  query_status_of :: "string \<Rightarrow> QueryStatus option"
  failure_of :: "string \<Rightarrow> QueryFailureStatus option"

section \<open>The machine\<close>

datatype LifecycleErrorCode =
  DecodeFailed | UnexpectedStatus | PollQuotaExhausted | PartitionRowMismatch | ResultTooLarge

definition into_snowflake_error :: "LifecycleErrorCode \<Rightarrow> string \<Rightarrow> SnowflakeError" where
  "into_snowflake_error code message =
     new_error (case code of
         PollQuotaExhausted \<Rightarrow> SnowflakeErrorCode.RetryBudgetExhausted
       | _ \<Rightarrow> SnowflakeErrorCode.UpstreamError) message"

definition RESULT_SET_TOO_LARGE :: string where "RESULT_SET_TOO_LARGE = ''391908''"

record 'v CompletedStatement =
  cs_statement_handle :: StatementHandle
  cs_result_set :: "'v ResultSet"
  cs_rows :: "Row list"
  cs_raw_partitions :: "string list"
  fetched_partitions :: nat
  total_partitions :: nat

definition is_partial :: "'v CompletedStatement \<Rightarrow> bool" where
  "is_partial self \<longleftrightarrow> fetched_partitions self < total_partitions self"

definition raw_partition_slices :: "'v CompletedStatement \<Rightarrow> (nat \<times> string) list" where
  "raw_partition_slices self =
     map (\<lambda>(idx, bytes). (min idx u32_max, bytes))
       (zip [0..<length (cs_raw_partitions self)] (cs_raw_partitions self))"

datatype 'v Progress =
  PollAgain StatementHandle
  | FetchPartition StatementHandle nat
  | Complete "'v CompletedStatement"
  | TimedOut QueryFailureStatus
  | Failed QueryFailureStatus

record 'v Assembly =
  as_result_set :: "'v ResultSet"
  as_handle :: StatementHandle
  as_total :: nat
  as_next :: nat
  as_rows :: "Row list"
  as_raw_partitions :: "string list"

datatype 'v Phase = Pending | Assembling "'v Assembly" | Done

record 'v StatementMachine =
  poll_plan :: PollPlan
  polls_done :: nat
  phase :: "'v Phase"
  drained_rows :: nat

definition new_machine :: "PollPlan \<Rightarrow> 'v StatementMachine" where
  "new_machine plan = \<lparr>poll_plan = plan, polls_done = 0, phase = Pending, drained_rows = 0\<rparr>"

definition drain_rows :: "'v StatementMachine \<Rightarrow> Row list \<times> 'v StatementMachine" where
  "drain_rows self =
     (case phase self of
        Assembling a \<Rightarrow>
          (as_rows a,
           self\<lparr>phase := Assembling (a\<lparr>as_rows := [], as_raw_partitions := []\<rparr>),
                drained_rows := sat_add usize_max (drained_rows self) (length (as_rows a))\<rparr>)
      | _ \<Rightarrow> ([], self))"

definition drain_raw_partitions :: "'v StatementMachine \<Rightarrow> string list \<times> 'v StatementMachine" where
  "drain_raw_partitions self =
     (case phase self of
        Assembling a \<Rightarrow>
          (as_raw_partitions a, self\<lparr>phase := Assembling (a\<lparr>as_raw_partitions := []\<rparr>)\<rparr>)
      | _ \<Rightarrow> ([], self))"

definition machine_result_set :: "'v StatementMachine \<Rightarrow> 'v ResultSet option" where
  "machine_result_set self = (case phase self of Assembling a \<Rightarrow> Some (as_result_set a) | _ \<Rightarrow> None)"

definition assembling_window :: "'v StatementMachine \<Rightarrow> (nat \<times> nat) option" where
  "assembling_window self = (case phase self of Assembling a \<Rightarrow> Some (as_next a, as_total a) | _ \<Rightarrow> None)"

definition rows_assembled :: "'v StatementMachine \<Rightarrow> nat" where
  "rows_assembled self =
     (case phase self of Assembling a \<Rightarrow> sat_add usize_max (drained_rows self) (length (as_rows a)) | _ \<Rightarrow> 0)"

definition complete_early ::
  "'v StatementMachine \<Rightarrow> (LifecycleErrorCode + 'v CompletedStatement) \<times> 'v StatementMachine" where
  "complete_early self =
     (case phase self of
        Assembling a \<Rightarrow>
          (Inr \<lparr>cs_statement_handle = as_handle a, cs_result_set = as_result_set a, cs_rows = as_rows a,
                cs_raw_partitions = as_raw_partitions a, fetched_partitions = as_next a,
                total_partitions = as_total a\<rparr>, self\<lparr>phase := Done\<rparr>)
      | _ \<Rightarrow> (Inl UnexpectedStatus, self\<lparr>phase := Done\<rparr>))"

definition partition_total :: "'v ResultSet \<Rightarrow> nat" where
  "partition_total rs = min (max (length (partition_info (meta_data rs))) 1) u32_max"

definition parse_partition_rows :: "string \<Rightarrow> LifecycleErrorCode + Row list" where
  "parse_partition_rows body = map_error (\<lambda>_. DecodeFailed) (decode_partition_rows body)"

text \<open>\<^verbatim>\<open>i64::try_from(actual).ok() != Some(expected)\<close>\<close>

definition row_count_differs :: "nat \<Rightarrow> int \<Rightarrow> bool" where
  "row_count_differs actual expected \<longleftrightarrow> \<not> (int actual \<le> i64_max \<and> int actual = expected)"

definition validate_partition_row_count ::
  "'v ResultSet \<Rightarrow> nat \<Rightarrow> nat \<Rightarrow> LifecycleErrorCode + unit" where
  "validate_partition_row_count rs part actual_rows =
     (if length (partition_info (meta_data rs)) \<le> part then Inr ()
      else
        let expected = row_count (partition_info (meta_data rs) ! part)
        in if expected < 0 then Inl PartitionRowMismatch
           else if row_count_differs actual_rows expected then Inl PartitionRowMismatch
           else Inr ())"

definition validate_total_row_count :: "nat \<Rightarrow> int \<Rightarrow> LifecycleErrorCode + unit" where
  "validate_total_row_count actual_rows expected =
     (if expected < 0 then Inl PartitionRowMismatch
      else if row_count_differs actual_rows expected then Inl PartitionRowMismatch
      else Inr ())"

section \<open>The handlers\<close>

definition inline_raw :: "string \<Rightarrow> string" where
  "inline_raw body = (case extract_jsonv2_data_array body of Inl e \<Rightarrow> [] | Inr raw \<Rightarrow> raw)"

definition enter_terminal_timeout ::
  "QueryFailureStatus \<Rightarrow> 'v StatementMachine \<Rightarrow> (LifecycleErrorCode + 'v Progress) \<times> 'v StatementMachine" where
  "enter_terminal_timeout failure self = (Inr (TimedOut failure), self\<lparr>phase := Done\<rparr>)"

definition enter_terminal_failure ::
  "QueryFailureStatus \<Rightarrow> 'v StatementMachine \<Rightarrow> (LifecycleErrorCode + 'v Progress) \<times> 'v StatementMachine" where
  "enter_terminal_failure failure self = (Inr (Failed failure), self\<lparr>phase := Done\<rparr>)"

definition enter_terminal_result ::
  "'v ResultSet \<Rightarrow> string \<Rightarrow> 'v StatementMachine
   \<Rightarrow> (LifecycleErrorCode + 'v Progress) \<times> 'v StatementMachine" where
  "enter_terminal_result rs inline_raw_partition self =
     (if rs_code rs = RESULT_SET_TOO_LARGE then (Inl ResultTooLarge, self)
      else
        let handle = rs_statement_handle rs;
            raw_partitions = (if inline_raw_partition = [] then [] else [inline_raw_partition]);
            done = self\<lparr>phase := Done\<rparr>;
            completed = \<lparr>cs_statement_handle = handle, cs_result_set = rs, cs_rows = rs_data rs,
              cs_raw_partitions = raw_partitions, fetched_partitions = 1, total_partitions = 1\<rparr>
        in if is_multi_statement rs then (Inr (Complete completed), done)
           else
             let total = partition_total rs
             in case validate_partition_row_count rs 0 (length (rs_data rs)) of
                  Inl e \<Rightarrow> (Inl e, self)
                | Inr _ \<Rightarrow>
                    if total \<le> 1 then
                      (case validate_total_row_count (length (rs_data rs)) (num_rows (meta_data rs)) of
                         Inl e \<Rightarrow> (Inl e, done)
                       | Inr _ \<Rightarrow> (Inr (Complete completed), done))
                    else
                      (Inr (FetchPartition handle 1),
                       self\<lparr>phase := Assembling
                         \<lparr>as_result_set = rs, as_handle = handle, as_total = total, as_next = 1,
                          as_rows = rs_data rs, as_raw_partitions = raw_partitions\<rparr>\<rparr>))"

definition on_submit ::
  "'v Decoders \<Rightarrow> ResponseClass \<Rightarrow> string \<Rightarrow> 'v StatementMachine
   \<Rightarrow> (LifecycleErrorCode + 'v Progress) \<times> 'v StatementMachine" where
  "on_submit D class body self =
     (if phase self = Done then (Inl UnexpectedStatus, self)
      else case class of
        Completed \<Rightarrow>
          (case result_set_of D body of
             None \<Rightarrow> (Inl DecodeFailed, self)
           | Some rs \<Rightarrow> enter_terminal_result rs (inline_raw body) self)
      | Running \<Rightarrow>
          (case query_status_of D body of
             None \<Rightarrow> (Inl DecodeFailed, self)
           | Some status \<Rightarrow> (Inr (PollAgain (qs_statement_handle status)), self))
      | ResponseClass.StatementTimeout \<Rightarrow>
          (case failure_of D body of
             None \<Rightarrow> (Inl DecodeFailed, self) | Some f \<Rightarrow> enter_terminal_timeout f self)
      | ResponseClass.StatementFailed \<Rightarrow>
          (case failure_of D body of
             None \<Rightarrow> (Inl DecodeFailed, self) | Some f \<Rightarrow> enter_terminal_failure f self)
      | _ \<Rightarrow> (Inl UnexpectedStatus, self))"

definition on_poll ::
  "'v Decoders \<Rightarrow> ResponseClass \<Rightarrow> string \<Rightarrow> 'v StatementMachine
   \<Rightarrow> (LifecycleErrorCode + 'v Progress) \<times> 'v StatementMachine" where
  "on_poll D class body self0 =
     (if phase self0 = Done then (Inl UnexpectedStatus, self0)
      else
        let self = self0\<lparr>polls_done := sat_add u32_max (polls_done self0) 1\<rparr>;
            still_running =
              (if polls_done self > max_polls (poll_plan self) then (Inl PollQuotaExhausted, self)
               else case query_status_of D body of
                 None \<Rightarrow> (Inl DecodeFailed, self)
               | Some status \<Rightarrow> (Inr (PollAgain (qs_statement_handle status)), self))
        in case class of
          Completed \<Rightarrow>
            (case result_set_of D body of
               None \<Rightarrow> (Inl DecodeFailed, self)
             | Some rs \<Rightarrow> enter_terminal_result rs (inline_raw body) self)
        | ResponseClass.StatementTimeout \<Rightarrow>
            (case failure_of D body of
               None \<Rightarrow> (Inl DecodeFailed, self) | Some f \<Rightarrow> enter_terminal_timeout f self)
        | ResponseClass.StatementFailed \<Rightarrow>
            (case failure_of D body of
               None \<Rightarrow> (Inl DecodeFailed, self) | Some f \<Rightarrow> enter_terminal_failure f self)
        | Running \<Rightarrow> still_running
        | ResponseClass.RateLimited \<Rightarrow> still_running
        | Other _ \<Rightarrow> (Inl UnexpectedStatus, self))"

definition on_partition ::
  "ResponseClass \<Rightarrow> nat \<Rightarrow> string \<Rightarrow> 'v StatementMachine
   \<Rightarrow> (LifecycleErrorCode + 'v Progress) \<times> 'v StatementMachine" where
  "on_partition class part body self =
     (let done = self\<lparr>phase := Done\<rparr>
      in if class \<noteq> Completed then (Inl UnexpectedStatus, done)
         else case phase self of
           Assembling a \<Rightarrow>
             if part \<noteq> as_next a then (Inl UnexpectedStatus, self)
             else
               (case extract_jsonv2_data_array body of
                  Inl e \<Rightarrow> (Inl DecodeFailed, done)
                | Inr raw_slice \<Rightarrow>
                    (case parse_partition_rows raw_slice of
                       Inl e \<Rightarrow> (Inl e, done)
                     | Inr partition_rows \<Rightarrow>
                         (case validate_partition_row_count (as_result_set a) part
                                 (length partition_rows) of
                            Inl e \<Rightarrow> (Inl e, done)
                          | Inr _ \<Rightarrow>
                              let raw_partitions = as_raw_partitions a @ [raw_slice];
                                  rows = as_rows a @ partition_rows;
                                  upcoming = sat_add u32_max (as_next a) 1
                              in if upcoming \<ge> as_total a then
                                   (case validate_total_row_count
                                           (sat_add usize_max (drained_rows self) (length rows))
                                           (num_rows (meta_data (as_result_set a))) of
                                      Inl e \<Rightarrow> (Inl e, done)
                                    | Inr _ \<Rightarrow>
                                        (Inr (Complete
                                           \<lparr>cs_statement_handle = as_handle a,
                                            cs_result_set = as_result_set a, cs_rows = rows,
                                            cs_raw_partitions = raw_partitions,
                                            fetched_partitions = as_total a,
                                            total_partitions = as_total a\<rparr>), done))
                                 else
                                   (Inr (FetchPartition (as_handle a) upcoming),
                                    self\<lparr>phase := Assembling
                                      (a\<lparr>as_next := upcoming, as_rows := rows,
                                         as_raw_partitions := raw_partitions\<rparr>)\<rparr>))))
         | _ \<Rightarrow> (Inl UnexpectedStatus, done))"


section \<open>One response at a time\<close>

datatype Response =
  Submit ResponseClass string
  | Poll ResponseClass string
  | PartitionResponse ResponseClass nat string

definition handle ::
  "'v Decoders \<Rightarrow> Response \<Rightarrow> 'v StatementMachine \<Rightarrow> (LifecycleErrorCode + 'v Progress) \<times> 'v StatementMachine" where
  "handle D r m =
     (case r of Submit c b \<Rightarrow> on_submit D c b m | Poll c b \<Rightarrow> on_poll D c b m
      | PartitionResponse c p b \<Rightarrow> on_partition c p b m)"

definition is_terminal_progress :: "LifecycleErrorCode + 'v Progress \<Rightarrow> bool" where
  "is_terminal_progress r \<longleftrightarrow>
     (case r of Inr (Complete c) \<Rightarrow> True | Inr (TimedOut f) \<Rightarrow> True | Inr (Failed f) \<Rightarrow> True | _ \<Rightarrow> False)"

lemmas handler_defs = on_submit_def on_poll_def on_partition_def enter_terminal_result_def
  enter_terminal_timeout_def enter_terminal_failure_def Let_def

text \<open>The results of the terminal-result routine, as cases the handlers share.\<close>

lemma enter_terminal_result_cases:
  obtains
    (error) e m' where "enter_terminal_result rs raw m = (Inl e, m')"
      "m' = m \<or> m' = m\<lparr>phase := Done\<rparr>"
  | (single) c where "enter_terminal_result rs raw m = (Inr (Complete c), m\<lparr>phase := Done\<rparr>)"
      "cs_result_set c = rs" "cs_rows c = rs_data rs" "rs_code rs \<noteq> RESULT_SET_TOO_LARGE"
      "fetched_partitions c = 1" "total_partitions c = 1"
      "is_multi_statement rs
       \<or> partition_total rs \<le> 1 \<and> validate_total_row_count (length (rs_data rs)) (num_rows (meta_data rs)) = Inr ()"
  | (assemble) a where "enter_terminal_result rs raw m = (Inr (FetchPartition (as_handle a) 1), m\<lparr>phase := Assembling a\<rparr>)"
      "as_result_set a = rs" "as_total a = partition_total rs" "as_next a = 1" "1 < as_total a"
      "as_rows a = rs_data rs" "rs_code rs \<noteq> RESULT_SET_TOO_LARGE" "\<not> is_multi_statement rs"
      "validate_partition_row_count rs 0 (length (rs_data rs)) = Inr ()"
proof -
  let ?raws = "if raw = [] then [] else [raw]"
  let ?C = "\<lparr>cs_statement_handle = rs_statement_handle rs, cs_result_set = rs, cs_rows = rs_data rs,
    cs_raw_partitions = ?raws, fetched_partitions = 1, total_partitions = 1\<rparr>"
  let ?A = "\<lparr>as_result_set = rs, as_handle = rs_statement_handle rs, as_total = partition_total rs,
    as_next = 1, as_rows = rs_data rs, as_raw_partitions = ?raws\<rparr>"
  note defs = enter_terminal_result_def Let_def
  consider "rs_code rs = RESULT_SET_TOO_LARGE" | "rs_code rs \<noteq> RESULT_SET_TOO_LARGE" "is_multi_statement rs"
    | e where "rs_code rs \<noteq> RESULT_SET_TOO_LARGE" "\<not> is_multi_statement rs"
        "validate_partition_row_count rs 0 (length (rs_data rs)) = Inl e"
    | u e where "rs_code rs \<noteq> RESULT_SET_TOO_LARGE" "\<not> is_multi_statement rs"
        "validate_partition_row_count rs 0 (length (rs_data rs)) = Inr u" "partition_total rs \<le> 1"
        "validate_total_row_count (length (rs_data rs)) (num_rows (meta_data rs)) = Inl e"
    | u v where "rs_code rs \<noteq> RESULT_SET_TOO_LARGE" "\<not> is_multi_statement rs"
        "validate_partition_row_count rs 0 (length (rs_data rs)) = Inr u" "partition_total rs \<le> 1"
        "validate_total_row_count (length (rs_data rs)) (num_rows (meta_data rs)) = Inr v"
    | u where "rs_code rs \<noteq> RESULT_SET_TOO_LARGE" "\<not> is_multi_statement rs"
        "validate_partition_row_count rs 0 (length (rs_data rs)) = Inr u" "\<not> partition_total rs \<le> 1"
    by (cases "validate_partition_row_count rs 0 (length (rs_data rs))";
        cases "validate_total_row_count (length (rs_data rs)) (num_rows (meta_data rs))") blast+
  then show thesis
  proof cases
    case 1
    then show thesis by (intro error [of ResultTooLarge m] disjI1) (simp_all add: defs)
  next
    case 2
    then show thesis by (intro single [of ?C]) (simp_all add: defs)
  next
    case (3 e)
    then show thesis by (intro error [of e m] disjI1) (simp_all add: defs)
  next
    case (4 u e)
    then show thesis by (intro error [of e "m\<lparr>phase := Done\<rparr>"] disjI2) (simp_all add: defs)
  next
    case (5 u v)
    then show thesis by (intro single [of ?C]) (simp_all add: defs)
  next
    case (6 u)
    then show thesis by (intro assemble [of ?A]) (simp_all add: defs)
  qed
qed

lemma done_refuses: "phase m = Done \<Longrightarrow> handle D r m = (Inl UnexpectedStatus, m)"
  by (cases r; cases m) (auto simp: handle_def handler_defs)

lemma terminal_result_done:
  "is_terminal_progress (fst (enter_terminal_result rs raw m)) \<Longrightarrow>
   phase (snd (enter_terminal_result rs raw m)) = Done"
  by (cases rule: enter_terminal_result_cases [of rs raw m]) (auto simp: is_terminal_progress_def)

lemma terminal_progress_done:
  assumes "is_terminal_progress (fst (handle D r m))"
  shows "phase (snd (handle D r m)) = Done"
proof (cases r)
  case (Submit c b)
  with assms show ?thesis
    by (cases c) (auto simp: handle_def on_submit_def enter_terminal_timeout_def enter_terminal_failure_def
        is_terminal_progress_def split: if_splits option.splits intro: terminal_result_done [unfolded is_terminal_progress_def])
next
  case (Poll c b)
  with assms show ?thesis
    by (cases c) (auto simp: handle_def on_poll_def Let_def enter_terminal_timeout_def enter_terminal_failure_def
        is_terminal_progress_def split: if_splits option.splits intro: terminal_result_done [unfolded is_terminal_progress_def])
next
  case (PartitionResponse c p b)
  with assms show ?thesis
    by (auto simp: handle_def on_partition_def Let_def is_terminal_progress_def
        split: if_splits sum.splits Phase.splits)
qed

text \<open>
  A terminal machine is terminal: after a response that completed, timed out or failed the
  statement, every later response, duplicate or late, of any kind and status, is refused
  with an unexpected-status error and changes nothing.
\<close>

theorem terminal_machine_stays_terminal:
  assumes "is_terminal_progress (fst (handle D r m))"
  shows "handle D r' (snd (handle D r m)) = (Inl UnexpectedStatus, snd (handle D r m))"
  using done_refuses [OF terminal_progress_done [OF assms]] .


text \<open>Concrete bodies for the examples: a result of two partitions with one row each.\<close>

definition sample_info :: PartitionInfo where
  "sample_info = \<lparr>row_count = 1, compressed_size = None, uncompressed_size = None\<rparr>"

definition sample_result_set :: "unit ResultSet" where
  "sample_result_set =
     \<lparr>meta_data = \<lparr>num_rows = 2, rs_format = ''jsonv2'', row_type = [], partition_info = [sample_info, sample_info]\<rparr>,
      rs_data = [[Some ''a'']], rs_code = ''090001'', rs_statement_handle = ''h'', rs_statement_status_url = None,
      statement_handles = None, rs_sql_state = None, rs_message = None, rs_request_id = None,
      created_on = None, rs_stats = None\<rparr>"

definition sample_decoders :: "unit Decoders" where
  "sample_decoders =
     \<lparr>result_set_of = \<lambda>_. Some sample_result_set,
      query_status_of = \<lambda>_. Some \<lparr>qs_code = ''333334'', qs_sql_state = None, qs_message = None,
        qs_statement_handle = ''h'', qs_statement_status_url = None\<rparr>,
      failure_of = \<lambda>_. Some \<lparr>qf_code = ''000630'', qf_sql_state = None, qf_message = ''timeout'',
        qf_statement_handle = None\<rparr>\<rparr>"

lemma terminal_machine_stays_terminal_witness:
  "let m = snd (handle sample_decoders (Submit ResponseClass.StatementTimeout []) (new_machine default_poll_plan))
   in handle sample_decoders (Poll Completed ''[]'') m = (Inl UnexpectedStatus, m)"
  unfolding Let_def
  by (rule terminal_machine_stays_terminal)
     (simp add: handle_def on_submit_def sample_decoders_def new_machine_def enter_terminal_timeout_def
        is_terminal_progress_def)

section \<open>Polling ends\<close>

fun poll_run :: "'v Decoders \<Rightarrow> (ResponseClass \<times> string) list \<Rightarrow> 'v StatementMachine
    \<Rightarrow> (LifecycleErrorCode + 'v Progress) list" where
  "poll_run D [] m = []"
| "poll_run D ((c, b) # ps) m = (let (r, m') = on_poll D c b m in r # poll_run D ps m')"

definition asks_again :: "LifecycleErrorCode + 'v Progress \<Rightarrow> bool" where
  "asks_again r \<longleftrightarrow> (case r of Inr (PollAgain h) \<Rightarrow> True | _ \<Rightarrow> False)"

lemma terminal_result_fields:
  "polls_done (snd (enter_terminal_result rs raw m)) = polls_done m"
  "poll_plan (snd (enter_terminal_result rs raw m)) = poll_plan m"
  "drained_rows (snd (enter_terminal_result rs raw m)) = drained_rows m"
  "\<not> asks_again (fst (enter_terminal_result rs raw m))"
  by (cases rule: enter_terminal_result_cases [of rs raw m]; auto simp: asks_again_def)+

lemma on_poll_counts:
  assumes "on_poll D c b m = (r, m')"
  shows "poll_plan m' = poll_plan m"
    and "polls_done m \<le> u32_max \<Longrightarrow> polls_done m \<le> polls_done m'"
    and "asks_again r \<Longrightarrow> polls_done m' = sat_add u32_max (polls_done m) 1 \<and> polls_done m' \<le> max_polls (poll_plan m)"
    and "polls_done m \<le> u32_max \<Longrightarrow> polls_done m' \<le> u32_max"
proof -
  let ?m = "m\<lparr>polls_done := sat_add u32_max (polls_done m) 1\<rparr>"
  consider "m' = m" "\<not> asks_again r"
    | rs where "enter_terminal_result rs (inline_raw b) ?m = (r, m')"
    | "polls_done m' = polls_done ?m" "poll_plan m' = poll_plan m" "\<not> asks_again r"
    | "m' = ?m" "polls_done ?m \<le> max_polls (poll_plan m)"
    using assms
    by (cases c) (auto simp: on_poll_def Let_def enter_terminal_timeout_def enter_terminal_failure_def
        asks_again_def split: if_splits option.splits)
  then have "poll_plan m' = poll_plan m \<and> (polls_done m \<le> u32_max \<longrightarrow> polls_done m \<le> polls_done m')
    \<and> (asks_again r \<longrightarrow> polls_done m' = sat_add u32_max (polls_done m) 1 \<and> polls_done m' \<le> max_polls (poll_plan m))
    \<and> (polls_done m \<le> u32_max \<longrightarrow> polls_done m' \<le> u32_max)"
  proof cases
    case (2 rs)
    with terminal_result_fields [of rs "inline_raw b" ?m] show ?thesis by (simp add: sat_add_def)
  qed (auto simp: sat_add_def)
  then show "poll_plan m' = poll_plan m"
    "polls_done m \<le> u32_max \<Longrightarrow> polls_done m \<le> polls_done m'"
    "asks_again r \<Longrightarrow> polls_done m' = sat_add u32_max (polls_done m) 1 \<and> polls_done m' \<le> max_polls (poll_plan m)"
    "polls_done m \<le> u32_max \<Longrightarrow> polls_done m' \<le> u32_max" by blast+
qed

lemma poll_run_quota:
  "polls_done m \<le> u32_max \<Longrightarrow> max_polls (poll_plan m) < u32_max \<Longrightarrow>
   length (filter asks_again (poll_run D ps m)) \<le> max_polls (poll_plan m) - polls_done m"
proof (induction ps arbitrary: m)
  case (Cons p ps)
  obtain c b where p: "p = (c, b)" by (cases p)
  obtain r m' where e: "on_poll D c b m = (r, m')" by (cases "on_poll D c b m")
  note counts = on_poll_counts [OF e]
  have ih: "length (filter asks_again (poll_run D ps m')) \<le> max_polls (poll_plan m) - polls_done m'"
    using Cons counts(1,4) by metis
  show ?case
  proof (cases "asks_again r")
    case True
    with counts(3) Cons.prems have "polls_done m' = polls_done m + 1" "polls_done m' \<le> max_polls (poll_plan m)"
      by (auto simp: sat_add_def)
    with True ih p e show ?thesis by simp
  next
    case False
    with ih counts(2) Cons.prems p e show ?thesis by simp
  qed
qed simp

text \<open>
  Polling terminates: over any sequence of poll responses, from a new machine, the handler
  asks to poll again at most \<open>max_polls\<close> times, whatever the server answers. The quota
  must be below the largest 32-bit count, because the poll counter saturates there.
\<close>

theorem polls_within_quota:
  assumes "max_polls plan < u32_max"
  shows "length (filter asks_again (poll_run D ps (new_machine plan))) \<le> max_polls plan"
  using poll_run_quota [of "new_machine plan" D ps] assms by (simp add: new_machine_def)

lemma polls_within_quota_witness:
  "length (filter asks_again (poll_run sample_decoders (replicate 500 (Running, [])) (new_machine default_poll_plan)))
     \<le> 120"
  using polls_within_quota [of default_poll_plan sample_decoders "replicate 500 (Running, [])"]
  by (simp add: default_poll_plan_def u32_max_def)


section \<open>Reachable machines\<close>

text \<open>The interface of a machine with an invariant: what a protocol promises about every state.\<close>

locale invariant_machine =
  fixes start :: "'s \<Rightarrow> bool" and step :: "'s \<Rightarrow> 's \<Rightarrow> bool" and inv :: "'s \<Rightarrow> bool"
  assumes start_inv: "start s \<Longrightarrow> inv s"
    and step_inv: "inv s \<Longrightarrow> step s t \<Longrightarrow> inv t"
begin

lemma reachable_inv: "step\<^sup>*\<^sup>* s t \<Longrightarrow> start s \<Longrightarrow> inv t"
  by (induction rule: rtranclp_induct) (auto intro: start_inv step_inv)

end

text \<open>
  The steps the driver takes: a submit or poll response while the statement is pending, a
  partition response, a drain or an early completion at any time.
\<close>

inductive machine_step :: "'v Decoders \<Rightarrow> 'v StatementMachine \<Rightarrow> 'v StatementMachine \<Rightarrow> bool"
  for D :: "'v Decoders" where
  submitted: "phase m = Pending \<Longrightarrow> machine_step D m (snd (on_submit D c b m))"
| polled: "phase m = Pending \<Longrightarrow> machine_step D m (snd (on_poll D c b m))"
| partitioned: "machine_step D m (snd (on_partition c p b m))"
| drained: "machine_step D m (snd (drain_rows m))"
| drained_raw: "machine_step D m (snd (drain_raw_partitions m))"
| completed_early: "machine_step D m (snd (complete_early m))"

inductive_cases machine_stepE: "machine_step D m m'"

definition is_new :: "'v StatementMachine \<Rightarrow> bool" where
  "is_new m \<longleftrightarrow> m = new_machine (poll_plan m)"

text \<open>The rows the server announced for the first \<open>n\<close> partitions.\<close>

definition announced_rows :: "'v ResultSet \<Rightarrow> nat \<Rightarrow> nat" where
  "announced_rows rs n = nat (sum_list (map row_count (take n (partition_info (meta_data rs)))))"

definition assembly_ok :: "nat \<Rightarrow> 'v Assembly \<Rightarrow> bool" where
  "assembly_ok drained a \<longleftrightarrow>
     1 \<le> as_next a \<and> as_next a < as_total a
     \<and> as_total a = partition_total (as_result_set a)
     \<and> \<not> is_multi_statement (as_result_set a) \<and> rs_code (as_result_set a) \<noteq> RESULT_SET_TOO_LARGE
     \<and> list_all (\<lambda>i. 0 \<le> row_count i) (take (as_next a) (partition_info (meta_data (as_result_set a))))
     \<and> sat_add usize_max drained (length (as_rows a)) = min usize_max (announced_rows (as_result_set a) (as_next a))"

definition machine_ok :: "'v StatementMachine \<Rightarrow> bool" where
  "machine_ok m \<longleftrightarrow>
     (case phase m of Pending \<Rightarrow> drained_rows m = 0 | Assembling a \<Rightarrow> assembly_ok (drained_rows m) a | Done \<Rightarrow> True)"

lemma partition_count_ok:
  "validate_partition_row_count rs p n = Inr () \<Longrightarrow> p < length (partition_info (meta_data rs)) \<Longrightarrow>
   row_count (partition_info (meta_data rs) ! p) = int n"
  by (auto simp: validate_partition_row_count_def row_count_differs_def Let_def split: if_splits)

lemma total_count_ok: "validate_total_row_count n k = Inr () \<Longrightarrow> k = int n \<and> k \<le> i64_max"
  by (auto simp: validate_total_row_count_def row_count_differs_def split: if_splits)

lemma partition_total_length: "1 < partition_total rs \<Longrightarrow> partition_total rs \<le> length (partition_info (meta_data rs))"
  by (auto simp: partition_total_def)

lemma announced_Suc:
  assumes "n < length (partition_info (meta_data rs))" and "row_count (partition_info (meta_data rs) ! n) = int k"
    and "list_all (\<lambda>i. 0 \<le> row_count i) (take n (partition_info (meta_data rs)))"
  shows "announced_rows rs (Suc n) = announced_rows rs n + k"
    and "list_all (\<lambda>i. 0 \<le> row_count i) (take (Suc n) (partition_info (meta_data rs)))"
proof -
  have "0 \<le> sum_list (map row_count (take n (partition_info (meta_data rs))))"
    using assms(3) by (intro sum_list_nonneg) (auto simp: list_all_iff)
  then show "announced_rows rs (Suc n) = announced_rows rs n + k"
    using assms(1,2) by (simp add: announced_rows_def take_Suc_conv_app_nth nat_add_distrib)
  show "list_all (\<lambda>i. 0 \<le> row_count i) (take (Suc n) (partition_info (meta_data rs)))"
    using assms by (simp add: take_Suc_conv_app_nth)
qed

lemma terminal_result_ok:
  assumes "machine_ok m" and "drained_rows m = 0"
  shows "machine_ok (snd (enter_terminal_result rs raw m))"
proof (cases rule: enter_terminal_result_cases [of rs raw m])
  case (assemble a)
  then have l: "0 < length (partition_info (meta_data rs))" using partition_total_length [of rs] by auto
  from announced_Suc [OF this partition_count_ok [OF assemble(9) l]]
  have "announced_rows rs 1 = length (rs_data rs)"
    "list_all (\<lambda>i. 0 \<le> row_count i) (take 1 (partition_info (meta_data rs)))"
    by (simp_all add: announced_rows_def)
  with assemble assms(2) show ?thesis by (simp add: machine_ok_def assembly_ok_def sat_add_def)
qed (use assms in \<open>auto simp: machine_ok_def\<close>)

lemma sat_add_more:
  "sat_add m a b = min m c \<Longrightarrow> sat_add m a (b + k) = min m (c + k)"
  by (auto simp: sat_add_def min_def split: if_splits)

lemma sat_add_assoc: "sat_add m (sat_add m a b) c = sat_add m a (b + c)"
  by (auto simp: sat_add_def)


text \<open>A partition response, as the four things that can happen.\<close>

lemma on_partition_cases:
  obtains
    (refused) e where "on_partition c p b m = (Inl e, m)"
  | (failed) e where "on_partition c p b m = (Inl e, m\<lparr>phase := Done\<rparr>)"
  | (completed) a raw new cs where
      "phase m = Assembling a" "p = as_next a" "extract_jsonv2_data_array b = Inr raw"
      "decode_partition_rows raw = Inr new"
      "validate_partition_row_count (as_result_set a) p (length new) = Inr ()"
      "as_total a \<le> sat_add u32_max (as_next a) 1"
      "validate_total_row_count (sat_add usize_max (drained_rows m) (length (as_rows a @ new)))
         (num_rows (meta_data (as_result_set a))) = Inr ()"
      "cs = \<lparr>cs_statement_handle = as_handle a, cs_result_set = as_result_set a, cs_rows = as_rows a @ new,
         cs_raw_partitions = as_raw_partitions a @ [raw], fetched_partitions = as_total a,
         total_partitions = as_total a\<rparr>"
      "on_partition c p b m = (Inr (Complete cs), m\<lparr>phase := Done\<rparr>)"
  | (continued) a raw new where
      "phase m = Assembling a" "p = as_next a" "extract_jsonv2_data_array b = Inr raw"
      "decode_partition_rows raw = Inr new"
      "validate_partition_row_count (as_result_set a) p (length new) = Inr ()"
      "\<not> as_total a \<le> sat_add u32_max (as_next a) 1"
      "on_partition c p b m =
         (Inr (FetchPartition (as_handle a) (sat_add u32_max (as_next a) 1)),
          m\<lparr>phase := Assembling (a\<lparr>as_next := sat_add u32_max (as_next a) 1, as_rows := as_rows a @ new,
               as_raw_partitions := as_raw_partitions a @ [raw]\<rparr>)\<rparr>)"
proof (cases "c = Completed \<and> (\<exists>a. phase m = Assembling a \<and> p = as_next a)")
  case False
  then have "on_partition c p b m = (Inl UnexpectedStatus, m)
      \<or> on_partition c p b m = (Inl UnexpectedStatus, m\<lparr>phase := Done\<rparr>)"
    by (auto simp: on_partition_def Let_def split: Phase.splits)
  then show thesis using refused failed by blast
next
  case True
  then obtain a where a: "c = Completed" "phase m = Assembling a" "p = as_next a" by blast
  note defs = on_partition_def Let_def parse_partition_rows_def map_error_def
  consider (e1) e where "extract_jsonv2_data_array b = Inl e"
    | (e2) raw e where "extract_jsonv2_data_array b = Inr raw" "decode_partition_rows raw = Inl e"
    | (e3) raw new e where "extract_jsonv2_data_array b = Inr raw" "decode_partition_rows raw = Inr new"
        "validate_partition_row_count (as_result_set a) p (length new) = Inl e"
    | (ok) raw new u where "extract_jsonv2_data_array b = Inr raw" "decode_partition_rows raw = Inr new"
        "validate_partition_row_count (as_result_set a) p (length new) = Inr u"
    by (metis sum.exhaust)
  then show thesis
  proof cases
    case e1
    with a show thesis by (intro failed) (simp add: defs)
  next
    case e2
    with a show thesis by (intro failed) (simp add: defs)
  next
    case e3
    with a show thesis by (intro failed) (simp add: defs)
  next
    case (ok raw new u)
    show thesis
    proof (cases "as_total a \<le> sat_add u32_max (as_next a) 1")
      case False
      with a ok show thesis by (intro continued [of a raw new]) (simp_all add: defs)
    next
      case True
      show thesis
      proof (cases "validate_total_row_count (sat_add usize_max (drained_rows m) (length (as_rows a @ new)))
          (num_rows (meta_data (as_result_set a)))")
        case (Inl e)
        with a ok True show thesis by (intro failed) (simp add: defs)
      next
        case (Inr v)
        with a ok True show thesis by (intro completed [OF a(2,3) ok(1,2) _ True _ refl]) (simp_all add: defs)
      qed
    qed
  qed
qed

lemma on_partition_ok:
  assumes "machine_ok m"
  shows "machine_ok (snd (on_partition c p b m))"
proof (cases rule: on_partition_cases [of c p b m])
  case (continued a raw new)
  let ?info = "partition_info (meta_data (as_result_set a))"
  from assms continued(1) have ok: "assembly_ok (drained_rows m) a" by (simp add: machine_ok_def)
  then have len: "as_next a < length ?info"
    using partition_total_length [of "as_result_set a"] by (auto simp: assembly_ok_def)
  have up: "sat_add u32_max (as_next a) 1 = Suc (as_next a)" "Suc (as_next a) < as_total a"
    using continued(6) ok by (auto simp: sat_add_def assembly_ok_def partition_total_def)
  have p: "p < length ?info" using continued(2) len by simp
  from partition_count_ok [OF continued(5) p]
  have cnt: "row_count (?info ! as_next a) = int (length new)" using continued(2) by simp
  from ok have pre: "list_all (\<lambda>i. 0 \<le> row_count i) (take (as_next a) ?info)"
    and sum: "sat_add usize_max (drained_rows m) (length (as_rows a)) = min usize_max (announced_rows (as_result_set a) (as_next a))"
    by (simp_all add: assembly_ok_def)
  note more = announced_Suc [OF len cnt pre]
  show ?thesis using ok up more sat_add_more [OF sum, of "length new"]
    unfolding continued(7) by (simp add: machine_ok_def assembly_ok_def)
qed (use assms in \<open>auto simp: machine_ok_def\<close>)

lemma drain_rows_ok: "machine_ok m \<Longrightarrow> machine_ok (snd (drain_rows m))"
proof (cases "phase m")
  case (Assembling a)
  assume "machine_ok m"
  with Assembling have "assembly_ok (drained_rows m) a" by (simp add: machine_ok_def)
  then have "assembly_ok (sat_add usize_max (drained_rows m) (length (as_rows a)))
      (a\<lparr>as_rows := [], as_raw_partitions := []\<rparr>)"
    using sat_add_assoc [of usize_max "drained_rows m" "length (as_rows a)" 0] by (simp add: assembly_ok_def)
  with Assembling show ?thesis by (simp add: drain_rows_def machine_ok_def)
qed (simp_all add: drain_rows_def)

lemma drain_raw_ok: "machine_ok m \<Longrightarrow> machine_ok (snd (drain_raw_partitions m))"
  by (cases "phase m") (simp_all add: drain_raw_partitions_def machine_ok_def assembly_ok_def)

lemma complete_early_ok: "machine_ok (snd (complete_early m))"
  by (cases "phase m") (simp_all add: complete_early_def machine_ok_def)

lemmas drains_ok = drain_rows_ok drain_raw_ok complete_early_ok

lemma new_machine_ok: "machine_ok (new_machine plan)"
  by (simp add: machine_ok_def new_machine_def)

lemma submit_poll_ok:
  assumes "machine_ok m" and "phase m = Pending"
  shows "machine_ok (snd (on_submit D c b m))" "machine_ok (snd (on_poll D c b m))"
proof -
  from assms have d: "drained_rows m = 0" by (simp add: machine_ok_def)
  show "machine_ok (snd (on_submit D c b m))"
    using assms d terminal_result_ok [OF assms(1) d]
    by (cases c) (auto simp: on_submit_def enter_terminal_timeout_def enter_terminal_failure_def machine_ok_def
        split: option.splits)
  let ?m = "m\<lparr>polls_done := sat_add u32_max (polls_done m) 1\<rparr>"
  have "machine_ok ?m" "drained_rows ?m = 0" using assms d by (simp_all add: machine_ok_def)
  note t = terminal_result_ok [OF this] and ok = this
  then show "machine_ok (snd (on_poll D c b m))"
    using assms(2)
    by (cases c) (auto simp: on_poll_def Let_def enter_terminal_timeout_def enter_terminal_failure_def
        machine_ok_def [of "_\<lparr>phase := Done\<rparr>"] split: option.splits)
qed

interpretation statement: invariant_machine is_new "machine_step D" machine_ok for D
proof
  show "is_new m \<Longrightarrow> machine_ok m" for m :: "'a StatementMachine"
    unfolding is_new_def by (erule ssubst) (rule new_machine_ok)
  show "machine_ok m \<Longrightarrow> machine_step D m m' \<Longrightarrow> machine_ok m'" for m m'
    by (erule machine_stepE) (auto intro: submit_poll_ok on_partition_ok drains_ok)
qed


text \<open>
  Every machine the driver can reach satisfies the assembly invariant: a pending machine
  has drained nothing, and while assembling, the next partition lies within the announced ones,
  the result is neither too large nor a multi-statement parent, and the rows handed out or
  held are as many as the server announced for the partitions fetched so far.
\<close>

theorem reachable_machines_are_ok:
  assumes "(machine_step D)\<^sup>*\<^sup>* (new_machine plan) m"
  shows "machine_ok m"
  using assms by (rule statement.reachable_inv) (simp add: is_new_def new_machine_def)

lemma reachable_machines_are_ok_witness:
  "machine_ok (snd (on_submit sample_decoders Completed [] (new_machine default_poll_plan)))"
proof (rule reachable_machines_are_ok [of sample_decoders default_poll_plan])
  show "(machine_step sample_decoders)\<^sup>*\<^sup>* (new_machine default_poll_plan)
      (snd (on_submit sample_decoders Completed [] (new_machine default_poll_plan)))"
    by (rule r_into_rtranclp, rule submitted) (simp add: new_machine_def)
qed

definition response_drained :: "Response \<Rightarrow> 'v StatementMachine \<Rightarrow> nat" where
  "response_drained r m = (case r of PartitionResponse c p b \<Rightarrow> drained_rows m | _ \<Rightarrow> 0)"

lemma terminal_result_complete:
  assumes "fst (enter_terminal_result rs raw m) = Inr (Complete cs)"
  shows "rs_code (cs_result_set cs) \<noteq> RESULT_SET_TOO_LARGE \<and> fetched_partitions cs = total_partitions cs
    \<and> (is_multi_statement (cs_result_set cs)
       \<or> int (length (cs_rows cs)) = num_rows (meta_data (cs_result_set cs)))"
  using assms total_count_ok
  by (cases rule: enter_terminal_result_cases [of rs raw m]) (auto dest: total_count_ok)

lemma partition_complete:
  assumes "on_partition c p b m = (Inr (Complete cs), m')" and "machine_ok m"
  shows "rs_code (cs_result_set cs) \<noteq> RESULT_SET_TOO_LARGE \<and> fetched_partitions cs = total_partitions cs
    \<and> int (drained_rows m + length (cs_rows cs)) = num_rows (meta_data (cs_result_set cs))"
proof (cases rule: on_partition_cases [of c p b m])
  case (completed a raw new cs')
  with assms have cs: "cs' = cs" "assembly_ok (drained_rows m) a" by (simp_all add: machine_ok_def)
  from total_count_ok [OF completed(7)]
  have n: "num_rows (meta_data (as_result_set a)) = int (sat_add usize_max (drained_rows m) (length (as_rows a @ new)))"
    "num_rows (meta_data (as_result_set a)) \<le> i64_max" by auto
  then have "sat_add usize_max (drained_rows m) (length (as_rows a @ new)) = drained_rows m + length (as_rows a @ new)"
    by (auto simp: sat_add_def usize_max_def i64_max_def min_def split: if_splits)
  with n(1) cs completed(8) show ?thesis by (auto simp: assembly_ok_def)
qed (use assms in simp_all)

text \<open>
  C2. A statement is reported complete only with the rows the server announced: whenever a
  response makes a reachable machine report completion, the result is not marked too large, no
  partition is missing, and, unless it is a multi-statement parent, the rows of the completed
  statement together with those already handed out are exactly \<open>numRows\<close>.
\<close>

theorem completed_statement_is_whole:
  assumes "(machine_step D)\<^sup>*\<^sup>* (new_machine plan) m"
    and "handle D r m = (Inr (Complete cs), m')"
  shows "rs_code (cs_result_set cs) \<noteq> RESULT_SET_TOO_LARGE \<and> \<not> is_partial cs
    \<and> (is_multi_statement (cs_result_set cs)
       \<or> int (response_drained r m + length (cs_rows cs)) = num_rows (meta_data (cs_result_set cs)))"
proof -
  have ok: "machine_ok m"
    using assms(1) by (rule statement.reachable_inv) (simp add: is_new_def new_machine_def)
  show ?thesis
  proof (cases r)
    case (Submit c b)
    with assms(2) obtain rs raw k where "fst (enter_terminal_result rs raw k) = Inr (Complete cs)"
      by (cases c) (auto simp: handle_def on_submit_def enter_terminal_timeout_def enter_terminal_failure_def
          split: if_splits option.splits dest: arg_cong [where f = fst])
    from terminal_result_complete [OF this] Submit show ?thesis by (simp add: is_partial_def response_drained_def)
  next
    case (Poll c b)
    with assms(2) obtain rs raw k where "fst (enter_terminal_result rs raw k) = Inr (Complete cs)"
      by (cases c) (auto simp: handle_def on_poll_def Let_def enter_terminal_timeout_def enter_terminal_failure_def
          split: if_splits option.splits dest: arg_cong [where f = fst])
    from terminal_result_complete [OF this] Poll show ?thesis by (simp add: is_partial_def response_drained_def)
  next
    case (PartitionResponse c p b)
    with assms(2) partition_complete [OF _ ok] show ?thesis
      by (fastforce simp: handle_def is_partial_def response_drained_def)
  qed
qed


text \<open>The example run: a submit response with two partitions, then the second one.\<close>

definition sample_assembly :: "unit Assembly" where
  "sample_assembly = \<lparr>as_result_set = sample_result_set, as_handle = ''h'', as_total = 2, as_next = 1,
     as_rows = [[Some ''a'']], as_raw_partitions = []\<rparr>"

definition sample_machine :: "unit StatementMachine" where
  "sample_machine = (new_machine default_poll_plan)\<lparr>phase := Assembling sample_assembly\<rparr>"

lemma sample_submit: "on_submit sample_decoders Completed [] (new_machine default_poll_plan)
    = (Inr (FetchPartition ''h'' 1), sample_machine)"
proof -
  have "inline_raw [] = []" by (simp add: inline_raw_def extract_jsonv2_data_array_def skip_whitespace_def)
  then show ?thesis
    by (simp add: on_submit_def new_machine_def sample_decoders_def enter_terminal_result_def sample_result_set_def
        RESULT_SET_TOO_LARGE_def is_multi_statement_def partition_total_def sample_info_def u32_max_def
        validate_partition_row_count_def row_count_differs_def i64_max_def sample_machine_def sample_assembly_def Let_def)
qed

lemma sample_partition_bytes:
  "extract_jsonv2_data_array ''[[null]]'' = Inr ''[[null]]''" "decode_partition_rows ''[[null]]'' = Inr [[None]]"
  by code_simp+

lemma sample_partition:
  "\<exists>cs. on_partition Completed 1 ''[[null]]'' sample_machine = (Inr (Complete cs), sample_machine\<lparr>phase := Done\<rparr>)
     \<and> cs_rows cs = [[Some ''a''], [None]] \<and> cs_result_set cs = sample_result_set"
  by (simp add: on_partition_def sample_machine_def sample_assembly_def sample_partition_bytes parse_partition_rows_def
      map_error_def validate_partition_row_count_def validate_total_row_count_def row_count_differs_def
      sample_result_set_def sample_info_def i64_max_def usize_max_def u32_max_def sat_add_def new_machine_def)

lemma sample_reachable: "(machine_step sample_decoders)\<^sup>*\<^sup>* (new_machine default_poll_plan) sample_machine"
proof (rule r_into_rtranclp)
  have "machine_step sample_decoders (new_machine default_poll_plan)
      (snd (on_submit sample_decoders Completed [] (new_machine default_poll_plan)))"
    by (rule submitted) (simp add: new_machine_def)
  then show "machine_step sample_decoders (new_machine default_poll_plan) sample_machine"
    by (simp add: sample_submit)
qed

lemma completed_statement_is_whole_witness:
  "\<exists>cs. fst (handle sample_decoders (PartitionResponse Completed 1 ''[[null]]'') sample_machine) = Inr (Complete cs)
     \<and> \<not> is_partial cs"
proof -
  obtain cs where cs: "on_partition Completed 1 ''[[null]]'' sample_machine
      = (Inr (Complete cs), sample_machine\<lparr>phase := Done\<rparr>)"
    using sample_partition by blast
  then have h: "handle sample_decoders (PartitionResponse Completed 1 ''[[null]]'') sample_machine
      = (Inr (Complete cs), sample_machine\<lparr>phase := Done\<rparr>)" by (simp add: handle_def)
  from completed_statement_is_whole [OF sample_reachable h] h show ?thesis by auto
qed

section \<open>Streaming\<close>

text \<open>
  A consumer that drains rows between partition responses, against one that waits for the whole
  result: the responses in order, with the drains between them, and the rows handed out so far.
\<close>

datatype Event = Part ResponseClass nat string | Drain

fun run_streaming :: "Event list \<Rightarrow> Row list \<Rightarrow> 'v StatementMachine
    \<Rightarrow> (LifecycleErrorCode + 'v Progress) list \<times> Row list \<times> 'v StatementMachine" where
  "run_streaming [] out m = ([], out, m)"
| "run_streaming (Part c p b # es) out m =
     (let (r, m') = on_partition c p b m;
          (rs, out', m'') = run_streaming es out m'
      in (r # rs, out', m''))"
| "run_streaming (Drain # es) out m =
     (let (rows, m') = drain_rows m in run_streaming es (out @ rows) m')"

definition is_part :: "Event \<Rightarrow> bool" where
  "is_part e \<longleftrightarrow> e \<noteq> Drain"

lemma is_part_simps [simp]: "is_part (Part c p b)" "\<not> is_part Drain"
  by (simp_all add: is_part_def)

text \<open>A result with the rows already handed out put back in front; raw slices are not compared.\<close>

definition whole :: "Row list \<Rightarrow> LifecycleErrorCode + 'v Progress \<Rightarrow> LifecycleErrorCode + 'v Progress" where
  "whole out r =
     (case r of Inr (Complete c) \<Rightarrow> Inr (Complete (c\<lparr>cs_rows := out @ cs_rows c, cs_raw_partitions := []\<rparr>)) | _ \<Rightarrow> r)"

text \<open>The simulation: the draining machine and the machine that keeps every row.\<close>

definition simulates :: "Row list \<Rightarrow> 'v StatementMachine \<Rightarrow> 'v StatementMachine \<Rightarrow> bool" where
  "simulates out m M \<longleftrightarrow>
     (case phase m of
        Assembling a \<Rightarrow>
          drained_rows m = sat_add usize_max (drained_rows M) (length out)
          \<and> (\<exists>raws. phase M = Assembling (a\<lparr>as_rows := out @ as_rows a, as_raw_partitions := raws\<rparr>))
      | ph \<Rightarrow> phase M = ph)"

lemma simulates_drain:
  assumes "simulates out m M" and "drain_rows m = (rows, m')"
  shows "simulates (out @ rows) m' M"
proof (cases "phase m")
  case (Assembling a)
  with assms obtain raws where r: "drained_rows m = sat_add usize_max (drained_rows M) (length out)"
    "phase M = Assembling (a\<lparr>as_rows := out @ as_rows a, as_raw_partitions := raws\<rparr>)"
    by (auto simp: simulates_def)
  with assms(2) Assembling show ?thesis
    by (auto simp: drain_rows_def simulates_def sat_add_assoc)
qed (use assms in \<open>auto simp: drain_rows_def simulates_def\<close>)

lemma run_done: "phase m = Done \<Longrightarrow> fst (snd (run_streaming es out m)) = out"
proof (induction es arbitrary: m)
  case (Cons e es)
  show ?case
  proof (cases e)
    case (Part c p b)
    have "on_partition c p b m = (Inl UnexpectedStatus, m)"
      using done_refuses [OF Cons.prems, of undefined "PartitionResponse c p b"] by (simp add: handle_def)
    with Cons.IH [OF Cons.prems] Part show ?thesis by (simp add: Let_def split_beta)
  next
    case Drain
    with Cons.prems Cons.IH show ?thesis by (simp add: drain_rows_def)
  qed
qed simp

lemma simulates_partition:
  assumes "simulates out m M" and "on_partition c p b m = (r, m')" and "on_partition c p b M = (R, M')"
  shows "simulates out m' M' \<and> whole out r = whole [] R \<and> (is_terminal_progress r \<longrightarrow> phase m' = Done)"
proof (cases "phase m")
  case (Assembling a)
  with assms(1) obtain raws where M: "drained_rows m = sat_add usize_max (drained_rows M) (length out)"
    "phase M = Assembling (a\<lparr>as_rows := out @ as_rows a, as_raw_partitions := raws\<rparr>)"
    by (auto simp: simulates_def)
  show ?thesis using assms(2,3) Assembling M
    by (auto simp: on_partition_def Let_def simulates_def whole_def is_terminal_progress_def sat_add_assoc add.assoc
        split: if_splits sum.splits)
qed (use assms in \<open>auto simp: on_partition_def simulates_def Let_def whole_def is_terminal_progress_def split: if_splits\<close>)

text \<open>
  C33. Streaming hands out the whole result, in order: for any partition responses and any
  drains between them, the streaming run gives the results of the run that never drains,
  response by response, and when the statement completes, the rows handed out followed by the
  rows of the completed statement are the rows of the whole-result run.
\<close>

theorem streaming_equals_whole_result:
  assumes "simulates out m M"
    and "run_streaming es out m = (rs, out', m')"
    and "run_streaming (filter is_part es) [] M = (Rs, out2, M')"
  shows "map (whole out') rs = map (whole []) Rs"
  using assms
proof (induction es arbitrary: out m M rs Rs)
  case (Cons e es)
  show ?case
  proof (cases e)
    case Drain
    obtain rows m1 where d: "drain_rows m = (rows, m1)" by (cases "drain_rows m")
    from Cons.IH [OF simulates_drain [OF Cons.prems(1) d]] Cons.prems(2,3) Drain d show ?thesis by simp
  next
    case (Part c p b)
    obtain r m1 where 1: "on_partition c p b m = (r, m1)" by (cases "on_partition c p b m")
    obtain R M1 where 2: "on_partition c p b M = (R, M1)" by (cases "on_partition c p b M")
    obtain qs where q: "run_streaming es out m1 = (qs, out', m')" "rs = r # qs"
      using Cons.prems(2) Part 1 by (auto split: prod.splits)
    obtain Qs where Q: "run_streaming (filter is_part es) [] M1 = (Qs, out2, M')" "Rs = R # Qs"
      using Cons.prems(3) Part 2 by (auto split: prod.splits)
    note s = simulates_partition [OF Cons.prems(1) 1 2]
    have "whole out' r = whole out r"
    proof (cases "is_terminal_progress r")
      case True
      with s run_done [of m1 es out] q(1) show ?thesis by simp
    next
      case False
      then show ?thesis by (auto simp: whole_def is_terminal_progress_def split: sum.splits Progress.splits)
    qed
    with s Cons.IH [OF conjunct1 [OF s] q(1) Q(1)] q(2) Q(2) show ?thesis by simp
  qed
qed simp


lemma streaming_equals_whole_result_witness:
  "map (whole [[Some ''a'']]) (fst (run_streaming [Drain, Part Completed 1 ''[[null]]''] [] sample_machine))
     = map (whole []) (fst (run_streaming [Part Completed 1 ''[[null]]''] [] sample_machine))"
proof -
  let ?es = "[Drain, Part Completed 1 ''[[null]]'']"
  have sim: "simulates [] sample_machine sample_machine"
    by (auto simp: simulates_def sample_machine_def new_machine_def sat_add_def sample_assembly_def)
  obtain rs out m where r: "run_streaming ?es [] sample_machine = (rs, out, m)"
    by (cases "run_streaming ?es [] sample_machine")
  have o: "out = [[Some ''a'']]"
    using r by (auto simp: drain_rows_def sample_machine_def sample_assembly_def split: prod.splits)
  obtain Rs out2 M where R: "run_streaming (filter is_part ?es) [] sample_machine = (Rs, out2, M)"
    by (cases "run_streaming (filter is_part ?es) [] sample_machine")
  from streaming_equals_whole_result [OF sim r R] r R o show ?thesis by simp
qed

end
