(* ===== verification/SqlPieces.thy ===== *)
theory SqlPieces
  imports SqlStatements
begin

text \<open>
  The texts the planner writes, read back by the shared lexer. The quoting routines of
  \<^verbatim>\<open>crates/franken-snowflake-catalog/src/planner.rs\<close> (identifiers, literals) and the pieces of
  generated SQL: a generated text is a list of pieces, each a kind and a text, and it lexes to
  exactly its pieces when no piece runs into the next.

  Lemmas: a quoted identifier or an escaped literal is one closed token whatever it holds; a text
  whose neighbouring pieces do not run together lexes to its pieces, reliably.
\<close>

section \<open>Quoting\<close>

definition quote_identifier :: "string \<Rightarrow> string" where
  "quote_identifier identifier =
     CHR 0x22 # concat (map (\<lambda>c. if c = CHR 0x22 then [c, c] else [c]) identifier) @ [CHR 0x22]"

definition quote_qualified_object :: "string \<Rightarrow> string \<Rightarrow> string \<Rightarrow> string" where
  "quote_qualified_object database schema obj =
     quote_identifier database @ ''.'' @ quote_identifier schema @ ''.'' @ quote_identifier obj"

definition escape_snowflake_literal :: "string \<Rightarrow> string" where
  "escape_snowflake_literal value =
     concat (map (\<lambda>ch. if ch = CHR 0x5C then [CHR 0x5C, CHR 0x5C]
                      else if ch = CHR 0x27 then [CHR 0x27, CHR 0x27] else [ch]) value)"

definition time_travel_timestamp_literal :: "string \<Rightarrow> string" where
  "time_travel_timestamp_literal value =
     CHR 0x27 # escape_snowflake_literal value @ CHR 0x27 # ''::TIMESTAMP_TZ''"

lemma quoted_body_closes:
  "r = [] \<or> hd r \<noteq> CHR 0x22 \<Longrightarrow>
     quoted_body (concat (map (\<lambda>c. if c = CHR 0x22 then [c, c] else [c]) s) @ CHR 0x22 # r)
     = (Suc (length (concat (map (\<lambda>c. if c = CHR 0x22 then [c, c] else [c]) s))), True)"
proof (induction s)
  case Nil
  then show ?case by (cases r) auto
next
  case (Cons c s)
  let ?q = "\<lambda>s. concat (map (\<lambda>c. if c = CHR 0x22 then [c, c] else [c]) s)"
  obtain d t where dt: "?q s @ CHR 0x22 # r = d # t" by (cases "?q s @ CHR 0x22 # r") auto
  show ?case
  proof (cases "c = CHR 0x22")
    case True
    with Cons show ?thesis by simp
  next
    case False
    then have "?q (c # s) @ CHR 0x22 # r = c # d # t" using dt by simp
    with False Cons dt show ?thesis by (auto simp: split: prod.splits)
  qed
qed

lemma string_body_closes:
  "r = [] \<or> hd r \<noteq> CHR 0x27 \<Longrightarrow>
     string_body (escape_snowflake_literal s @ CHR 0x27 # r) = (Suc (length (escape_snowflake_literal s)), True)"
proof (induction s)
  case Nil
  then show ?case by (cases r) (auto simp: escape_snowflake_literal_def)
next
  case (Cons c s)
  let ?e = "escape_snowflake_literal"
  obtain d t where dt: "?e s @ CHR 0x27 # r = d # t" by (cases "?e s @ CHR 0x27 # r") auto
  consider "c = CHR 0x5C" | "c = CHR 0x27" | "c \<noteq> CHR 0x5C" "c \<noteq> CHR 0x27" by blast
  then show ?case
  proof cases
    case 3
    then have "?e (c # s) @ CHR 0x27 # r = c # d # t" and "length (?e (c # s)) = Suc (length (?e s))"
      using dt by (simp_all add: escape_snowflake_literal_def)
    with 3 Cons dt show ?thesis by simp
  qed (use Cons in \<open>simp_all add: escape_snowflake_literal_def\<close>)
qed

section \<open>Pieces\<close>

type_synonym piece = "SqlTokenKind \<times> string"

definition plain_symbols :: "char list" where
  "plain_symbols = ''(),.?=!<>:''"

text \<open>What a piece of each kind looks like.\<close>

fun piece_ok :: "piece \<Rightarrow> bool" where
  "piece_ok (Whitespace, t) \<longleftrightarrow> t \<noteq> [] \<and> list_all is_ascii_whitespace t"
| "piece_ok (Word, t) \<longleftrightarrow>
     t \<noteq> [] \<and> (is_ascii_alphabetic (hd t) \<or> hd t = CHR ''_'') \<and> list_all is_identifier_byte t"
| "piece_ok (QuotedIdentifier, t) \<longleftrightarrow>
     t \<noteq> [] \<and> hd t = CHR 0x22 \<and> quoted_body (tl t) = (length t - 1, True)"
| "piece_ok (StringLiteral, t) \<longleftrightarrow>
     t \<noteq> [] \<and> hd t = CHR 0x27 \<and> string_body (tl t) = (length t - 1, True)"
| "piece_ok (Number, t) \<longleftrightarrow> t \<noteq> [] \<and> list_all is_ascii_digit t"
| "piece_ok (Symbol, t) \<longleftrightarrow> (\<exists>c \<in> set plain_symbols. t = [c])"
| "piece_ok _ \<longleftrightarrow> False"

text \<open>The bytes that may follow a piece without becoming part of it.\<close>

fun may_follow :: "SqlTokenKind \<Rightarrow> char \<Rightarrow> bool" where
  "may_follow Whitespace c \<longleftrightarrow> \<not> is_ascii_whitespace c"
| "may_follow Word c \<longleftrightarrow> \<not> is_identifier_byte c"
| "may_follow QuotedIdentifier c \<longleftrightarrow> c \<noteq> CHR 0x22"
| "may_follow StringLiteral c \<longleftrightarrow> c \<noteq> CHR 0x27"
| "may_follow Number c \<longleftrightarrow> \<not> is_ascii_alphanumeric c \<and> c \<noteq> CHR ''.''"
| "may_follow _ c \<longleftrightarrow> True"

definition apart :: "piece \<Rightarrow> piece \<Rightarrow> bool" where
  "apart p q \<longleftrightarrow> may_follow (fst p) (hd (snd q))"

definition pieces_ok :: "piece list \<Rightarrow> bool" where
  "pieces_ok ps \<longleftrightarrow> list_all piece_ok ps \<and> successively apart ps"

definition piece_text :: "piece list \<Rightarrow> string" where
  "piece_text ps = concat (map snd ps)"

lemma quote_identifier_ok: "piece_ok (QuotedIdentifier, quote_identifier s)"
  using quoted_body_closes [of "[]" s] by (simp add: quote_identifier_def)

lemma literal_ok:
  "piece_ok (StringLiteral, CHR 0x27 # escape_snowflake_literal s @ [CHR 0x27])"
  using string_body_closes [of "[]" s] by simp

section \<open>A generated text lexes to its pieces\<close>

lemma quoted_body_extend:
  "quoted_body u = (length u, True) \<Longrightarrow> r = [] \<or> hd r \<noteq> CHR 0x22 \<Longrightarrow>
     quoted_body (u @ r) = (length u, True)"
proof (induction u rule: quoted_body.induct)
  case (2 b)
  then show ?case by (cases r) auto
next
  case (3 b d u)
  then show ?case by (auto split: if_splits prod.splits)
qed simp

lemma string_body_extend:
  "string_body u = (length u, True) \<Longrightarrow> r = [] \<or> hd r \<noteq> CHR 0x27 \<Longrightarrow>
     string_body (u @ r) = (length u, True)"
proof (induction u rule: string_body.induct)
  case (2 b)
  then show ?case by (cases r) auto
next
  case (3 b d u)
  then show ?case by (auto split: if_splits prod.splits)
qed simp

lemma takeWhile_piece:
  "list_all P t \<Longrightarrow> r = [] \<or> \<not> P (hd r) \<Longrightarrow> takeWhile P (t @ r) = t"
  by (cases r) (auto simp: list_all_iff takeWhile_append)

lemma plain_symbol_lex:
  assumes "c \<in> set plain_symbols"
  shows "lex_one (c # r) = (Symbol, 1, False, False)"
proof -
  have "list_all (\<lambda>c. code_of c < 128 \<and> \<not> is_ascii_whitespace c \<and> \<not> is_ascii_alphabetic c
      \<and> \<not> is_ascii_digit c \<and> c \<notin> set (CHR 0x27 # CHR 0x22 # ''-/$;_'')) plain_symbols"
    by code_simp
  with assms have "code_of c < 128" "\<not> is_ascii_whitespace c" "\<not> is_ascii_alphabetic c"
    "\<not> is_ascii_digit c" "c \<notin> set (CHR 0x27 # CHR 0x22 # ''-/$;_'')"
    by (simp_all add: list_all_iff)
  then show ?thesis by (simp add: lex_one_def char_len_def)
qed

lemma lex_one_piece:
  assumes "piece_ok (k, t)" and "r = [] \<or> may_follow k (hd r)"
  shows "lex_one (t @ r) = (k, length t, False, False)"
proof (cases k)
  case Whitespace
  with assms obtain b u where "t = b # u" "is_ascii_whitespace b" by (cases t) auto
  with Whitespace assms takeWhile_piece [of is_ascii_whitespace t r] show ?thesis
    by (simp add: lex_one_def)
next
  case Word
  with assms obtain b u where t: "t = b # u" "is_ascii_alphabetic b \<or> b = CHR ''_''" by (cases t) auto
  from t(2) have "\<not> is_ascii_whitespace b" "b \<noteq> CHR ''-''" "b \<noteq> CHR ''/''" "b \<noteq> CHR 0x27"
    "b \<noteq> CHR 0x22" "b \<noteq> CHR ''$''" "b \<noteq> CHR '';''"
    by (auto simp: byte_class)
  with t Word assms takeWhile_piece [of is_identifier_byte t r] show ?thesis
    by (simp add: lex_one_def)
next
  case QuotedIdentifier
  with assms obtain u where t: "t = CHR 0x22 # u" "quoted_body u = (length u, True)" by (cases t) auto
  with QuotedIdentifier assms quoted_body_extend [of u r] show ?thesis
    by (simp add: lex_one_def byte_class)
next
  case StringLiteral
  with assms obtain u where t: "t = CHR 0x27 # u" "string_body u = (length u, True)" by (cases t) auto
  with StringLiteral assms string_body_extend [of u r] show ?thesis
    by (simp add: lex_one_def byte_class)
next
  case Number
  with assms obtain b u where t: "t = b # u" "is_ascii_digit b" by (cases t) auto
  from t(2) have "\<not> is_ascii_whitespace b" "b \<noteq> CHR ''-''" "b \<noteq> CHR ''/''" "b \<noteq> CHR 0x27"
    "b \<noteq> CHR 0x22" "b \<noteq> CHR ''$''" "b \<noteq> CHR '';''" "\<not> is_ascii_alphabetic b" "b \<noteq> CHR ''_''"
    by (auto simp: byte_class)
  moreover have "list_all (\<lambda>c. is_ascii_alphanumeric c \<or> c = CHR ''.'') t"
    using Number assms by (auto simp: list_all_iff is_ascii_alphanumeric_def)
  ultimately show ?thesis
    using t Number assms takeWhile_piece [of "\<lambda>c. is_ascii_alphanumeric c \<or> c = CHR ''.''" t r]
    by (simp add: lex_one_def)
next
  case Symbol
  with assms plain_symbol_lex show ?thesis by auto
qed (use assms in simp_all)

lemma pieces_ok_Cons:
  "pieces_ok (p # ps) \<longleftrightarrow> piece_ok p \<and> (ps = [] \<or> apart p (hd ps)) \<and> pieces_ok ps"
  by (cases ps) (auto simp: pieces_ok_def)

lemma pieces_ok_append:
  "pieces_ok (ps @ qs) \<longleftrightarrow>
     pieces_ok ps \<and> pieces_ok qs \<and> (ps = [] \<or> qs = [] \<or> apart (last ps) (hd qs))"
  by (auto simp: pieces_ok_def successively_append_iff)

lemma pieces_ok_Nil [simp]: "pieces_ok []"
  by (simp add: pieces_ok_def)

lemma piece_nonempty: "piece_ok (k, t) \<Longrightarrow> t \<noteq> []"
  by (cases k) auto

lemma piece_text_Nil [simp]: "piece_text [] = []"
  and piece_text_Cons [simp]: "piece_text (p # ps) = snd p @ piece_text ps"
  and piece_text_append [simp]: "piece_text (ps @ qs) = piece_text ps @ piece_text qs"
  by (simp_all add: piece_text_def)

lemma lex_pieces:
  "pieces_ok ps \<Longrightarrow> \<exists>ts. lex_from i (piece_text ps) = (ts, False, False) \<and> map tok_view ts = ps"
proof (induction ps arbitrary: i)
  case (Cons p ps)
  obtain k t where p: "p = (k, t)" by (cases p)
  from Cons.prems have ok: "piece_ok (k, t)" and ps: "pieces_ok ps"
    and ap: "ps = [] \<or> apart p (hd ps)"
    by (simp_all add: pieces_ok_Cons p)
  have t: "t \<noteq> []" by (rule piece_nonempty [OF ok])
  have "piece_text ps = [] \<or> may_follow k (hd (piece_text ps))"
  proof (cases ps)
    case (Cons q qs)
    with ps have "snd q \<noteq> []" using piece_nonempty [of "fst q" "snd q"] by (simp add: pieces_ok_Cons)
    with ap Cons show ?thesis by (simp add: apart_def p)
  qed simp
  from lex_one_piece [OF ok this] have one: "lex_one (t @ piece_text ps) = (k, length t, False, False)" .
  from Cons.IH [OF ps] obtain ts where
    ts: "lex_from (i + length t) (piece_text ps) = (ts, False, False)" "map tok_view ts = ps" by blast
  have "lex_from i (t @ piece_text ps)
      = (\<lparr>tok_kind = k, tok_text = t, tok_start = i\<rparr> # ts, False, False)"
    using lex_from_step [OF _ one, of i] ts t by simp
  moreover have "tok_view \<lparr>tok_kind = k, tok_text = t, tok_start = i\<rparr> = p" by (simp add: p tok_view_def)
  ultimately show ?case using ts by (simp add: p)
qed simp

lemma pieces_view:
  "pieces_ok ps \<Longrightarrow>
     map tok_view (lex_tokens (lex (piece_text ps))) = ps \<and> \<not> is_unreliable (lex (piece_text ps))"
  using lex_pieces [of ps 0] by (auto simp: lex_def is_unreliable_def)

text \<open>
  A generated text lexes to its pieces: whatever names the quoted identifiers and literals
  hold, the lexer of the guards reads the text without a doubt and gives back the pieces it was
  put together from.
\<close>

theorem pieces_lex_back:
  assumes "pieces_ok ps"
  shows "map tok_view (lex_tokens (lex (piece_text ps))) = ps \<and> \<not> is_unreliable (lex (piece_text ps))"
  using assms by (rule pieces_view)

definition injection_sample :: "piece list" where
  "injection_sample =
     [(Word, ''SELECT''), (Whitespace, '' ''),
      (QuotedIdentifier, quote_identifier (CHR 0x22 # ''; drop table t --'')), (Symbol, '',''),
      (StringLiteral, CHR 0x27 # escape_snowflake_literal (CHR 0x5C # CHR 0x27 # ''; drop'') @ [CHR 0x27])]"

theorem pieces_lex_back_witness:
  "length (lex_tokens (lex (piece_text injection_sample))) = 5"
proof -
  have "pieces_ok injection_sample"
    by (simp only: injection_sample_def pieces_ok_Cons quote_identifier_ok literal_ok)
      (simp add: apart_def quote_identifier_def plain_symbols_def byte_class is_identifier_byte_def)
  from pieces_lex_back [OF this] have "map tok_view (lex_tokens (lex (piece_text injection_sample))) = injection_sample"
    by blast
  from arg_cong [OF this, of length] show ?thesis by (simp add: injection_sample_def)
qed

section \<open>One read\<close>

text \<open>The words of a generated text, as the read classification compares them.\<close>

definition piece_words :: "piece list \<Rightarrow> string list" where
  "piece_words ps = map (to_ascii_lowercase \<circ> snd) (filter (\<lambda>p. fst p = Word) ps)"

definition significant_pieces :: "piece list \<Rightarrow> piece list" where
  "significant_pieces ps = filter (\<lambda>p. fst p \<noteq> Whitespace) ps"

lemma piece_not_comment: "piece_ok p \<Longrightarrow> fst p \<noteq> Comment \<and> fst p \<noteq> Semicolon"
  by (cases p; cases "fst p") auto

lemma filter_trivia_view:
  "map tok_view ts = ps \<Longrightarrow> \<forall>p \<in> set ps. fst p \<noteq> Comment \<Longrightarrow>
     map tok_view (filter (\<lambda>t. \<not> is_trivia t) ts) = filter (\<lambda>p. fst p \<noteq> Whitespace) ps"
  by (induction ts arbitrary: ps) (auto simp: tok_view_def is_trivia_def)

lemma significant_of_pieces:
  assumes "pieces_ok ps"
  shows "map tok_view (significant (lex (piece_text ps))) = significant_pieces ps"
proof -
  have "\<forall>p \<in> set ps. fst p \<noteq> Comment"
    using assms piece_not_comment by (auto simp: pieces_ok_def list_all_iff)
  with pieces_view [OF assms] show ?thesis
    unfolding significant_def significant_pieces_def by (intro filter_trivia_view) auto
qed

lemma lex_words_of_pieces:
  assumes "pieces_ok ps"
  shows "lex_words (lex (piece_text ps)) = piece_words ps"
proof -
  have m: "List.map_filter token_word ts = map (to_ascii_lowercase \<circ> snd) (filter (\<lambda>p. fst p = Word) (map tok_view ts))"
    for ts
    by (induction ts) (auto simp: List.map_filter_simps token_word_def tok_view_def)
  have "filter (\<lambda>p. fst p = Word) (significant_pieces ps) = filter (\<lambda>p. fst p = Word) ps"
    by (auto simp: significant_pieces_def intro: filter_cong)
  then show ?thesis
    by (simp only: lex_words_significant m significant_of_pieces [OF assms] piece_words_def)
qed

text \<open>A text that opens with a reading verb and holds no side-effecting word is one read.\<close>

lemma pieces_single_read:
  assumes ok: "pieces_ok ps" and first: "significant_pieces ps = (Word, w) # rest"
    and verb: "to_ascii_lowercase w \<in> set READ_VERBS"
    and words: "list_all (\<lambda>w. \<not> effect_word w) (piece_words ps)"
  shows "is_select_like (piece_text ps) \<and> statement_count (lex (piece_text ps)) = 1
         \<and> \<not> has_multiple_statements (piece_text ps)
         \<and> (valid_utf8 (piece_text ps) \<longrightarrow> is_side_effect_free_read (piece_text ps))"
proof -
  let ?l = "lex (piece_text ps)"
  note view = significant_of_pieces [OF ok]
  from view first obtain t ts where sg: "significant ?l = t # ts" "tok_view t = (Word, w)" by auto
  have semi: "list_all (\<lambda>t. tok_kind t \<noteq> Semicolon) (significant ?l)"
  proof -
    have "\<forall>p \<in> set (map tok_view (significant ?l)). fst p \<noteq> Semicolon"
      unfolding view significant_pieces_def using ok piece_not_comment
      by (auto simp: pieces_ok_def list_all_iff)
    then show ?thesis by (simp add: tok_view_def list_all_iff)
  qed
  have piece: "piece_ok (Word, w)"
  proof -
    have "(Word, w) \<in> set (significant_pieces ps)" by (simp add: first)
    then have "(Word, w) \<in> set ps" by (simp add: significant_pieces_def)
    with ok show ?thesis unfolding pieces_ok_def list_all_iff by blast
  qed
  have "w \<noteq> ''(''" using piece by (auto simp: byte_class)
  with sg verb have read: "is_read_statement ?l"
    by (simp add: is_read_statement_def is_read_tokens_def tok_view_def token_word_def)
  have "read_side_effect ?l = None"
    using words by (simp add: read_side_effect_def lex_words_of_pieces [OF ok] find_None_iff list_all_iff)
  with read pieces_view [OF ok] have sel: "is_select_like (piece_text ps)" by (simp add: is_select_like_def Let_def)
  have seg: "segments [] (significant ?l) = [significant ?l]" using segments_run [OF semi, of "[]"] sg by simp
  then have one: "statement_count ?l = 1"
    using count_go_segments [of "[]" "significant ?l"] by (simp add: statement_count_def)
  have "filter (\<lambda>t. tok_kind t = Semicolon) (significant ?l) = []"
    using semi by (simp add: filter_empty_conv list_all_iff)
  with one pieces_view [OF ok] have single: "\<not> has_multiple_statements (piece_text ps)"
    by (simp add: has_multiple_statements_def)
  have "harmless_tokens (significant ?l)" using sel by (simp add: is_select_like_def Let_def harmless_significant)
  then have "is_side_effect_free_read (piece_text ps)" if "valid_utf8 (piece_text ps)"
    using pieces_view [OF ok] seg by (simp add: side_effect_free_read_tokens [OF that] statement_tokens_def)
  with sel one single show ?thesis by blast
qed

end
