(* ===== verification/BTreeMap.thy ===== *)
theory BTreeMap
  imports Main
begin

text \<open>
  \<^verbatim>\<open>std::collections::BTreeMap\<close> as the catalog uses it: an association list kept in key order, so
  that iterating over the map is reading the list. The locale \<open>ordered_map\<close> is what its clients
  rely on (a lookup after an update, the order of the keys); it is interpreted on the list.
\<close>

section \<open>The interface\<close>

locale ordered_map =
  fixes emp :: 'm
    and upd :: "('v option \<Rightarrow> 'v) \<Rightarrow> 'k :: linorder \<Rightarrow> 'm \<Rightarrow> 'm"
    and look :: "'m \<Rightarrow> 'k \<Rightarrow> 'v option"
    and entries :: "'m \<Rightarrow> ('k \<times> 'v) list"
    and inv :: "'m \<Rightarrow> bool"
  assumes look_emp: "look emp k = None"
    and look_upd: "inv m \<Longrightarrow> look (upd f k m) l = (if l = k then Some (f (look m k)) else look m l)"
    and inv_emp: "inv emp"
    and inv_upd: "inv m \<Longrightarrow> inv (upd f k m)"
    and sorted_entries: "inv m \<Longrightarrow> sorted_wrt (<) (map fst (entries m))"
    and entries_look: "inv m \<Longrightarrow> (k, v) \<in> set (entries m) \<longleftrightarrow> look m k = Some v"
begin

text \<open>Keys come out once each.\<close>

lemma distinct_keys: "inv m \<Longrightarrow> distinct (map fst (entries m))"
  using sorted_entries strict_sorted_iff by blast

lemma keys_look: "inv m \<Longrightarrow> k \<in> fst ` set (entries m) \<longleftrightarrow> look m k \<noteq> None"
  using entries_look [of m k] by (force simp: image_iff)

text \<open>Insertions at distinct fresh keys are all found again, and nothing else is.\<close>

definition put_all :: "('k \<times> 'v) list \<Rightarrow> 'm \<Rightarrow> 'm" where
  "put_all kvs m = fold (\<lambda>(k, v). upd (\<lambda>_. v) k) kvs m"

lemma put_all_inv: "inv m \<Longrightarrow> inv (put_all kvs m)"
  by (induction kvs arbitrary: m) (auto simp: put_all_def inv_upd)

lemma look_put_all:
  "inv m \<Longrightarrow> distinct (map fst kvs) \<Longrightarrow>
     look (put_all kvs m) l = (case map_of kvs l of Some v \<Rightarrow> Some v | None \<Rightarrow> look m l)"
proof (induction kvs arbitrary: m)
  case (Cons kv kvs)
  obtain k v where kv: "kv = (k, v)" by (cases kv)
  let ?m = "upd (\<lambda>_. v) k m"
  have IH: "look (put_all kvs ?m) l = (case map_of kvs l of Some v \<Rightarrow> Some v | None \<Rightarrow> look ?m l)"
    using Cons by (simp add: kv inv_upd)
  have "map_of kvs k = None" using Cons.prems by (simp add: kv map_of_eq_None_iff)
  with IH Cons.prems(1) show ?case
    by (cases "l = k") (simp_all add: put_all_def kv look_upd split: option.split)
qed (simp add: put_all_def)

lemma length_entries: "inv m \<Longrightarrow> length (entries m) = card {k. look m k \<noteq> None}"
proof -
  assume m: "inv m"
  have "{k. look m k \<noteq> None} = set (map fst (entries m))"
    using keys_look [OF m] by (simp add: set_eq_iff)
  then have "card {k. look m k \<noteq> None} = length (map fst (entries m))"
    using distinct_keys [OF m] distinct_card by metis
  then show ?thesis by simp
qed

end

section \<open>The map\<close>

type_synonym ('k, 'v) btree = "('k \<times> 'v) list"

text \<open>
  One function for \<^verbatim>\<open>insert\<close>, \<^verbatim>\<open>entry().or_insert()\<close> and the update of an entry in place: \<open>f\<close> is
  given what the key held.
\<close>

fun bt_update :: "('v option \<Rightarrow> 'v) \<Rightarrow> 'k :: linorder \<Rightarrow> ('k, 'v) btree \<Rightarrow> ('k, 'v) btree" where
  "bt_update f k [] = [(k, f None)]"
| "bt_update f k ((l, w) # m) =
     (if k < l then (k, f None) # (l, w) # m
      else if k = l then (k, f (Some w)) # m
      else (l, w) # bt_update f k m)"

definition bt_insert :: "'k :: linorder \<Rightarrow> 'v \<Rightarrow> ('k, 'v) btree \<Rightarrow> ('k, 'v) btree" where
  "bt_insert k v = bt_update (\<lambda>_. v) k"

definition bt_inv :: "('k :: linorder, 'v) btree \<Rightarrow> bool" where
  "bt_inv m \<longleftrightarrow> sorted_wrt (<) (map fst m)"

lemma bt_update_keys: "fst ` set (bt_update f k m) = insert k (fst ` set m)"
  by (induction f k m rule: bt_update.induct) auto

lemma bt_inv_Cons: "bt_inv ((l, w) # m) \<longleftrightarrow> (\<forall>k \<in> fst ` set m. l < k) \<and> bt_inv m"
  by (simp add: bt_inv_def)

lemma bt_inv_Nil [simp]: "bt_inv []"
  by (simp add: bt_inv_def)

lemma bt_inv_update: "bt_inv m \<Longrightarrow> bt_inv (bt_update f k m)"
  by (induction f k m rule: bt_update.induct)
    (auto simp: bt_inv_Cons bt_update_keys less_le_trans simp del: image_insert)

lemma map_of_less:
  fixes k :: "'k :: linorder"
  shows "\<forall>k \<in> fst ` set m. l < k \<Longrightarrow> k \<le> l \<Longrightarrow> map_of m k = None"
  by (auto simp: map_of_eq_None_iff)

lemma map_of_bt_update:
  "bt_inv m \<Longrightarrow>
     map_of (bt_update f k m) l = (if l = k then Some (f (map_of m k)) else map_of m l)"
  by (induction f k m rule: bt_update.induct) (auto simp: bt_inv_Cons map_of_less)

interpretation bt: ordered_map "[]" bt_update map_of "\<lambda>m. m" bt_inv
proof
  show "bt_inv m \<Longrightarrow> (k, v) \<in> set m \<longleftrightarrow> map_of m k = Some v"
    for m :: "('k :: linorder, 'v) btree" and k v
    by (auto simp: bt_inv_def strict_sorted_iff dest: map_of_SomeD intro: map_of_is_SomeI)
  show "bt_inv m \<Longrightarrow> sorted_wrt (<) (map fst m)" for m :: "('k :: linorder, 'v) btree"
    by (simp add: bt_inv_def)
qed (simp_all add: map_of_bt_update bt_inv_update)

end
