(* ===== verification/Catalog.thy ===== *)
theory Catalog
  imports Utf8 Guardrails Json
begin

text \<open>
  The data model of the catalog, \<^verbatim>\<open>crates/franken-snowflake-catalog/src/model.rs\<close>: snapshots,
  dataset manifests, column rows and the relations between catalog objects, with the lookups on
  them and the identifier comparison every lookup uses.

  A character of the source is the list of its bytes. Lower-casing a character outside ASCII is a
  table of the standard library: the argument \<open>lc\<close>, from the bytes of the character to the bytes of
  its lower case; the ASCII part is written out. The optional fields of the serialised form are
  options or lists as in the source; serialisation itself is not modelled.
\<close>

section \<open>Characters and identifiers\<close>

text \<open>\<^verbatim>\<open>str::chars\<close>: the characters of a string. The \<open>max\<close> is idle on valid text.\<close>

function str_chars :: "string \<Rightarrow> string list" where
  "str_chars s =
     (if s = [] then []
      else let n = max 1 (utf8_head s) in take n s # str_chars (drop n s))"
  by pat_completeness auto
termination by (relation "measure length") (auto simp: Let_def)

declare str_chars.simps [simp del]

definition char_is_whitespace :: "string \<Rightarrow> bool" where
  "char_is_whitespace c =
     (case c of [x] \<Rightarrow> ws1 x | [x, y] \<Rightarrow> ws2 x y | [x, y, z] \<Rightarrow> ws3 x y z | _ \<Rightarrow> False)"

definition char_to_lowercase :: "(string \<Rightarrow> string) \<Rightarrow> string \<Rightarrow> string" where
  "char_to_lowercase lc c = (case c of [x] \<Rightarrow> [to_lower x] | _ \<Rightarrow> lc c)"

definition normalize_identifier :: "(string \<Rightarrow> string) \<Rightarrow> string \<Rightarrow> string" where
  "normalize_identifier lc value =
     concat (map (char_to_lowercase lc)
       (filter (\<lambda>c. c \<noteq> ''_'' \<and> c \<noteq> ''-'' \<and> \<not> char_is_whitespace c) (str_chars value)))"

definition same_identifier :: "(string \<Rightarrow> string) \<Rightarrow> string \<Rightarrow> string \<Rightarrow> bool" where
  "same_identifier lc left right \<longleftrightarrow> normalize_identifier lc left = normalize_identifier lc right"

section \<open>Objects and relations\<close>

record ObjectRef =
  obj_database :: string
  obj_schema :: string
  obj_name :: string

definition obj_qualified :: "ObjectRef \<Rightarrow> string" where
  "obj_qualified r = obj_database r @ ''.'' @ obj_schema r @ ''.'' @ obj_name r"

datatype CatalogRelation =
  ViewDependsOn ObjectRef ObjectRef "string option"
| ForeignKey ObjectRef ObjectRef string
| UsesStage ObjectRef ObjectRef
| UsesFileFormat ObjectRef ObjectRef
| StageUsesFileFormat ObjectRef ObjectRef

record PrimaryKey =
  pk_object :: ObjectRef
  pk_columns :: "string list"
  pk_constraint :: "string option"

record StageEntry =
  stage_ref :: ObjectRef
  stage_type :: "string option"
  stage_url :: "string option"
  stage_region :: "string option"
  stage_comment :: "string option"

record FileFormatEntry =
  ff_ref :: ObjectRef
  ff_format_type :: "string option"
  ff_comment :: "string option"

record TagAssignment =
  ta_tag :: ObjectRef
  ta_value :: "string option"
  ta_object :: ObjectRef
  ta_column :: "string option"

definition tag_label :: "TagAssignment \<Rightarrow> string" where
  "tag_label t = (case ta_value t of Some v \<Rightarrow> obj_qualified (ta_tag t) @ ''='' @ v
                  | None \<Rightarrow> obj_qualified (ta_tag t))"

datatype DiscoveryGapKind = GapFailed | GapSkipped | GapTruncated | GapUnresolved

record DiscoveryGap =
  gap_source :: string
  gap_kind :: DiscoveryGapKind
  gap_detail :: string

section \<open>Datasets and columns\<close>

datatype ProvenanceSource =
  InformationSchema | AdapterOverlay | FixtureSource | OfflineCache | AccountUsage

datatype DataSourceClass = LiveSource | FixtureData | EmptyData

record Provenance =
  prov_source :: ProvenanceSource
  prov_data_source :: DataSourceClass
  prov_snapshot_id :: string
  prov_discovered_at :: string
  prov_profile_fingerprint :: string
  prov_object_fingerprint :: string
  prov_command_id :: string
  prov_trace_id :: string
  prov_redactions_applied :: "string list"

datatype DatasetKind = TableKind | ViewKind | MaterializedViewKind | ExternalTableKind

text \<open>The rights class of a manifest has the variants of the guardrails' one; its reader is its own.\<close>

definition manifest_rights_class :: "string \<Rightarrow> RightsClass" where
  "manifest_rights_class raw =
     (let l = to_ascii_lowercase raw
      in if l = ''public'' then Public else if l = ''internal'' then RightsClass.Internal
         else if l = ''private'' then Private else Restricted)"

datatype FieldRole = EntityKey | TimeIndex | KnownAt | Feature | Label | Metadata

datatype RoleConfidence = Confirmed | Inferred | Overlay

datatype DtypeClass =
  DtString | DtNumber | DtBoolean | DtDate | DtTime | DtTimestamp | DtBinary | DtVariant | DtUnknown

definition is_known_scalar :: "DtypeClass \<Rightarrow> bool" where
  "is_known_scalar d \<longleftrightarrow> d \<noteq> DtUnknown \<and> d \<noteq> DtVariant"

fun sql_api_type_token :: "DtypeClass \<Rightarrow> string" where
  "sql_api_type_token DtString = ''TEXT''"
| "sql_api_type_token DtNumber = ''FIXED''"
| "sql_api_type_token DtBoolean = ''BOOLEAN''"
| "sql_api_type_token DtDate = ''DATE''"
| "sql_api_type_token DtTime = ''TIME''"
| "sql_api_type_token DtTimestamp = ''TIMESTAMP_NTZ''"
| "sql_api_type_token DtBinary = ''BINARY''"
| "sql_api_type_token DtVariant = ''VARIANT''"
| "sql_api_type_token DtUnknown = ''TEXT''"

record DatasetField =
  fld_column :: string
  fld_role :: FieldRole
  fld_dtype :: DtypeClass
  fld_required :: bool
  fld_role_confidence :: RoleConfidence

record DatasetManifest =
  dm_id :: string
  dm_profile :: string
  dm_database :: string
  dm_schema :: string
  dm_object :: string
  dm_kind :: DatasetKind
  dm_rights_class :: RightsClass
  dm_default_limit :: nat
  dm_max_rows_without_export :: nat
  dm_approx_row_count :: "nat option"
  dm_bytes :: "nat option"
  dm_description :: "string option"
  dm_provenance :: Provenance
  dm_fields :: "DatasetField list"

definition field_by_role :: "DatasetManifest \<Rightarrow> FieldRole \<Rightarrow> DatasetField option" where
  "field_by_role manifest role = List.find (\<lambda>f. fld_role f = role) (dm_fields manifest)"

definition has_field :: "(string \<Rightarrow> string) \<Rightarrow> DatasetManifest \<Rightarrow> string \<Rightarrow> bool" where
  "has_field lc manifest column \<longleftrightarrow>
     list_ex (\<lambda>f. same_identifier lc (fld_column f) column) (dm_fields manifest)"

record ColumnCatalogEntry =
  col_dataset_id :: string
  col_database :: string
  col_schema :: string
  col_object :: string
  col_column :: string
  col_ordinal :: nat
  col_snowflake_type :: string
  col_dtype_class :: DtypeClass
  col_nullable :: bool
  col_precision :: "nat option"
  col_scale :: "nat option"
  col_length :: "nat option"
  col_aliases :: "string list"
  col_comment :: "string option"
  col_tags :: "string list"
  col_provenance :: "Provenance option"

definition matches_column :: "(string \<Rightarrow> string) \<Rightarrow> ColumnCatalogEntry \<Rightarrow> string \<Rightarrow> bool" where
  "matches_column lc c column = same_identifier lc (col_column c) column"

definition has_alias :: "(string \<Rightarrow> string) \<Rightarrow> ColumnCatalogEntry \<Rightarrow> string \<Rightarrow> bool" where
  "has_alias lc c alias \<longleftrightarrow>
     list_ex (\<lambda>candidate. normalize_identifier lc candidate = normalize_identifier lc alias) (col_aliases c)"

section \<open>Operators\<close>

datatype OperatorArity = Exact nat | Variadic nat nat

fun arity_accepts :: "OperatorArity \<Rightarrow> nat \<Rightarrow> bool" where
  "arity_accepts (Exact expected) count \<longleftrightarrow> count = expected"
| "arity_accepts (Variadic lo hi) count \<longleftrightarrow> count \<ge> lo \<and> count \<le> hi"

fun arity_label :: "OperatorArity \<Rightarrow> string" where
  "arity_label (Exact count) = nat_str count"
| "arity_label (Variadic lo hi) = nat_str lo @ ''..='' @ nat_str hi"

datatype OutputDtypeRule = OutputBoolean

record OperatorCatalogEntry =
  op_id :: string
  op_arity :: OperatorArity
  op_accepted_dtype_classes :: "DtypeClass list"
  op_output_dtype_rule :: OutputDtypeRule
  op_refusal_code :: string
  op_json_schema_contract_id :: string

definition accepts_dtype :: "OperatorCatalogEntry \<Rightarrow> DtypeClass \<Rightarrow> bool" where
  "accepts_dtype operator dtype \<longleftrightarrow> dtype \<in> set (op_accepted_dtype_classes operator)"

definition operator_entry :: "string \<Rightarrow> OperatorArity \<Rightarrow> DtypeClass list \<Rightarrow> OperatorCatalogEntry" where
  "operator_entry i arity accepted =
     \<lparr>op_id = i, op_arity = arity, op_accepted_dtype_classes = accepted,
      op_output_dtype_rule = OutputBoolean, op_refusal_code = ''FSNOW_FILTER_OPERATOR_DTYPE'',
      op_json_schema_contract_id = ''franken_snowflake.operator.'' @ i @ ''.v1''\<rparr>"

definition built_in_operator_catalog :: "OperatorCatalogEntry list" where
  "built_in_operator_catalog =
     (let scalar = [DtString, DtNumber, DtBoolean, DtDate, DtTime, DtTimestamp, DtBinary];
          ordered = [DtNumber, DtDate, DtTime, DtTimestamp];
          all_columns = [DtString, DtNumber, DtBoolean, DtDate, DtTime, DtTimestamp, DtBinary,
                         DtVariant, DtUnknown]
      in map (\<lambda>i. operator_entry i (Exact 1) scalar) [''eq'', ''neq'']
         @ map (\<lambda>i. operator_entry i (Exact 1) ordered) [''lt'', ''lte'', ''gt'', ''gte'']
         @ [operator_entry ''between'' (Exact 2) ordered,
            operator_entry ''in'' (Variadic 1 100) scalar,
            operator_entry ''is_null'' (Exact 0) all_columns,
            operator_entry ''is_not_null'' (Exact 0) all_columns,
            operator_entry ''contains'' (Exact 1) [DtString]])"

section \<open>Snapshots\<close>

definition SCHEMA_VERSION :: string where
  "SCHEMA_VERSION = ''franken_snowflake.dataset_manifest.v2''"

record CatalogSnapshot =
  cs_schema_version :: string
  cs_provenance :: Provenance
  cs_datasets :: "DatasetManifest list"
  cs_columns :: "ColumnCatalogEntry list"
  cs_operators :: "OperatorCatalogEntry list"
  cs_relations_discovered :: bool
  cs_relations :: "CatalogRelation list"
  cs_primary_keys :: "PrimaryKey list"
  cs_stages :: "StageEntry list"
  cs_file_formats :: "FileFormatEntry list"
  cs_tags :: "TagAssignment list"
  cs_gaps :: "DiscoveryGap list"

definition empty_snapshot :: "Provenance \<Rightarrow> CatalogSnapshot" where
  "empty_snapshot provenance =
     \<lparr>cs_schema_version = SCHEMA_VERSION, cs_provenance = provenance, cs_datasets = [],
      cs_columns = [], cs_operators = [], cs_relations_discovered = False, cs_relations = [],
      cs_primary_keys = [], cs_stages = [], cs_file_formats = [], cs_tags = [], cs_gaps = []\<rparr>"

definition primary_key :: "CatalogSnapshot \<Rightarrow> ObjectRef \<Rightarrow> PrimaryKey option" where
  "primary_key snapshot obj = List.find (\<lambda>key. pk_object key = obj) (cs_primary_keys snapshot)"

definition snapshot_dataset :: "CatalogSnapshot \<Rightarrow> string \<Rightarrow> DatasetManifest option" where
  "snapshot_dataset snapshot dataset_id =
     List.find (\<lambda>dataset. dm_id dataset = dataset_id) (cs_datasets snapshot)"

definition columns_for_dataset :: "CatalogSnapshot \<Rightarrow> string \<Rightarrow> ColumnCatalogEntry list" where
  "columns_for_dataset snapshot dataset_id =
     sort_key col_ordinal (filter (\<lambda>c. col_dataset_id c = dataset_id) (cs_columns snapshot))"

section \<open>Facts the catalog components share\<close>

lemma str_chars_Nil [simp]: "str_chars [] = []"
  by (simp add: str_chars.simps)

lemma concat_str_chars: "concat (str_chars s) = s"
proof (induction s rule: str_chars.induct)
  case (1 s)
  then show ?case by (subst str_chars.simps) (auto simp: Let_def)
qed

lemma str_chars_inj: "str_chars s = str_chars t \<Longrightarrow> s = t"
  by (metis concat_str_chars)

lemma same_identifier_sym: "same_identifier lc a b = same_identifier lc b a"
  by (auto simp: same_identifier_def)

lemma same_identifier_trans: "same_identifier lc a b \<Longrightarrow> same_identifier lc b c \<Longrightarrow> same_identifier lc a c"
  by (simp add: same_identifier_def)

lemma same_identifier_refl [simp]: "same_identifier lc a a"
  by (simp add: same_identifier_def)

lemma columns_for_dataset_set:
  "set (columns_for_dataset snapshot i) = {c \<in> set (cs_columns snapshot). col_dataset_id c = i}"
  by (simp add: columns_for_dataset_def)

lemma find_Some_mem: "List.find P xs = Some x \<Longrightarrow> x \<in> set xs \<and> P x"
  by (induction xs) (auto split: if_splits)

end
