(* ===== verification/Predicates.thy ===== *)
theory Predicates
  imports BTreeMap Catalog "HOL-Library.Product_Lexorder"
begin

text \<open>
  Structural predicates and their validation against the catalog,
  \<^verbatim>\<open>crates/franken-snowflake-catalog/src/predicate.rs\<close>: the predicate tree, the refusals with their
  suggestions, and the edit distance that ranks the suggestions.

  The refusals a routine pushes are the list it returns. Their messages are left out: each follows
  from the code and the names it carries. Lemmas: the two-row distance is the least number of
  edits; validation accepts exactly the trees whose leaves all resolve and fit; a suggestion is a
  name of the catalog, at its least distance.
\<close>

section \<open>Predicates\<close>

record 'n LeafPredicate =
  leaf_column :: string
  leaf_op :: string
  leaf_value :: "'n JsonValue option"

text \<open>A compound holds its conjunction, its disjunction and its negation.\<close>

datatype 'n PredicateAst =
  Compound "'n PredicateAst list" "'n PredicateAst list" "'n PredicateAst option"
| Leaf "'n LeafPredicate"

datatype PredicateRefusalCode = ColumnUnknown | OperatorUnknown | FilterOperatorDtype | FilterArity

fun refusal_stable_code :: "PredicateRefusalCode \<Rightarrow> string" where
  "refusal_stable_code ColumnUnknown = ''FSNOW_COLUMN_UNKNOWN''"
| "refusal_stable_code OperatorUnknown = ''FSNOW_OPERATOR_UNKNOWN''"
| "refusal_stable_code FilterOperatorDtype = ''FSNOW_FILTER_OPERATOR_DTYPE''"
| "refusal_stable_code FilterArity = ''FSNOW_FILTER_ARITY''"

record PredicateRefusal =
  pref_code :: PredicateRefusalCode
  pref_column :: "string option"
  pref_operator :: "string option"
  pref_did_you_mean :: "string list"

fun value_count :: "'n JsonValue option \<Rightarrow> nat" where
  "value_count None = 0"
| "value_count (Some (JArray vs)) = length vs"
| "value_count (Some _) = 1"

definition find_column ::
  "(string \<Rightarrow> string) \<Rightarrow> string \<Rightarrow> ColumnCatalogEntry list \<Rightarrow> ColumnCatalogEntry option" where
  "find_column lc column columns =
     (let normalized = normalize_identifier lc column
      in List.find (\<lambda>candidate. normalize_identifier lc (col_column candidate) = normalized) columns)"

definition find_operator :: "string \<Rightarrow> OperatorCatalogEntry list \<Rightarrow> OperatorCatalogEntry option" where
  "find_operator operator operators = List.find (\<lambda>candidate. op_id candidate = operator) operators"

section \<open>Edit distance\<close>

text \<open>
  One row of the table: \<open>prev\<close> is the row above from the current column on, \<open>west\<close> the entry just
  written to its left.
\<close>

fun lev_row :: "'c \<Rightarrow> nat list \<Rightarrow> 'c list \<Rightarrow> nat \<Rightarrow> nat list" where
  "lev_row x (p # q # prev) (y # right) west =
     (let substitution_cost = (if x = y then 0 else 1);
          delete = q + 1; insert = west + 1; substitute = p + substitution_cost;
          current = min (min delete insert) substitute
      in current # lev_row x (q # prev) right current)"
| "lev_row x prev right west = []"

fun lev_rows :: "nat \<Rightarrow> 'c list \<Rightarrow> nat list \<Rightarrow> 'c list \<Rightarrow> nat list" where
  "lev_rows left_index [] previous right = previous"
| "lev_rows left_index (x # left) previous right =
     lev_rows (left_index + 1) left
       ((left_index + 1) # lev_row x previous right (left_index + 1)) right"

definition levenshtein :: "string \<Rightarrow> string \<Rightarrow> nat" where
  "levenshtein left right =
     (let right_chars = str_chars right
      in lev_rows 0 (str_chars left) [0..<length right_chars + 1] right_chars ! length right_chars)"

section \<open>Suggestions\<close>

definition plausible :: "string \<Rightarrow> string \<Rightarrow> bool" where
  "plausible needle candidate \<longleftrightarrow>
     contains_sub candidate needle \<or> contains_sub needle candidate \<or> levenshtein needle candidate \<le> 3"

definition score_candidate ::
  "(string \<Rightarrow> string) \<Rightarrow> string \<Rightarrow> string \<Rightarrow> string \<Rightarrow> (string, nat) btree \<Rightarrow> (string, nat) btree" where
  "score_candidate lc needle candidate column candidates =
     (let candidate_normalized = normalize_identifier lc candidate;
          distance = levenshtein needle candidate_normalized
      in if \<not> plausible needle candidate_normalized then candidates
         else bt_update (\<lambda>entry. case entry of None \<Rightarrow> distance
                           | Some e \<Rightarrow> if distance < e then distance else e) column candidates)"

definition score_column ::
  "(string \<Rightarrow> string) \<Rightarrow> string \<Rightarrow> ColumnCatalogEntry \<Rightarrow> (string, nat) btree \<Rightarrow> (string, nat) btree" where
  "score_column lc needle c candidates =
     fold (\<lambda>alias. score_candidate lc needle alias (col_column c)) (col_aliases c)
       (score_candidate lc needle (col_column c) (col_column c) candidates)"

definition did_you_mean_columns ::
  "(string \<Rightarrow> string) \<Rightarrow> string \<Rightarrow> ColumnCatalogEntry list \<Rightarrow> string list" where
  "did_you_mean_columns lc input columns =
     (let needle = normalize_identifier lc input;
          candidates = fold (score_column lc needle) columns [];
          ranked = sort_key (\<lambda>(column, distance). (distance, to_ascii_lowercase column)) candidates
      in map fst (take 3 ranked))"

definition score_operator :: "string \<Rightarrow> OperatorCatalogEntry \<Rightarrow> (string, nat) btree \<Rightarrow> (string, nat) btree" where
  "score_operator needle operator candidates =
     (let i = to_ascii_lowercase (op_id operator);
          distance = levenshtein needle i
      in if starts_with i needle
         then bt_insert (op_id operator) (length i - length needle) candidates
         else if distance \<le> 2 then bt_insert (op_id operator) distance candidates
         else candidates)"

definition did_you_mean_operators :: "string \<Rightarrow> OperatorCatalogEntry list \<Rightarrow> string list" where
  "did_you_mean_operators input operators =
     (let needle = to_ascii_lowercase (str_trim input)
      in if needle = [] then []
         else map fst (take 3 (sort_key (\<lambda>(i, distance). (distance, i))
                (fold (score_operator needle) operators []))))"

section \<open>Validation\<close>

definition validate_leaf ::
  "(string \<Rightarrow> string) \<Rightarrow> 'n LeafPredicate \<Rightarrow> ColumnCatalogEntry list \<Rightarrow> OperatorCatalogEntry list
     \<Rightarrow> PredicateRefusal list" where
  "validate_leaf lc leaf columns operators =
     (let column = find_column lc (leaf_column leaf) columns;
          operator = find_operator (leaf_op leaf) operators;
          unknown_column =
            (if column = None
             then [\<lparr>pref_code = ColumnUnknown, pref_column = Some (leaf_column leaf),
                    pref_operator = Some (leaf_op leaf),
                    pref_did_you_mean = did_you_mean_columns lc (leaf_column leaf) columns\<rparr>] else []);
          unknown_operator =
            (if operator = None
             then [\<lparr>pref_code = OperatorUnknown, pref_column = Some (leaf_column leaf),
                    pref_operator = Some (leaf_op leaf),
                    pref_did_you_mean = did_you_mean_operators (leaf_op leaf) operators\<rparr>] else [])
      in unknown_column @ unknown_operator @
         (case (column, operator) of
            (Some column, Some operator) \<Rightarrow>
              (if \<not> arity_accepts (op_arity operator) (value_count (leaf_value leaf))
               then [\<lparr>pref_code = FilterArity, pref_column = Some (col_column column),
                      pref_operator = Some (op_id operator), pref_did_you_mean = []\<rparr>] else [])
              @ (if \<not> accepts_dtype operator (col_dtype_class column)
                 then [\<lparr>pref_code = FilterOperatorDtype, pref_column = Some (col_column column),
                        pref_operator = Some (op_id operator), pref_did_you_mean = []\<rparr>] else [])
          | _ \<Rightarrow> []))"

fun validate_node ::
  "(string \<Rightarrow> string) \<Rightarrow> 'n PredicateAst \<Rightarrow> ColumnCatalogEntry list \<Rightarrow> OperatorCatalogEntry list
     \<Rightarrow> PredicateRefusal list" where
  "validate_node lc (Compound ands ors neg) columns operators =
     concat (map (\<lambda>child. validate_node lc child columns operators) ands)
     @ concat (map (\<lambda>child. validate_node lc child columns operators) ors)
     @ (case neg of Some child \<Rightarrow> validate_node lc child columns operators | None \<Rightarrow> [])"
| "validate_node lc (Leaf leaf) columns operators = validate_leaf lc leaf columns operators"

definition validate_predicate ::
  "(string \<Rightarrow> string) \<Rightarrow> 'n PredicateAst \<Rightarrow> ColumnCatalogEntry list \<Rightarrow> OperatorCatalogEntry list
     \<Rightarrow> PredicateRefusal list + unit" where
  "validate_predicate lc predicate columns operators =
     (let refusals = validate_node lc predicate columns operators
      in if refusals = [] then Inr () else Inl refusals)"

section \<open>The distance is the least number of edits\<close>

text \<open>
  The reference: \<open>edits n xs ys\<close> says that \<open>n\<close> insertions, deletions and replacements turn \<open>xs\<close>
  into \<open>ys\<close>.
\<close>

inductive edits :: "nat \<Rightarrow> 'a list \<Rightarrow> 'a list \<Rightarrow> bool" where
  edits_done: "edits 0 [] []"
| edits_keep: "edits n xs ys \<Longrightarrow> edits n (x # xs) (x # ys)"
| edits_replace: "edits n xs ys \<Longrightarrow> edits (Suc n) (x # xs) (y # ys)"
| edits_delete: "edits n xs ys \<Longrightarrow> edits (Suc n) (x # xs) ys"
| edits_insert: "edits n xs ys \<Longrightarrow> edits (Suc n) xs (y # ys)"

lemma edits_append: "edits n xs ys \<Longrightarrow> edits m us vs \<Longrightarrow> edits (n + m) (xs @ us) (ys @ vs)"
  by (induction rule: edits.induct) (auto intro: edits.intros)

lemma edits_one:
  "edits 0 [x] [x]" "edits (Suc 0) [x] [y]" "edits (Suc 0) [x] []" "edits (Suc 0) [] [y]"
  by (auto intro: edits.intros)

lemma edits_rev: "edits n xs ys \<Longrightarrow> edits n (rev xs) (rev ys)"
proof (induction rule: edits.induct)
  case (edits_keep n xs ys x)
  then show ?case using edits_append [OF _ edits_one(1)] by force
next
  case (edits_replace n xs ys x y)
  then show ?case using edits_append [OF _ edits_one(2)] by force
next
  case (edits_delete n xs ys x)
  then show ?case using edits_append [OF _ edits_one(3)] by force
next
  case (edits_insert n xs ys y)
  then show ?case using edits_append [OF _ edits_one(4)] by force
qed (rule edits_done [simplified] | simp add: edits_done)+

text \<open>The recursion the table tabulates, on the reversed lists: a row grows at its end.\<close>

fun rdist :: "'a list \<Rightarrow> 'a list \<Rightarrow> nat" where
  "rdist [] ys = length ys"
| "rdist (x # xs) [] = Suc (length xs)"
| "rdist (x # xs) (y # ys) =
     min (min (rdist xs (y # ys) + 1) (rdist (x # xs) ys + 1)) (rdist xs ys + (if x = y then 0 else 1))"

lemma rdist_Nil2 [simp]: "rdist xs [] = length xs"
  by (cases xs) auto

lemma rdist_edits: "edits (rdist xs ys) xs ys"
proof (induction xs ys rule: rdist.induct)
  case (1 ys)
  show ?case by (induction ys) (auto intro: edits.intros)
next
  case (2 x xs)
  have "edits (length xs) xs []" by (induction xs) (auto intro: edits.intros)
  then show ?case by (auto intro: edits.intros)
next
  case (3 x xs y ys)
  then show ?case by (auto simp: min_def intro: edits.intros)
qed

lemma rdist_least: "edits n xs ys \<Longrightarrow> rdist xs ys \<le> n"
proof (induction rule: edits.induct)
  case (edits_delete n xs ys x)
  then show ?case by (cases ys) auto
next
  case (edits_insert n xs ys y)
  then show ?case by (cases xs) auto
qed auto

definition prefix_dist :: "'a list \<Rightarrow> 'a list \<Rightarrow> nat" where
  "prefix_dist xs ys = rdist (rev xs) (rev ys)"

lemma prefix_dist_snoc:
  "prefix_dist (xs @ [x]) (ys @ [y]) =
     min (min (prefix_dist xs (ys @ [y]) + 1) (prefix_dist (xs @ [x]) ys + 1))
       (prefix_dist xs ys + (if x = y then 0 else 1))"
  by (simp add: prefix_dist_def)

lemma prefix_dist_Nil [simp]: "prefix_dist xs [] = length xs" "prefix_dist [] ys = length ys"
  by (simp_all add: prefix_dist_def)

lemma upt_two: "k < n \<Longrightarrow> [k..<Suc n] = k # Suc k # [Suc (Suc k)..<Suc n]"
  by (simp add: upt_rec)

lemma lev_row_correct:
  "k \<le> length r \<Longrightarrow>
     lev_row x (map (\<lambda>j. prefix_dist ls (take j r)) [k..<Suc (length r)]) (drop k r)
       (prefix_dist (ls @ [x]) (take k r))
     = map (\<lambda>j. prefix_dist (ls @ [x]) (take j r)) [Suc k..<Suc (length r)]"
proof (induction "length r - k" arbitrary: k)
  case 0
  then have "k = length r" by simp
  then show ?case by (simp add: upt_rec)
next
  case (Suc d)
  then have k: "k < length r" by simp
  let ?P = "\<lambda>j. prefix_dist ls (take j r)" and ?C = "\<lambda>j. prefix_dist (ls @ [x]) (take j r)"
  have row: "map ?P [k..<Suc (length r)] = ?P k # ?P (Suc k) # map ?P [Suc (Suc k)..<Suc (length r)]"
    by (simp only: upt_two [OF k] list.map)
  have tl: "?P (Suc k) # map ?P [Suc (Suc k)..<Suc (length r)] = map ?P [Suc k..<Suc (length r)]"
    using k by (simp add: upt_conv_Cons)
  have c: "?C (Suc k) = min (min (?P (Suc k) + 1) (?C k + 1)) (?P k + (if x = r ! k then 0 else 1))"
    using k prefix_dist_snoc [of ls x "take k r" "r ! k"] by (simp add: take_Suc_conv_app_nth)
  have "drop k r = r ! k # drop (Suc k) r" using k by (rule Cons_nth_drop_Suc [symmetric])
  then have "lev_row x (map ?P [k..<Suc (length r)]) (drop k r) (?C k)
      = ?C (Suc k) # lev_row x (map ?P [Suc k..<Suc (length r)]) (drop (Suc k) r) (?C (Suc k))"
    by (simp only: row lev_row.simps Let_def c tl [symmetric])
  also have "\<dots> = ?C (Suc k) # map ?C [Suc (Suc k)..<Suc (length r)]"
    using Suc.hyps(1) [of "Suc k"] Suc.hyps(2) k by simp
  also have "\<dots> = map ?C [Suc k..<Suc (length r)]" using k by (simp add: upt_conv_Cons del: upt_Suc)
  finally show ?case .
qed

lemma lev_rows_correct:
  "lev_rows (length ls) left (map (\<lambda>j. prefix_dist ls (take j r)) [0..<Suc (length r)]) r
     = map (\<lambda>j. prefix_dist (ls @ left) (take j r)) [0..<Suc (length r)]"
proof (induction left arbitrary: ls)
  case (Cons x left)
  have "lev_row x (map (\<lambda>j. prefix_dist ls (take j r)) [0..<Suc (length r)]) r (length ls + 1)
      = map (\<lambda>j. prefix_dist (ls @ [x]) (take j r)) [Suc 0..<Suc (length r)]"
    using lev_row_correct [of 0 r x ls] by simp
  then have "(length ls + 1) # lev_row x (map (\<lambda>j. prefix_dist ls (take j r)) [0..<Suc (length r)]) r
        (length ls + 1) = map (\<lambda>j. prefix_dist (ls @ [x]) (take j r)) [0..<Suc (length r)]"
    by (simp add: upt_conv_Cons del: upt_Suc)
  with Cons [of "ls @ [x]"] show ?case by (simp del: upt_Suc)
qed simp

lemma levenshtein_rdist:
  "levenshtein left right = rdist (rev (str_chars left)) (rev (str_chars right))"
proof -
  let ?r = "str_chars right"
  have "[0..<Suc (length ?r)] = map (\<lambda>j. prefix_dist [] (take j ?r)) [0..<Suc (length ?r)]"
    by (intro nth_equalityI) (auto simp: min_def simp del: upt_Suc)
  then have "lev_rows 0 (str_chars left) [0..<Suc (length ?r)] ?r
      = map (\<lambda>j. prefix_dist (str_chars left) (take j ?r)) [0..<Suc (length ?r)]"
    using lev_rows_correct [of "[]" "str_chars left" ?r] by simp
  then show ?thesis
    by (simp add: levenshtein_def Let_def nth_map prefix_dist_def del: upt_Suc)
qed

text \<open>
  C14. The two-row table computes the edit distance: the number it returns is the least number of
  insertions, deletions and replacements of characters that turn one string into the other.
\<close>

theorem levenshtein_is_edit_distance:
  "levenshtein left right = (LEAST n. edits n (str_chars left) (str_chars right))
   \<and> edits (levenshtein left right) (str_chars left) (str_chars right)"
proof -
  have e: "edits (levenshtein left right) (str_chars left) (str_chars right)"
    using edits_rev [OF rdist_edits [of "rev (str_chars left)" "rev (str_chars right)"]]
    by (simp add: levenshtein_rdist)
  have "levenshtein left right \<le> n" if "edits n (str_chars left) (str_chars right)" for n
    using rdist_least [OF edits_rev [OF that]] by (simp add: levenshtein_rdist)
  with e show ?thesis by (metis Least_equality)
qed

lemma levenshtein_self: "levenshtein s s = 0"
proof -
  have "edits 0 xs xs" for xs :: "string list" by (induction xs) (auto intro: edits.intros)
  from rdist_least [OF this] show ?thesis by (simp add: levenshtein_rdist)
qed

section \<open>What validation accepts\<close>

text \<open>The leaves of a predicate, in the order the source visits them.\<close>

fun leaves :: "'n PredicateAst \<Rightarrow> 'n LeafPredicate list" where
  "leaves (Compound ands ors neg) =
     concat (map leaves ands) @ concat (map leaves ors)
     @ (case neg of Some child \<Rightarrow> leaves child | None \<Rightarrow> [])"
| "leaves (Leaf leaf) = [leaf]"

definition leaf_ok ::
  "(string \<Rightarrow> string) \<Rightarrow> ColumnCatalogEntry list \<Rightarrow> OperatorCatalogEntry list \<Rightarrow> 'n LeafPredicate \<Rightarrow> bool" where
  "leaf_ok lc columns operators leaf \<longleftrightarrow>
     (\<exists>c operator. find_column lc (leaf_column leaf) columns = Some c
        \<and> find_operator (leaf_op leaf) operators = Some operator
        \<and> arity_accepts (op_arity operator) (value_count (leaf_value leaf))
        \<and> accepts_dtype operator (col_dtype_class c))"

lemma validate_leaf_ok: "validate_leaf lc leaf columns operators = [] \<longleftrightarrow> leaf_ok lc columns operators leaf"
  by (auto simp: validate_leaf_def leaf_ok_def Let_def split: option.splits)

lemma validate_node_leaves:
  "validate_node lc p columns operators
     = concat (map (\<lambda>leaf. validate_leaf lc leaf columns operators) (leaves p))"
proof (induction lc p columns operators rule: validate_node.induct)
  case (1 lc ands ors neg columns operators)
  have m: "concat (map (\<lambda>child. validate_node lc child columns operators) ps)
      = concat (map (\<lambda>leaf. validate_leaf lc leaf columns operators) (concat (map leaves ps)))"
    if "\<And>p. p \<in> set ps \<Longrightarrow> validate_node lc p columns operators
      = concat (map (\<lambda>leaf. validate_leaf lc leaf columns operators) (leaves p))" for ps
    using that by (induction ps) auto
  from m [of ands] m [of ors] 1 show ?case by (auto split: option.splits)
qed simp

text \<open>
  C15. Validation reports every leaf, in order: the refusals of a predicate are those of its leaves
  one after the other, so it is accepted exactly when each leaf names a column and an operator of
  the catalog, carries as many values as the operator takes, and the operator takes the column's
  class; a refusal then has the code of what failed.
\<close>

theorem validate_predicate_iff:
  "(validate_predicate lc p columns operators = Inr ()
      \<longleftrightarrow> list_all (leaf_ok lc columns operators) (leaves p))
   \<and> (case validate_predicate lc p columns operators of Inr _ \<Rightarrow> True
      | Inl refusals \<Rightarrow>
          refusals = concat (map (\<lambda>leaf. validate_leaf lc leaf columns operators) (leaves p)))"
  by (auto simp: validate_predicate_def validate_node_leaves Let_def list_all_iff
      simp flip: validate_leaf_ok)

section \<open>What is suggested\<close>

text \<open>The names a column can be meant by, and the best distance of a plausible one.\<close>

definition column_names :: "ColumnCatalogEntry \<Rightarrow> string list" where
  "column_names c = col_column c # col_aliases c"

definition name_score :: "(string \<Rightarrow> string) \<Rightarrow> string \<Rightarrow> string \<Rightarrow> nat option" where
  "name_score lc needle name =
     (if plausible needle (normalize_identifier lc name)
      then Some (levenshtein needle (normalize_identifier lc name)) else None)"

text \<open>The scores a suggestion can get: those of the names of the columns that bear it.\<close>

definition scores :: "(string \<Rightarrow> string) \<Rightarrow> string \<Rightarrow> ColumnCatalogEntry list \<Rightarrow> string \<Rightarrow> nat set" where
  "scores lc needle columns column =
     {d. \<exists>c \<in> set columns. col_column c = column
           \<and> (\<exists>name \<in> set (column_names c). name_score lc needle name = Some d)}"

definition least_of :: "nat set \<Rightarrow> nat option" where
  "least_of D = (if D = {} then None else Some (Min D))"

lemma scores_finite: "finite (scores lc needle columns column)"
proof -
  have "scores lc needle columns column
      \<subseteq> (\<Union>c \<in> set columns. (\<lambda>name. levenshtein needle (normalize_identifier lc name)) ` set (column_names c))"
    by (auto simp: scores_def name_score_def split: if_splits)
  then show ?thesis by (rule finite_subset) auto
qed

text \<open>One update: the entry of the column becomes the least of the old one and the new score.\<close>

lemma score_candidate_step:
  assumes "bt_inv m" and "\<And>l. map_of m l = least_of (D l)" and "\<And>l. finite (D l)"
  shows "bt_inv (score_candidate lc needle name column m)"
    and "map_of (score_candidate lc needle name column m) l
           = least_of (if l = column then D l \<union> set_option (name_score lc needle name) else D l)"
proof -
  have m: "Min (insert d A) = (if d < Min A then d else Min A)" if "finite A" "A \<noteq> {}" for d and A :: "nat set"
  proof -
    from that have "Min (insert d A) = min d (Min A)" by (rule Min_insert)
    then show ?thesis by simp
  qed
  show "bt_inv (score_candidate lc needle name column m)"
    using assms(1) by (simp add: score_candidate_def Let_def bt.inv_upd)
  show "map_of (score_candidate lc needle name column m) l
      = least_of (if l = column then D l \<union> set_option (name_score lc needle name) else D l)"
    using assms m [of "D column"]
    by (simp add: score_candidate_def Let_def bt.look_upd name_score_def least_of_def)
qed

lemma score_names:
  assumes "bt_inv m" and "\<And>l. map_of m l = least_of (D l)" and "\<And>l. finite (D l)"
  shows "bt_inv (fold (\<lambda>(name, column). score_candidate lc needle name column) ncs m)
         \<and> (\<forall>l. map_of (fold (\<lambda>(name, column). score_candidate lc needle name column) ncs m) l
                = least_of (D l \<union> {d. \<exists>(name, column) \<in> set ncs. column = l \<and> name_score lc needle name = Some d}))"
  using assms
proof (induction ncs arbitrary: m D)
  case (Cons nc ncs)
  obtain name column where nc: "nc = (name, column)" by (cases nc)
  let ?m = "score_candidate lc needle name column m"
    and ?D = "\<lambda>l. if l = column then D l \<union> set_option (name_score lc needle name) else D l"
  note step = score_candidate_step [OF Cons.prems, of lc needle name column]
  have "finite (?D l)" for l using Cons.prems(3) by simp
  from Cons.IH [OF step this]
  have IH: "bt_inv (fold (\<lambda>(name, column). score_candidate lc needle name column) ncs ?m)"
    "map_of (fold (\<lambda>(name, column). score_candidate lc needle name column) ncs ?m) l
       = least_of (?D l \<union> {d. \<exists>(name, column) \<in> set ncs. column = l \<and> name_score lc needle name = Some d})" for l
    by blast+
  have "?D l \<union> {d. \<exists>(name, column) \<in> set ncs. column = l \<and> name_score lc needle name = Some d}
      = D l \<union> {d. \<exists>(name, column) \<in> set (nc # ncs). column = l \<and> name_score lc needle name = Some d}" for l
    by (auto simp: nc)
  with IH show ?case by (simp add: nc)
qed simp

definition named_columns :: "ColumnCatalogEntry list \<Rightarrow> (string \<times> string) list" where
  "named_columns columns = concat (map (\<lambda>c. map (\<lambda>name. (name, col_column c)) (column_names c)) columns)"

lemma fold_score_columns:
  "fold (score_column lc needle) columns m
     = fold (\<lambda>(name, column). score_candidate lc needle name column) (named_columns columns) m"
proof (induction columns arbitrary: m)
  case (Cons c columns)
  have "fold (\<lambda>(name, column). score_candidate lc needle name column) (map (\<lambda>name. (name, x)) names) m
      = fold (\<lambda>name. score_candidate lc needle name x) names m" for names x m
    by (induction names arbitrary: m) auto
  with Cons show ?case
    by (simp add: named_columns_def score_column_def column_names_def)
qed (simp add: named_columns_def)

lemma candidates_correct:
  "bt_inv (fold (score_column lc needle) columns [])
   \<and> (\<forall>l. map_of (fold (score_column lc needle) columns []) l = least_of (scores lc needle columns l))"
proof -
  have "{d. \<exists>(name, column) \<in> set (named_columns columns). column = l \<and> name_score lc needle name = Some d}
      = scores lc needle columns l" for l
    by (auto simp: named_columns_def scores_def)
  then show ?thesis
    using score_names [of "[]" "\<lambda>_. {}" lc needle "named_columns columns"]
    by (simp add: fold_score_columns least_of_def)
qed

lemma sorted_take_best:
  assumes "sorted_wrt R xs" and "x \<in> set xs" and "x \<notin> set (take n xs)"
  shows "length (take n xs) = n \<and> (\<forall>y \<in> set (take n xs). R y x)"
proof -
  have x: "x \<in> set (drop n xs)"
    using assms(2,3) by (metis Un_iff append_take_drop_id set_append)
  then have "n \<le> length xs" by (metis drop_all empty_iff empty_set nle_le)
  moreover from assms(1) have "sorted_wrt R (take n xs @ drop n xs)" by simp
  with x have "\<forall>y \<in> set (take n xs). R y x" by (simp only: sorted_wrt_append) blast
  ultimately show ?thesis by simp
qed

text \<open>
  A suggestion is the best there is: at most three columns of the catalog come back, each once,
  nearest first, where the distance of a column is the least one over its own name and its
  aliases; and a column with a plausible name that was left out is no nearer than those returned.
\<close>

theorem did_you_mean_columns_best:
  "let r = did_you_mean_columns lc input columns;
       S = scores lc (normalize_identifier lc input) columns
   in length r \<le> 3 \<and> distinct r
      \<and> list_all (\<lambda>c. S c \<noteq> {}) r
      \<and> sorted (map (\<lambda>c. Min (S c)) r)
      \<and> {c. S c \<noteq> {}} - set r \<subseteq> {c. length r = 3 \<and> list_all (\<lambda>s. Min (S s) \<le> Min (S c)) r}"
proof -
  define r where "r = did_you_mean_columns lc input columns"
  define S where "S = scores lc (normalize_identifier lc input) columns"
  define m where "m = fold (score_column lc (normalize_identifier lc input)) columns []"
  let ?key = "\<lambda>(column, distance). (distance :: nat, to_ascii_lowercase column)"
  define ranked where "ranked = sort_key ?key m"
  have inv: "bt_inv m" and look: "map_of m l = least_of (S l)" for l
    using candidates_correct [of lc "normalize_identifier lc input" columns] by (simp_all add: m_def S_def)
  have r: "r = map fst (take 3 ranked)"
    by (simp add: r_def did_you_mean_columns_def ranked_def m_def Let_def)
  have mem: "(c, d) \<in> set ranked \<longleftrightarrow> S c \<noteq> {} \<and> d = Min (S c)" for c d
    using bt.entries_look [OF inv, of c d] by (auto simp: ranked_def look least_of_def)
  have "distinct (map fst m)" by (rule bt.distinct_keys [OF inv])
  then have dist: "distinct (map fst ranked)"
    by (simp add: ranked_def distinct_map distinct_sort)
  then have "distinct r" by (simp add: r take_map [symmetric] distinct_take)
  have key: "sorted_wrt (\<lambda>x y. ?key x \<le> ?key y) ranked"
    using sorted_sort_key [of ?key m] by (simp add: ranked_def sorted_map)
  then have le: "sorted_wrt (\<lambda>x y. snd x \<le> snd y) ranked"
    by (rule sorted_wrt_mono_rel [rotated]) (auto simp: less_eq_prod_def split: prod.splits)
  have in_r: "c \<in> set r \<longleftrightarrow> (c, Min (S c)) \<in> set (take 3 ranked)" for c
  proof
    assume "c \<in> set r"
    then obtain d where d: "(c, d) \<in> set (take 3 ranked)" by (auto simp: r)
    then have "(c, d) \<in> set ranked" by (rule in_set_takeD)
    with d show "(c, Min (S c)) \<in> set (take 3 ranked)" by (simp add: mem)
  qed (force simp: r)
  have "map (\<lambda>c. Min (S c)) r = map snd (take 3 ranked)"
    using mem by (auto simp: r dest: in_set_takeD)
  moreover have "sorted (map snd (take 3 ranked))"
    using le sorted_wrt_take [OF le, of 3] by (simp add: sorted_map)
  ultimately have "sorted (map (\<lambda>c. Min (S c)) r)" by simp
  moreover have "S c \<noteq> {}" if "c \<in> set r" for c
    using that by (simp only: in_r) (drule in_set_takeD, simp add: mem)
  then have "list_all (\<lambda>c. S c \<noteq> {}) r" by (simp add: list_all_iff)
  moreover have "length r = 3 \<and> list_all (\<lambda>s. Min (S s) \<le> Min (S c)) r" if "S c \<noteq> {}" "c \<notin> set r" for c
  proof -
    have "(c, Min (S c)) \<in> set ranked" using that by (simp add: mem)
    from sorted_take_best [OF le this, of 3] that(2)
    have "length (take 3 ranked) = 3" "\<forall>y \<in> set (take 3 ranked). snd y \<le> Min (S c)"
      by (simp_all only: in_r) auto
    moreover from this(2) have "Min (S s) \<le> Min (S c)" if "s \<in> set r" for s
      using that by (simp only: in_r) force
    ultimately show ?thesis by (simp add: list_all_iff r)
  qed
  ultimately have "length r \<le> 3 \<and> distinct r \<and> list_all (\<lambda>c. S c \<noteq> {}) r
      \<and> sorted (map (\<lambda>c. Min (S c)) r)
      \<and> {c. S c \<noteq> {}} - set r \<subseteq> {c. length r = 3 \<and> list_all (\<lambda>s. Min (S s) \<le> Min (S c)) r}"
    using \<open>distinct r\<close> by (auto simp: r)
  then show ?thesis by (simp only: r_def S_def Let_def)
qed

end
