(* ===== verification/Planner.thy ===== *)
theory Planner
  imports SqlPieces Predicates
begin

text \<open>
  The dataset planner, \<^verbatim>\<open>crates/franken-snowflake-catalog/src/planner.rs\<close>: a request against a
  dataset manifest becomes one SQL text with placeholders and their typed bindings, under the query
  guard, or the refusals that stop it.

  The bindings a compilation pushes are threaded as the state of type \<open>Binds\<close>: the map and the next
  number. Refusals carry their code and suggestions; their messages follow from the code and the
  names involved and are left out. How \<^verbatim>\<open>serde_json\<close> prints a number and a nested value is not under
  the repository: a record of the two printers is an argument. The log lines are not modelled.
\<close>

section \<open>Requests and plans\<close>

definition DATASET_STATEMENT_TIMEOUT_SECONDS :: nat where
  "DATASET_STATEMENT_TIMEOUT_SECONDS = 60"

record 'n DatasetQueryRequest =
  dq_dataset_id :: string
  dq_select :: "string list"
  dq_entity :: "string option"
  dq_from :: "string option"
  dq_to :: "string option"
  dq_as_of :: "string option"
  dq_filter :: "'n PredicateAst option"
  dq_limit :: "nat option"
  dq_export_mode :: bool
  dq_confirmation_token :: "string option"
  dq_warehouse :: "string option"
  dq_profile_fingerprint :: string
  dq_command_id :: string
  dq_trace_id :: string

datatype PlanMode = DatasetMode | RawSqlMode

record TypedBinding =
  tb_type :: string
  tb_value :: string

record PlanGuardrails =
  pg_statement_timeout_seconds :: nat
  pg_result_row_cap :: nat
  pg_result_byte_cap :: nat
  pg_query_tag :: string

record PlanWarning =
  pw_code :: string
  pw_message :: string

record PredicatePushdownPlan =
  pp_projected_columns :: nat
  pp_axis_filters :: nat
  pp_predicate_filters :: nat
  pp_all_predicates_pushed_down :: bool

record QueryPlan =
  qp_plan_id :: string
  qp_mode :: PlanMode
  qp_sql :: string
  qp_bindings :: "(string, TypedBinding) btree"
  qp_guardrails :: PlanGuardrails
  qp_pushdown :: PredicatePushdownPlan
  qp_warnings :: "PlanWarning list"

record PlanRefusal =
  pr_code :: string
  pr_did_you_mean :: "string list"

definition refusal :: "string \<Rightarrow> PlanRefusal" where
  "refusal code = \<lparr>pr_code = code, pr_did_you_mean = []\<rparr>"

definition plan_refusal_from_predicate :: "PredicateRefusal \<Rightarrow> PlanRefusal" where
  "plan_refusal_from_predicate r =
     \<lparr>pr_code = (case pref_code r of ColumnUnknown \<Rightarrow> ''FSNOW_COLUMN_UNKNOWN''
        | OperatorUnknown \<Rightarrow> ''FSNOW_OPERATOR_UNKNOWN''
        | FilterOperatorDtype \<Rightarrow> ''FSNOW_FILTER_OPERATOR_DTYPE''
        | FilterArity \<Rightarrow> ''FSNOW_FILTER_ARITY''),
      pr_did_you_mean = pref_did_you_mean r\<rparr>"

section \<open>Values and bindings\<close>

record 'n ValueText =
  number_text :: "'n \<Rightarrow> string"
  nested_text :: "'n JsonValue \<Rightarrow> string"

fun value_to_string :: "'n ValueText \<Rightarrow> 'n JsonValue \<Rightarrow> string" where
  "value_to_string V JNull = ''null''"
| "value_to_string V (JBool b) = (if b then ''true'' else ''false'')"
| "value_to_string V (JsonValue.Number n) = number_text V n"
| "value_to_string V (JString s) = s"
| "value_to_string V (JArray vs) = nested_text V (JArray vs)"
| "value_to_string V (JObject kvs) = nested_text V (JObject kvs)"

fun value_strings :: "'n ValueText \<Rightarrow> 'n JsonValue option \<Rightarrow> string list" where
  "value_strings V None = []"
| "value_strings V (Some (JArray vs)) = map (value_to_string V) vs"
| "value_strings V (Some v) = [value_to_string V v]"

definition value_at :: "string list \<Rightarrow> nat \<Rightarrow> string" where
  "value_at values index = (if index < length values then values ! index else [])"

definition first_value :: "string list \<Rightarrow> string" where
  "first_value values = value_at values 0"

definition is_integer_literal :: "string \<Rightarrow> bool" where
  "is_integer_literal value =
     (let digits = (if starts_with value ''-'' then tl value else value)
      in digits \<noteq> [] \<and> list_all is_ascii_digit digits)"

definition sql_api_binding_type :: "DtypeClass \<Rightarrow> string \<Rightarrow> string" where
  "sql_api_binding_type dtype value =
     (if dtype = DtNumber \<and> is_integer_literal value then ''FIXED''
      else if dtype = DtBoolean
        \<and> (eq_ignore_ascii_case value ''true'' \<or> eq_ignore_ascii_case value ''false'')
      then ''BOOLEAN'' else ''TEXT'')"

definition typed_binding :: "DtypeClass \<Rightarrow> string \<Rightarrow> TypedBinding" where
  "typed_binding dtype value =
     (let binding_type = sql_api_binding_type dtype value
      in \<lparr>tb_type = binding_type,
          tb_value = (if binding_type = ''BOOLEAN'' then to_ascii_lowercase value else value)\<rparr>)"

type_synonym Binds = "(string, TypedBinding) btree \<times> nat"

definition push_binding :: "DtypeClass \<Rightarrow> string \<Rightarrow> Binds \<Rightarrow> string \<times> Binds" where
  "push_binding dtype value st =
     (''?'', bt_insert (nat_str (snd st)) (typed_binding dtype value) (fst st), snd st + 1)"

section \<open>Columns, projection and axes\<close>

definition find_column_in_refs ::
  "(string \<Rightarrow> string) \<Rightarrow> string \<Rightarrow> ColumnCatalogEntry list \<Rightarrow> ColumnCatalogEntry option" where
  "find_column_in_refs lc column columns =
     (let normalized = normalize_identifier lc column
      in List.find (\<lambda>candidate. normalize_identifier lc (col_column candidate) = normalized) columns)"

definition sorted_dataset_columns :: "string \<Rightarrow> ColumnCatalogEntry list \<Rightarrow> ColumnCatalogEntry list" where
  "sorted_dataset_columns dataset_id columns =
     sort_key col_ordinal (filter (\<lambda>c. col_dataset_id c = dataset_id) columns)"

definition resolve_projection ::
  "(string \<Rightarrow> string) \<Rightarrow> DatasetManifest \<Rightarrow> ColumnCatalogEntry list \<Rightarrow> 'n DatasetQueryRequest
     \<Rightarrow> ColumnCatalogEntry list \<times> PlanRefusal list" where
  "resolve_projection lc manifest columns request =
     (if dq_select request = [] then
        (let projection = List.map_filter (\<lambda>f. find_column_in_refs lc (fld_column f) columns) (dm_fields manifest)
         in (if projection = [] then columns else projection, []))
      else
        (List.map_filter (\<lambda>requested. find_column_in_refs lc requested columns) (dq_select request),
         List.map_filter (\<lambda>requested.
             if find_column_in_refs lc requested columns = None
             then Some \<lparr>pr_code = ''FSNOW_COLUMN_UNKNOWN'',
                        pr_did_you_mean = did_you_mean_columns lc requested columns\<rparr>
             else None) (dq_select request)))"

definition validate_axis ::
  "(string \<Rightarrow> string) \<Rightarrow> DatasetManifest \<Rightarrow> ColumnCatalogEntry list \<Rightarrow> FieldRole \<Rightarrow> PlanRefusal list" where
  "validate_axis lc manifest columns role =
     (case field_by_role manifest role of
        None \<Rightarrow> [refusal ''FSNOW_COLUMN_UNKNOWN'']
      | Some field \<Rightarrow>
          if find_column_in_refs lc (fld_column field) columns = None
          then [refusal ''FSNOW_COLUMN_UNKNOWN''] else [])"

definition validate_axes ::
  "(string \<Rightarrow> string) \<Rightarrow> DatasetManifest \<Rightarrow> ColumnCatalogEntry list \<Rightarrow> 'n DatasetQueryRequest
     \<Rightarrow> PlanRefusal list" where
  "validate_axes lc manifest columns request =
     (if dq_entity request \<noteq> None then validate_axis lc manifest columns EntityKey else [])
     @ (if dq_from request \<noteq> None \<or> dq_to request \<noteq> None
        then validate_axis lc manifest columns TimeIndex else [])
     @ (if dq_as_of request \<noteq> None \<and> field_by_role manifest KnownAt = None
          \<and> field_by_role manifest TimeIndex = None
        then [refusal ''FSNOW_AS_OF_UNSUPPORTED''] else [])"

definition axis_column ::
  "(string \<Rightarrow> string) \<Rightarrow> DatasetManifest \<Rightarrow> ColumnCatalogEntry list \<Rightarrow> FieldRole
     \<Rightarrow> ColumnCatalogEntry option" where
  "axis_column lc manifest columns role =
     Option.bind (field_by_role manifest role) (\<lambda>field. find_column_in_refs lc (fld_column field) columns)"

text \<open>One axis: a clause comparing the axis column with the bound value, when both are there.\<close>

definition axis_clause ::
  "string \<Rightarrow> string option \<Rightarrow> ColumnCatalogEntry option \<Rightarrow> Binds \<Rightarrow> string list \<times> Binds" where
  "axis_clause operator value column st =
     (case (value, column) of
        (Some value, Some column) \<Rightarrow>
          (let (placeholder, st) = push_binding (col_dtype_class column) value st
           in ([quote_identifier (col_column column) @ operator @ placeholder], st))
      | _ \<Rightarrow> ([], st))"

definition add_axis_filters ::
  "(string \<Rightarrow> string) \<Rightarrow> DatasetManifest \<Rightarrow> ColumnCatalogEntry list \<Rightarrow> 'n DatasetQueryRequest \<Rightarrow> Binds
     \<Rightarrow> string list \<times> Binds" where
  "add_axis_filters lc manifest columns request st =
     (let (entity, st) = axis_clause '' = '' (dq_entity request)
                           (axis_column lc manifest columns EntityKey) st;
          (lower, st) = axis_clause '' >= '' (dq_from request)
                           (axis_column lc manifest columns TimeIndex) st;
          (upper, st) = axis_clause '' <= '' (dq_to request)
                           (axis_column lc manifest columns TimeIndex) st
      in (entity @ lower @ upper, st))"

section \<open>Compiling a predicate\<close>

record CompiledPredicate =
  cp_sql :: string
  cp_leaf_count :: nat

fun count_predicate_leaves :: "'n PredicateAst \<Rightarrow> nat" where
  "count_predicate_leaves (Leaf leaf) = 1"
| "count_predicate_leaves (Compound ands ors neg) =
     sum_list (map count_predicate_leaves ands) + sum_list (map count_predicate_leaves ors)
     + (case neg of None \<Rightarrow> 0 | Some p \<Rightarrow> count_predicate_leaves p)"

fun join :: "string \<Rightarrow> string list \<Rightarrow> string" where
  "join sep [] = []"
| "join sep [x] = x"
| "join sep (x # y # xs) = x @ sep @ join sep (y # xs)"

fun bind_all :: "DtypeClass \<Rightarrow> string list \<Rightarrow> Binds \<Rightarrow> string list \<times> Binds" where
  "bind_all dtype [] st = ([], st)"
| "bind_all dtype (v # vs) st =
     (let (p, st) = push_binding dtype v st; (ps, st) = bind_all dtype vs st in (p # ps, st))"

text \<open>The arms of the match that compare with one value.\<close>

definition comparison :: "string \<Rightarrow> string option" where
  "comparison operator =
     map_of [(''eq'', '' = ''), (''neq'', '' != ''), (''lt'', '' < ''), (''lte'', '' <= ''),
             (''gt'', '' > ''), (''gte'', '' >= '')] operator"

definition compile_operator ::
  "string \<Rightarrow> string \<Rightarrow> DtypeClass \<Rightarrow> string list \<Rightarrow> Binds \<Rightarrow> (string \<times> Binds) option" where
  "compile_operator operator identifier dtype values st =
     (case comparison operator of
        Some token \<Rightarrow>
          (let (p, st) = push_binding dtype (first_value values) st
           in Some (identifier @ token @ p, st))
      | None \<Rightarrow>
        if operator = ''between'' then
          (let (left, st) = push_binding dtype (value_at values 0) st;
               (right, st) = push_binding dtype (value_at values 1) st
           in Some (identifier @ '' BETWEEN '' @ left @ '' AND '' @ right, st))
        else if operator = ''in'' then
          (let (placeholders, st) = bind_all dtype values st
           in Some (identifier @ '' IN ('' @ join '', '' placeholders @ '')'', st))
        else if operator = ''is_null'' then Some (identifier @ '' IS NULL'', st)
        else if operator = ''is_not_null'' then Some (identifier @ '' IS NOT NULL'', st)
        else if operator = ''contains'' then
          (let (p, st) = push_binding dtype (first_value values) st
           in Some (''POSITION('' @ p @ '' IN '' @ identifier @ '') > 0'', st))
        else None)"

definition compile_leaf ::
  "(string \<Rightarrow> string) \<Rightarrow> 'n ValueText \<Rightarrow> 'n LeafPredicate \<Rightarrow> ColumnCatalogEntry list \<Rightarrow> Binds
     \<Rightarrow> PlanRefusal + CompiledPredicate \<times> Binds" where
  "compile_leaf lc V leaf columns st =
     (case find_column_in_refs lc (leaf_column leaf) columns of
        None \<Rightarrow> Inl \<lparr>pr_code = ''FSNOW_COLUMN_UNKNOWN'',
                     pr_did_you_mean = did_you_mean_columns lc (leaf_column leaf) columns\<rparr>
      | Some column \<Rightarrow>
          (case compile_operator (leaf_op leaf) (quote_identifier (col_column column))
                  (col_dtype_class column) (value_strings V (leaf_value leaf)) st of
             Some (sql, st) \<Rightarrow> Inr (\<lparr>cp_sql = sql, cp_leaf_count = 1\<rparr>, st)
           | None \<Rightarrow> Inl (refusal ''FSNOW_FILTER_OPERATOR_UNSUPPORTED'')))"

text \<open>How \<^verbatim>\<open>compile_many\<close> and \<^verbatim>\<open>compile_compound\<close> put together what they compiled.\<close>

definition group_compiled :: "string \<Rightarrow> CompiledPredicate list \<Rightarrow> CompiledPredicate option" where
  "group_compiled joiner compiled =
     (if compiled = [] then None
      else Some \<lparr>cp_sql = ''('' @ join joiner (map cp_sql compiled) @ '')'',
                 cp_leaf_count = sum_list (map cp_leaf_count compiled)\<rparr>)"

definition negate_compiled :: "CompiledPredicate \<Rightarrow> CompiledPredicate" where
  "negate_compiled c = c\<lparr>cp_sql := ''NOT ('' @ cp_sql c @ '')''\<rparr>"

definition join_parts :: "CompiledPredicate list \<Rightarrow> CompiledPredicate option" where
  "join_parts parts =
     (if parts = [] then None
      else Some \<lparr>cp_sql = join '' AND '' (map cp_sql parts),
                 cp_leaf_count = sum_list (map cp_leaf_count parts)\<rparr>)"

definition option_list :: "'a option \<Rightarrow> 'a list" where
  "option_list z = (case z of None \<Rightarrow> [] | Some x \<Rightarrow> [x])"

type_synonym compiled = "PlanRefusal + CompiledPredicate option \<times> Binds"

text \<open>
  The four routines of the source: a node, a compound by its three fields, a list with its joiner,
  and the loop over the list.
\<close>

function compile_predicate ::
    "(string \<Rightarrow> string) \<Rightarrow> 'n ValueText \<Rightarrow> ColumnCatalogEntry list \<Rightarrow> 'n PredicateAst \<Rightarrow> Binds \<Rightarrow> compiled"
  and compile_compound ::
    "(string \<Rightarrow> string) \<Rightarrow> 'n ValueText \<Rightarrow> ColumnCatalogEntry list \<Rightarrow> 'n PredicateAst list
       \<Rightarrow> 'n PredicateAst list \<Rightarrow> 'n PredicateAst option \<Rightarrow> Binds \<Rightarrow> compiled"
  and compile_many ::
    "(string \<Rightarrow> string) \<Rightarrow> 'n ValueText \<Rightarrow> ColumnCatalogEntry list \<Rightarrow> string \<Rightarrow> 'n PredicateAst list
       \<Rightarrow> Binds \<Rightarrow> compiled"
  and compile_loop ::
    "(string \<Rightarrow> string) \<Rightarrow> 'n ValueText \<Rightarrow> ColumnCatalogEntry list \<Rightarrow> 'n PredicateAst list
       \<Rightarrow> Binds \<Rightarrow> PlanRefusal + CompiledPredicate list \<times> Binds" where
  "compile_predicate lc V columns (Compound ands ors neg) st = compile_compound lc V columns ands ors neg st"
| "compile_predicate lc V columns (Leaf leaf) st =
     map_sum id (map_prod Some id) (compile_leaf lc V leaf columns st)"
| "compile_compound lc V columns ands ors neg st =
     (case compile_many lc V columns '' AND '' ands st of
        Inl e \<Rightarrow> Inl e
      | Inr (all, st) \<Rightarrow>
          (case compile_many lc V columns '' OR '' ors st of
             Inl e \<Rightarrow> Inl e
           | Inr (any, st) \<Rightarrow>
               (case neg of
                  None \<Rightarrow> Inr (join_parts (option_list all @ option_list any), st)
                | Some p \<Rightarrow>
                    (case compile_predicate lc V columns p st of
                       Inl e \<Rightarrow> Inl e
                     | Inr (c, st) \<Rightarrow>
                         Inr (join_parts (option_list all @ option_list any
                                @ option_list (map_option negate_compiled c)), st)))))"
| "compile_many lc V columns joiner predicates st =
     map_sum id (map_prod (group_compiled joiner) id) (compile_loop lc V columns predicates st)"
| "compile_loop lc V columns [] st = Inr ([], st)"
| "compile_loop lc V columns (p # ps) st =
     (case compile_predicate lc V columns p st of
        Inl e \<Rightarrow> Inl e
      | Inr (c, st) \<Rightarrow> map_sum id (map_prod ((@) (option_list c)) id) (compile_loop lc V columns ps st))"
  by pat_completeness auto
termination
  by (relation "measure (case_sum
         (case_sum (\<lambda>(lc, V, columns, p, st). 3 * size p)
            (\<lambda>(lc, V, columns, ands, ors, neg, st).
                3 * (size_list size ands + size_list size ors + size_option size neg) + 2))
         (case_sum (\<lambda>(lc, V, columns, joiner, ps, st). 3 * size_list size ps + 1)
            (\<lambda>(lc, V, columns, ps, st). 3 * size_list size ps)))") auto

section \<open>Guardrails and identifiers of a plan\<close>

definition enforce_interactive_row_policy ::
  "nat \<Rightarrow> nat \<Rightarrow> bool \<Rightarrow> string option \<Rightarrow> PlanRefusal list" where
  "enforce_interactive_row_policy effective_limit max_rows_without_export export_mode confirmation_token =
     (let interactive_cap = min max_rows_without_export DEFAULT_MAX_RESULT_ROWS
      in (if \<not> export_mode \<and> confirmation_token = None \<and> effective_limit > interactive_cap
          then [refusal ''FSNOW_RESULT_TOO_LARGE''] else [])
         @ (if effective_limit > max_rows_without_export \<and> \<not> export_mode
            then [refusal ''FSNOW_RESULT_TOO_LARGE''] else []))"

definition plan_refusal_from_core_error :: "SnowflakeError \<Rightarrow> PlanRefusal" where
  "plan_refusal_from_core_error e =
     refusal
       (if err_code e = MutationRefused \<or> err_code e = MultiStatementRefused then ''FSNOW_RAW_SQL_UNSAFE''
        else if err_code e = RowCapExceeded \<or> err_code e = SafetyLimitExceeded then ''FSNOW_RESULT_TOO_LARGE''
        else if err_code e = WarehouseRefused then ''FSNOW_WAREHOUSE_REFUSED''
        else ''FSNOW_QUERY_GUARDRAIL'')"

definition planner_guardrails ::
  "string \<Rightarrow> nat \<Rightarrow> bool \<Rightarrow> string option \<Rightarrow> string
     \<Rightarrow> PlanRefusal + PlanGuardrails \<times> PlanWarning list" where
  "planner_guardrails sql result_row_cap export_mode warehouse query_tag =
     (let limits = default_limits
            \<lparr>lim_max_result_rows := result_row_cap,
             lim_statement_timeout_seconds := DATASET_STATEMENT_TIMEOUT_SECONDS,
             lim_require_warehouse := False\<rparr>;
          guard = (new_query_plan sql)
            \<lparr>qpg_statement_timeout_seconds := Some DATASET_STATEMENT_TIMEOUT_SECONDS,
             qpg_result_row_cap := Some result_row_cap,
             qpg_result_byte_cap := Some DEFAULT_MAX_RESULT_BYTES,
             qpg_warehouse := warehouse, qpg_export_mode := export_mode\<rparr>
      in case enforce_query_safety guard limits of
           Inl e \<Rightarrow> Inl (plan_refusal_from_core_error e)
         | Inr b \<Rightarrow> Inr
             (\<lparr>pg_statement_timeout_seconds = bqp_statement_timeout_seconds b,
               pg_result_row_cap = bqp_result_row_cap b,
               pg_result_byte_cap = bqp_result_byte_cap b, pg_query_tag = query_tag\<rparr>,
              map (\<lambda>w. \<lparr>pw_code = gw_code w, pw_message = gw_message w\<rparr>) (bqp_warnings b)))"

definition query_tag :: "'n DatasetQueryRequest \<Rightarrow> string" where
  "query_tag request =
     (if dq_trace_id request \<noteq> [] then dq_trace_id request
      else if dq_command_id request \<noteq> [] then dq_command_id request
      else ''franken-snowflake.query-plan'')"

definition warnings_for_request :: "'n DatasetQueryRequest \<Rightarrow> PlanWarning list" where
  "warnings_for_request request =
     (if dq_limit request \<noteq> None then []
      else [\<lparr>pw_code = ''FSNOW_UNCONSTRAINED_QUERY_ADVISORY'',
             pw_message = ''no explicit limit supplied; manifest default_limit was applied''\<rparr>])"

definition fnv1a64 :: "string \<Rightarrow> 64 word" where
  "fnv1a64 bytes = foldl fnv_byte 0xcbf29ce484222325 bytes"

definition hex_char :: "nat \<Rightarrow> char" where
  "hex_char d = (if d < 10 then char_of (48 + d) else char_of (87 + d))"

text \<open>\<^verbatim>\<open>{:016x}\<close> of a 64-bit value.\<close>

definition hex16 :: "64 word \<Rightarrow> string" where
  "hex16 w = map (\<lambda>i. hex_char (unat w div 16 ^ i mod 16)) (rev [0..<16])"

definition bindings_text :: "(string, TypedBinding) btree \<Rightarrow> string" where
  "bindings_text bindings =
     concat (map (\<lambda>(position, b). ''|'' @ position @ '':'' @ tb_type b @ ''='' @ tb_value b) bindings)"

definition guardrails_text :: "PlanGuardrails \<Rightarrow> string" where
  "guardrails_text g =
     nat_str (pg_statement_timeout_seconds g) @ ''|'' @ nat_str (pg_result_row_cap g) @ ''|''
     @ nat_str (pg_result_byte_cap g) @ ''|'' @ pg_query_tag g"

definition or_empty :: "string option \<Rightarrow> string" where
  "or_empty z = (case z of None \<Rightarrow> [] | Some s \<Rightarrow> s)"

definition plan_id ::
  "string \<Rightarrow> (string, TypedBinding) btree \<Rightarrow> PlanGuardrails \<Rightarrow> DatasetManifest \<Rightarrow> 'n DatasetQueryRequest
     \<Rightarrow> string" where
  "plan_id sql bindings guardrails manifest request =
     ''plan:'' @ hex16 (fnv1a64
       (sql @ ''|'' @ dq_profile_fingerprint request @ ''|'' @ dm_id manifest @ ''|''
        @ or_empty (dq_from request) @ ''|'' @ or_empty (dq_to request) @ ''|''
        @ or_empty (dq_as_of request) @ ''|'' @ guardrails_text guardrails @ bindings_text bindings))"

section \<open>Planning a dataset query\<close>

text \<open>The first part: everything that can refuse before any SQL is written.\<close>

definition request_refusals ::
  "(string \<Rightarrow> string) \<Rightarrow> DatasetManifest \<Rightarrow> ColumnCatalogEntry list \<Rightarrow> OperatorCatalogEntry list
     \<Rightarrow> 'n DatasetQueryRequest \<Rightarrow> PlanRefusal list" where
  "request_refusals lc manifest dataset_columns operators request =
     snd (resolve_projection lc manifest dataset_columns request)
     @ validate_axes lc manifest dataset_columns request
     @ (case dq_filter request of None \<Rightarrow> []
        | Some predicate \<Rightarrow>
            (case validate_predicate lc predicate dataset_columns operators of
               Inr _ \<Rightarrow> [] | Inl refusals \<Rightarrow> map plan_refusal_from_predicate refusals))
     @ enforce_interactive_row_policy
         (case dq_limit request of None \<Rightarrow> dm_default_limit manifest | Some l \<Rightarrow> l)
         (dm_max_rows_without_export manifest) (dq_export_mode request) (dq_confirmation_token request)"

text \<open>The text up to the \<^verbatim>\<open>WHERE\<close> clause, and the clause itself.\<close>

definition select_head :: "DatasetManifest \<Rightarrow> ColumnCatalogEntry list \<Rightarrow> string option \<Rightarrow> string" where
  "select_head manifest projection as_of =
     ''SELECT '' @ join '', '' (map (\<lambda>c. quote_identifier (col_column c)) projection) @ '' FROM ''
     @ quote_qualified_object (dm_database manifest) (dm_schema manifest) (dm_object manifest)
     @ (case as_of of None \<Rightarrow> []
        | Some t \<Rightarrow> '' AT(TIMESTAMP => '' @ time_travel_timestamp_literal t @ '')'')"

definition where_text :: "string list \<Rightarrow> string" where
  "where_text clauses = (if clauses = [] then [] else '' WHERE '' @ join '' AND '' clauses)"

definition plan_dataset_query ::
  "(string \<Rightarrow> string) \<Rightarrow> 'n ValueText \<Rightarrow> DatasetManifest \<Rightarrow> ColumnCatalogEntry list
     \<Rightarrow> OperatorCatalogEntry list \<Rightarrow> 'n DatasetQueryRequest \<Rightarrow> PlanRefusal list + QueryPlan" where
  "plan_dataset_query lc V manifest columns operators request =
     (if dm_id manifest \<noteq> dq_dataset_id request then
        Inl [\<lparr>pr_code = ''FSNOW_DATASET_UNKNOWN'', pr_did_you_mean = [dm_id manifest]\<rparr>]
      else
        let dataset_columns = sorted_dataset_columns (dm_id manifest) columns;
            projection = fst (resolve_projection lc manifest dataset_columns request);
            refusals = request_refusals lc manifest dataset_columns operators request;
            effective_limit = (case dq_limit request of None \<Rightarrow> dm_default_limit manifest | Some l \<Rightarrow> l)
        in if refusals \<noteq> [] then Inl refusals
        else
          let (axes, st) = add_axis_filters lc manifest dataset_columns request ([], 1);
              predicate_filters = (case dq_filter request of None \<Rightarrow> 0 | Some p \<Rightarrow> count_predicate_leaves p)
          in (case (case dq_filter request of None \<Rightarrow> Inr (None, st)
                   | Some p \<Rightarrow> compile_predicate lc V dataset_columns p st) of
            Inl e \<Rightarrow> Inl [e]
          | Inr (compiled, st) \<Rightarrow>
              let where_clauses = axes @ map cp_sql (option_list compiled);
                  pushed = sum_list (map cp_leaf_count (option_list compiled));
                  (placeholder, st) = push_binding DtNumber (nat_str effective_limit) st;
                  sql = select_head manifest projection (dq_as_of request)
                    @ where_text where_clauses @ '' LIMIT '' @ placeholder
              in (case planner_guardrails sql effective_limit (dq_export_mode request)
                        (dq_warehouse request) (query_tag request) of
                Inl e \<Rightarrow> Inl [e]
              | Inr (guardrails, warnings) \<Rightarrow> Inr
                  \<lparr>qp_plan_id = plan_id sql (fst st) guardrails manifest request,
                   qp_mode = DatasetMode, qp_sql = sql, qp_bindings = fst st,
                   qp_guardrails = guardrails,
                   qp_pushdown =
                     \<lparr>pp_projected_columns = length projection, pp_axis_filters = length axes,
                      pp_predicate_filters = predicate_filters,
                      pp_all_predicates_pushed_down = (pushed = predicate_filters)\<rparr>,
                   qp_warnings = warnings @ warnings_for_request request\<rparr>)))"

section \<open>The query guard as the planner calls it\<close>

lemma bounded_self [simp]: "bounded (Some n) n = n"
  by (simp add: bounded_def)

lemma planner_guardrails_read:
  assumes "classify_sql_operation sql = Read"
  shows "planner_guardrails sql cap export warehouse tag =
           (if length sql > DEFAULT_MAX_STATEMENT_BYTES then Inl (refusal ''FSNOW_RESULT_TOO_LARGE'')
            else Inr (\<lparr>pg_statement_timeout_seconds = DATASET_STATEMENT_TIMEOUT_SECONDS,
                       pg_result_row_cap = cap, pg_result_byte_cap = DEFAULT_MAX_RESULT_BYTES,
                       pg_query_tag = tag\<rparr>,
                      snd (projr (planner_guardrails sql cap export warehouse tag))))"
  using assms
  by (simp add: planner_guardrails_def enforce_query_safety_def Let_def default_limits_def new_query_plan_def
      pick_warehouse_def plan_refusal_from_core_error_def new_error_def refusal_def split: option.split)

lemma planner_guardrails_cap:
  "planner_guardrails sql cap export warehouse tag = Inr (g, w) \<Longrightarrow> pg_result_row_cap g = cap"
  by (auto simp: planner_guardrails_def enforce_query_safety_def Let_def default_limits_def new_query_plan_def
      split: sum.splits if_splits option.splits)

lemma planner_guardrails_Inr:
  "planner_guardrails sql cap export warehouse tag = Inr (g, w) \<Longrightarrow>
     classify_sql_operation sql = Read \<and> length sql \<le> DEFAULT_MAX_STATEMENT_BYTES"
  by (cases "classify_sql_operation sql")
    (auto simp: planner_guardrails_def enforce_query_safety_def Let_def default_limits_def new_query_plan_def
      split: sum.splits if_splits option.splits)

section \<open>A sample dataset\<close>

definition sample_provenance :: Provenance where
  "sample_provenance =
     \<lparr>prov_source = InformationSchema, prov_data_source = LiveSource, prov_snapshot_id = ''s1'',
      prov_discovered_at = ''t'', prov_profile_fingerprint = ''p'', prov_object_fingerprint = ''o'',
      prov_command_id = ''c'', prov_trace_id = ''t'', prov_redactions_applied = []\<rparr>"

definition sample_column :: "string \<Rightarrow> nat \<Rightarrow> DtypeClass \<Rightarrow> ColumnCatalogEntry" where
  "sample_column name ordinal dtype =
     \<lparr>col_dataset_id = ''ds'', col_database = ''DB'', col_schema = ''S'', col_object = ''T'',
      col_column = name, col_ordinal = ordinal, col_snowflake_type = ''X'', col_dtype_class = dtype,
      col_nullable = True, col_precision = None, col_scale = None, col_length = None,
      col_aliases = [], col_comment = None, col_tags = [], col_provenance = None\<rparr>"

definition sample_columns :: "ColumnCatalogEntry list" where
  "sample_columns = [sample_column ''TS'' 3 DtTimestamp, sample_column ''ID'' 1 DtNumber,
                     sample_column (''N'' @ [CHR 0x22] @ ''M'') 2 DtString]"

definition sample_manifest :: DatasetManifest where
  "sample_manifest =
     \<lparr>dm_id = ''ds'', dm_profile = ''p'', dm_database = ''DB'', dm_schema = ''S'', dm_object = ''T'',
      dm_kind = TableKind, dm_rights_class = Public, dm_default_limit = 50,
      dm_max_rows_without_export = 1000, dm_approx_row_count = None, dm_bytes = None,
      dm_description = None, dm_provenance = sample_provenance,
      dm_fields = [\<lparr>fld_column = ''id'', fld_role = EntityKey, fld_dtype = DtNumber,
                     fld_required = True, fld_role_confidence = Confirmed\<rparr>,
                   \<lparr>fld_column = ''ts'', fld_role = TimeIndex, fld_dtype = DtTimestamp,
                     fld_required = True, fld_role_confidence = Confirmed\<rparr>]\<rparr>"

definition sample_values :: "unit ValueText" where
  "sample_values = \<lparr>number_text = (\<lambda>_. ''7''), nested_text = (\<lambda>_. ''{}'')\<rparr>"

definition sample_leaf :: "string \<Rightarrow> string \<Rightarrow> unit JsonValue option \<Rightarrow> unit PredicateAst" where
  "sample_leaf column operator v =
     Leaf \<lparr>leaf_column = column, leaf_op = operator, leaf_value = v\<rparr>"

definition sample_filter :: "unit PredicateAst" where
  "sample_filter =
     Compound [sample_leaf ''id'' ''between'' (Some (JArray [JsonValue.Number (), JString ''9''])),
               sample_leaf ''ts'' ''is_not_null'' None]
       [sample_leaf (''n'' @ [CHR 0x22] @ ''m'') ''contains'' (Some (JString ''x''))]
       (Some (sample_leaf ''id'' ''in'' (Some (JArray [JString ''1'', JString ''2'']))))"

definition sample_request :: "unit DatasetQueryRequest" where
  "sample_request =
     \<lparr>dq_dataset_id = ''ds'', dq_select = [], dq_entity = Some ''e'', dq_from = Some ''f'', dq_to = None,
      dq_as_of = Some [CHR 0x27], dq_filter = Some sample_filter, dq_limit = Some 10,
      dq_export_mode = False, dq_confirmation_token = None, dq_warehouse = None,
      dq_profile_fingerprint = ''p'', dq_command_id = ''c'', dq_trace_id = ''t''\<rparr>"

end
