(* ===== verification/PlanSql.thy ===== *)
theory PlanSql
  imports Planner
begin

text \<open>
  What the SQL of a plan says. A reference grammar of conditions, with its three-valued meaning and
  its placeholders numbered from left to right, is read off the tokens the lexer gives back; the
  compiled predicate, with the bindings it pushed, has there the meaning of the predicate tree.

  Lemmas: pushed bindings are found again under their numbers; every clause the planner writes is a
  fragment that lexes to its pieces; compilation refines the meaning of the predicate.
\<close>

section \<open>Numbered bindings\<close>

text \<open>The map after pushing the bindings \<open>bs\<close> in order, and the state it is part of.\<close>

definition numbered :: "TypedBinding list \<Rightarrow> (string, TypedBinding) btree" where
  "numbered bs = bt.put_all (zip (map nat_str [1..<Suc (length bs)]) bs) []"

definition binds :: "TypedBinding list \<Rightarrow> Binds" where
  "binds bs = (numbered bs, Suc (length bs))"

lemma binds_start: "([], 1) = binds []"
  by (simp add: binds_def numbered_def bt.put_all_def)

lemma numbered_snoc: "numbered (bs @ [b]) = bt_insert (nat_str (Suc (length bs))) b (numbered bs)"
proof -
  have "[1..<Suc (length (bs @ [b]))] = [1..<Suc (length bs)] @ [Suc (length bs)]"
    by (simp add: upt_Suc_append del: upt_Suc)
  moreover have "length (map nat_str [1..<Suc (length bs)]) = length bs" by (simp del: upt_Suc)
  ultimately show ?thesis
    by (simp add: numbered_def bt.put_all_def bt_insert_def zip_append del: upt_Suc)
qed

lemma push_binding_binds [simp]:
  "push_binding dtype v (binds bs) = (''?'', binds (bs @ [typed_binding dtype v]))"
  by (simp add: push_binding_def binds_def numbered_snoc)

lemma bind_all_binds [simp]:
  "bind_all dtype vs (binds bs) = (replicate (length vs) ''?'', binds (bs @ map (typed_binding dtype) vs))"
  by (induction vs arbitrary: bs) auto

lemma distinct_numbers: "distinct (map nat_str ns) \<longleftrightarrow> distinct ns"
  by (simp add: distinct_map inj_on_def nat_str_inj)

lemma numbered_lookup:
  "map_of (numbered bs) (nat_str i) = (if 1 \<le> i \<and> i \<le> length bs then Some (bs ! (i - 1)) else None)"
proof -
  let ?ks = "map nat_str [1..<Suc (length bs)]"
  have len: "length ?ks = length bs" by (simp del: upt_Suc)
  have d: "distinct ?ks" by (subst distinct_numbers) (rule distinct_upt)
  have "map_of (numbered bs) l = map_of (zip ?ks bs) l" for l
    using bt.look_put_all [of "[]" "zip ?ks bs" l] d len
    by (simp add: numbered_def split: option.split)
  moreover have "map_of (zip ?ks bs) (nat_str i) = Some (bs ! (i - 1))" if "1 \<le> i" "i \<le> length bs"
  proof -
    have "?ks ! (i - 1) = nat_str i" using that by (simp add: nth_upt del: upt_Suc)
    with map_of_zip_nth [OF len d, of "i - 1"] that show ?thesis by simp
  qed
  moreover have "map_of (zip ?ks bs) (nat_str i) = None" if "\<not> (1 \<le> i \<and> i \<le> length bs)"
    using that by (auto simp: map_of_eq_None_iff dest!: set_zip_leftD nat_str_inj)
  ultimately show ?thesis by simp
qed

lemma numbered_keys: "{k. map_of (numbered bs) k \<noteq> None} = nat_str ` {1..length bs}"
proof -
  let ?ks = "map nat_str [1..<Suc (length bs)]"
  have len: "length ?ks = length bs" by (simp del: upt_Suc)
  have "distinct ?ks" by (subst distinct_numbers) (rule distinct_upt)
  then have "map_of (numbered bs) l = map_of (zip ?ks bs) l" for l
    using bt.look_put_all [of "[]" "zip ?ks bs" l] len by (simp add: numbered_def split: option.split)
  then have "{k. map_of (numbered bs) k \<noteq> None} = fst ` set (zip ?ks bs)"
    by (auto simp: map_of_eq_None_iff)
  also have "\<dots> = set ?ks" using len by (metis list.set_map map_fst_zip)
  also have "\<dots> = nat_str ` {1..length bs}"
    by (simp add: atLeastLessThanSuc_atLeastAtMost del: upt_Suc)
  finally show ?thesis .
qed

lemma numbered_inv: "bt_inv (numbered bs)"
  unfolding numbered_def by (rule bt.put_all_inv) simp

section \<open>Three-valued conditions\<close>

type_synonym tv = "bool option"

definition and3 :: "tv \<Rightarrow> tv \<Rightarrow> tv" where
  "and3 a b = (if a = Some False \<or> b = Some False then Some False
               else if a = None \<or> b = None then None else Some True)"

definition or3 :: "tv \<Rightarrow> tv \<Rightarrow> tv" where
  "or3 a b = (if a = Some True \<or> b = Some True then Some True
              else if a = None \<or> b = None then None else Some False)"

definition not3 :: "tv \<Rightarrow> tv" where
  "not3 a = map_option Not a"

lemma and3_assoc: "and3 (and3 a b) c = and3 a (and3 b c)"
  and and3_true [simp]: "and3 a (Some True) = a" "and3 (Some True) a = a"
  and or3_assoc: "or3 (or3 a b) c = or3 a (or3 b c)"
  and or3_false [simp]: "or3 a (Some False) = a" "or3 (Some False) a = a"
  by (cases a; cases b; cases c; auto simp: and3_def or3_def)+

definition all3 :: "tv list \<Rightarrow> tv" where
  "all3 vs = foldr and3 vs (Some True)"

definition any3 :: "tv list \<Rightarrow> tv" where
  "any3 vs = foldr or3 vs (Some False)"

section \<open>The grammar of conditions\<close>

definition kw :: "string \<Rightarrow> piece" where "kw w = (Word, w)"
definition sp :: piece where "sp = (Whitespace, '' '')"
definition sy :: "char \<Rightarrow> piece" where "sy c = (Symbol, [c])"
definition qi :: "string \<Rightarrow> piece" where "qi c = (QuotedIdentifier, quote_identifier c)"
definition ph :: piece where "ph = sy CHR ''?''"

text \<open>The tokens of a comparison of a column with \<open>n\<close> placeholders under an operator.\<close>

definition comparison_symbols :: "string \<Rightarrow> string option" where
  "comparison_symbols operator =
     map_of [(''eq'', ''=''), (''neq'', ''!=''), (''lt'', ''<''), (''lte'', ''<=''),
             (''gt'', ''>''), (''gte'', ''>='')] operator"

fun comma_separated :: "piece list \<Rightarrow> piece list" where
  "comma_separated [] = []"
| "comma_separated [x] = [x]"
| "comma_separated (x # y # xs) = x # sy CHR '','' # comma_separated (y # xs)"

definition atom :: "string \<Rightarrow> string \<Rightarrow> nat \<Rightarrow> piece list option" where
  "atom column operator n =
     (case comparison_symbols operator of
        Some cs \<Rightarrow> if n = 1 then Some (qi column # map sy cs @ [ph]) else None
      | None \<Rightarrow>
        if operator = ''between'' \<and> n = 2 then Some [qi column, kw ''BETWEEN'', ph, kw ''AND'', ph]
        else if operator = ''in'' \<and> 1 \<le> n then
          Some ([qi column, kw ''IN'', sy CHR ''(''] @ comma_separated (replicate n ph) @ [sy CHR '')''])
        else if operator = ''is_null'' \<and> n = 0 then Some [qi column, kw ''IS'', kw ''NULL'']
        else if operator = ''is_not_null'' \<and> n = 0 then Some [qi column, kw ''IS'', kw ''NOT'', kw ''NULL'']
        else if operator = ''contains'' \<and> n = 1 then
          Some [kw ''POSITION'', sy CHR ''('', ph, kw ''IN'', qi column, sy CHR '')'', sy CHR ''>'',
                (SqlTokenKind.Number, ''0'')]
        else None)"

text \<open>
  Conditions, from the loosest to the tightest connective. \<open>E\<close> is the value of a comparison: of a
  column, an operator and the bindings of its placeholders; \<open>B\<close> are the bindings in order; the
  numbers are the placeholders before and after the condition.
\<close>

inductive cond_or :: "(string \<Rightarrow> string \<Rightarrow> TypedBinding list \<Rightarrow> tv) \<Rightarrow> TypedBinding list \<Rightarrow> nat \<Rightarrow> piece list \<Rightarrow> tv \<Rightarrow> nat \<Rightarrow> bool"
  and cond_and :: "(string \<Rightarrow> string \<Rightarrow> TypedBinding list \<Rightarrow> tv) \<Rightarrow> TypedBinding list \<Rightarrow> nat \<Rightarrow> piece list \<Rightarrow> tv \<Rightarrow> nat \<Rightarrow> bool"
  and cond_not :: "(string \<Rightarrow> string \<Rightarrow> TypedBinding list \<Rightarrow> tv) \<Rightarrow> TypedBinding list \<Rightarrow> nat \<Rightarrow> piece list \<Rightarrow> tv \<Rightarrow> nat \<Rightarrow> bool"
  for E B where
  or_one: "cond_and E B k ts v k' \<Longrightarrow> cond_or E B k ts v k'"
| or_more: "cond_and E B k ts v k' \<Longrightarrow> cond_or E B k' us w k'' \<Longrightarrow>
     cond_or E B k (ts @ kw ''OR'' # us) (or3 v w) k''"
| and_one: "cond_not E B k ts v k' \<Longrightarrow> cond_and E B k ts v k'"
| and_more: "cond_not E B k ts v k' \<Longrightarrow> cond_and E B k' us w k'' \<Longrightarrow>
     cond_and E B k (ts @ kw ''AND'' # us) (and3 v w) k''"
| not_not: "cond_not E B k ts v k' \<Longrightarrow> cond_not E B k (kw ''NOT'' # ts) (not3 v) k'"
| not_paren: "cond_or E B k ts v k' \<Longrightarrow> cond_not E B k (sy CHR ''('' # ts @ [sy CHR '')'']) v k'"
| not_atom: "atom column operator n = Some ts \<Longrightarrow> k + n \<le> length B \<Longrightarrow>
     cond_not E B k ts (E column operator (take n (drop k B))) (k + n)"

lemma cond_and_append:
  "cond_and E B k ts v k' \<Longrightarrow> cond_and E B k' us w k'' \<Longrightarrow>
     cond_and E B k (ts @ kw ''AND'' # us) (and3 v w) k''"
proof (induction k ts v k' rule: cond_or_cond_and_cond_not.inducts(2)
    [where ?P1.0 = "\<lambda>_ _ _ _. True" and ?P3.0 = "\<lambda>_ _ _ _. True"])
  case (and_more k ts v k' us' w' k''')
  then have "cond_and E B k' (us' @ kw ''AND'' # us) (and3 w' w) k''" by blast
  from cond_or_cond_and_cond_not.and_more [OF and_more(1) this] show ?case by (simp add: and3_assoc)
qed (auto intro: cond_or_cond_and_cond_not.and_more)

section \<open>Fragments\<close>

text \<open>Pieces that lex back and neither start nor end with a blank.\<close>

definition frag :: "piece list \<Rightarrow> bool" where
  "frag ps \<longleftrightarrow> ps \<noteq> [] \<and> pieces_ok ps \<and> fst (hd ps) \<noteq> Whitespace \<and> fst (last ps) \<noteq> Whitespace"

text \<open>Bytes that end every piece but a blank.\<close>

definition breaker :: "char \<Rightarrow> bool" where
  "breaker c \<longleftrightarrow> c \<in> set '' ,()''"

lemma breaker_follows: "k \<noteq> Whitespace \<Longrightarrow> breaker c \<Longrightarrow> may_follow k c"
  by (cases k) (auto simp: breaker_def is_identifier_byte_def byte_class)

lemma piece_head_not_blank: "piece_ok (k, t) \<Longrightarrow> k \<noteq> Whitespace \<Longrightarrow> \<not> is_ascii_whitespace (hd t)"
  by (cases k; cases t) (auto simp: byte_class plain_symbols_def)

lemma quote_identifier_hd [simp]: "hd (quote_identifier c) = CHR 0x22"
  by (simp add: quote_identifier_def)

lemma piece_forms [simp]:
  "piece_ok sp" "piece_ok (qi c)" "d \<in> set plain_symbols \<Longrightarrow> piece_ok (sy d)"
  "fst sp = Whitespace" "fst (qi c) = QuotedIdentifier" "fst (sy d) = Symbol" "fst (kw w) = Word"
  "fst ph = Symbol" "snd sp = '' ''" "snd (qi c) = quote_identifier c" "snd (sy d) = [d]"
  "snd (kw w) = w" "snd ph = ''?''" "piece_ok ph"
  using quote_identifier_ok [of c]
  by (simp_all add: sp_def qi_def sy_def kw_def ph_def plain_symbols_def byte_class)

lemmas piece_eval = pieces_ok_Cons apart_def byte_class is_identifier_byte_def

lemma apart_breaker: "fst p \<noteq> Whitespace \<Longrightarrow> breaker (hd (snd q)) \<Longrightarrow> apart p q"
  by (simp add: apart_def breaker_follows)

lemma apart_blank: "piece_ok q \<Longrightarrow> fst q \<noteq> Whitespace \<Longrightarrow> apart sp q"
  using piece_head_not_blank [of "fst q" "snd q"] by (simp add: apart_def)

lemma frag_hd_ok: "frag ps \<Longrightarrow> piece_ok (hd ps)"
  by (cases ps) (auto simp: frag_def pieces_ok_Cons)

text \<open>A separator starts with a breaker and ends with a blank or a symbol.\<close>

definition separator :: "piece list \<Rightarrow> bool" where
  "separator ss \<longleftrightarrow> ss \<noteq> [] \<and> pieces_ok ss \<and> breaker (hd (snd (hd ss)))
     \<and> (last ss = sp \<or> fst (last ss) = Symbol)"

lemma separator_apart: "separator ss \<Longrightarrow> frag ps \<Longrightarrow> apart (last ss) (hd ps)"
  using frag_hd_ok [of ps] apart_blank [of "hd ps"]
  by (auto simp: separator_def frag_def) (simp add: apart_def)

lemma frag_append: "frag xs \<Longrightarrow> separator ss \<Longrightarrow> frag ys \<Longrightarrow> frag (xs @ ss @ ys)"
  using separator_apart [of ss ys]
  by (auto simp: frag_def separator_def pieces_ok_append intro: apart_breaker)

lemma frag_paren: "frag xs \<Longrightarrow> frag (sy CHR ''('' # xs @ [sy CHR '')''])"
proof -
  assume x: "frag xs"
  then have "apart (last xs) (sy CHR '')'')"
    by (intro apart_breaker) (simp_all add: frag_def breaker_def)
  moreover have "apart (sy CHR ''('') (hd xs)" by (simp add: apart_def)
  ultimately show ?thesis
    using x by (auto simp: frag_def pieces_ok_Cons pieces_ok_append plain_symbols_def)
qed

text \<open>Joining fragments, as the source joins their texts.\<close>

fun join_pieces :: "piece list \<Rightarrow> piece list list \<Rightarrow> piece list" where
  "join_pieces ss [] = []"
| "join_pieces ss [x] = x"
| "join_pieces ss (x # y # xs) = x @ ss @ join_pieces ss (y # xs)"

lemma join_pieces_text: "piece_text (join_pieces ss xs) = join (piece_text ss) (map piece_text xs)"
  by (induction ss xs rule: join_pieces.induct) auto

lemma frag_join: "separator ss \<Longrightarrow> xs \<noteq> [] \<Longrightarrow> list_all frag xs \<Longrightarrow> frag (join_pieces ss xs)"
  by (induction ss xs rule: join_pieces.induct) (auto intro: frag_append)

definition sep_word :: "string \<Rightarrow> piece list" where
  "sep_word w = [sp, kw w, sp]"

definition sep_comma :: "piece list" where
  "sep_comma = [sy CHR '','', sp]"

lemma sep_word_separator: "piece_ok (kw w) \<Longrightarrow> separator (sep_word w)"
  using apart_blank [of "kw w"] apart_breaker [of "kw w" sp]
  by (simp add: separator_def sep_word_def pieces_ok_Cons breaker_def)

lemma sep_comma_separator: "separator sep_comma"
  by (simp add: separator_def sep_comma_def pieces_ok_Cons breaker_def apart_def plain_symbols_def)

lemma sep_texts [simp]: "piece_text (sep_word w) = '' '' @ w @ '' ''" "piece_text sep_comma = '', ''"
  by (simp_all add: sep_word_def sep_comma_def)

lemma significant_append [simp]:
  "significant_pieces (xs @ ys) = significant_pieces xs @ significant_pieces ys"
  by (simp add: significant_pieces_def)

lemma significant_Cons [simp]:
  "significant_pieces (p # ps) = (if fst p = Whitespace then significant_pieces ps else p # significant_pieces ps)"
  "significant_pieces [] = []"
  by (simp_all add: significant_pieces_def)

lemma significant_comma:
  "significant_pieces (join_pieces sep_comma (map (\<lambda>p. [p]) ps)) = comma_separated ps"
  if "list_all (\<lambda>p. fst p \<noteq> Whitespace) ps"
  using that by (induction ps rule: comma_separated.induct) (auto simp: sep_comma_def)

lemma significant_join_word:
  "significant_pieces (join_pieces (sep_word w) (x # y # xs))
     = significant_pieces x @ kw w # significant_pieces (join_pieces (sep_word w) (y # xs))"
  by (simp add: sep_word_def)

section \<open>A comparison is an atom\<close>

lemma kw_ok:
  "list_all (\<lambda>w. piece_ok (kw w))
     [''BETWEEN'', ''AND'', ''OR'', ''NOT'', ''IN'', ''IS'', ''NULL'', ''POSITION'', ''SELECT'', ''FROM'',
      ''WHERE'', ''LIMIT'', ''AT'', ''TIMESTAMP'', ''TIMESTAMP_TZ'']"
  by (simp add: kw_def byte_class is_identifier_byte_def)

lemma kw_simps [simp]:
  "piece_ok (kw ''BETWEEN'')" "piece_ok (kw ''AND'')" "piece_ok (kw ''OR'')" "piece_ok (kw ''NOT'')"
  "piece_ok (kw ''IN'')" "piece_ok (kw ''IS'')" "piece_ok (kw ''NULL'')" "piece_ok (kw ''POSITION'')"
  using kw_ok by simp_all

lemma comparison_tokens:
  "comparison operator = map_option (\<lambda>cs. '' '' @ cs @ '' '') (comparison_symbols operator)"
  by (simp add: comparison_def comparison_symbols_def)

lemma comparison_symbols_plain:
  "comparison_symbols operator = Some cs \<Longrightarrow> cs \<noteq> [] \<and> list_all (\<lambda>c. c \<in> set plain_symbols) cs"
  by (auto simp: comparison_symbols_def plain_symbols_def split: if_splits)

lemma sy_list_ok: "list_all (\<lambda>c. c \<in> set plain_symbols) cs \<Longrightarrow> pieces_ok (map sy cs)"
  by (induction cs) (auto simp: pieces_ok_Cons apart_def)

lemma sy_list_text [simp]: "piece_text (map sy cs) = cs"
  by (induction cs) auto

lemma sy_list_significant [simp]: "significant_pieces (map sy cs) = map sy cs"
  by (induction cs) auto

lemma frag_comparison:
  assumes "list_all (\<lambda>c. c \<in> set plain_symbols) cs" and "cs \<noteq> []"
  shows "frag (qi column # sp # map sy cs @ [sp, ph])"
proof -
  have "apart sp (sy (hd cs))"
    using assms by (cases cs) (auto intro: apart_blank)
  moreover have "apart (sy (last cs)) sp" by (simp add: apart_def)
  moreover have "apart (qi column) sp" by (rule apart_breaker) (simp_all add: breaker_def)
  moreover have "apart sp ph" by (rule apart_blank) simp_all
  ultimately show ?thesis
    using assms sy_list_ok [OF assms(1)]
    by (simp add: frag_def pieces_ok_Cons pieces_ok_append hd_map last_map)
qed

lemma frag_words:
  assumes "frag xs" and "list_all (\<lambda>w. piece_ok (kw w)) ws"
  shows "frag (xs @ concat (map (\<lambda>w. [sp, kw w]) ws))"
  using assms
proof (induction ws arbitrary: xs)
  case (Cons w ws)
  have "frag [kw w]" using Cons.prems by (simp add: frag_def pieces_ok_Cons)
  moreover have "separator [sp]" by (simp add: separator_def pieces_ok_Cons breaker_def)
  ultimately have "frag (xs @ [sp] @ [kw w])" using Cons.prems by (intro frag_append) simp_all
  from Cons.IH [OF this] Cons.prems show ?case by simp
qed simp

lemma frag_single [simp]: "frag [qi column]" "frag [ph]"
  by (simp_all add: frag_def pieces_ok_Cons)

lemma frag_placeholders:
  "0 < n \<Longrightarrow> frag (join_pieces sep_comma (map (\<lambda>p. [p]) (replicate n ph)))"
  by (rule frag_join [OF sep_comma_separator]) (auto simp: list_all_iff)

lemma placeholders_text:
  "piece_text (join_pieces sep_comma (map (\<lambda>p. [p]) (replicate n ph))) = join '', '' (replicate n ''?'')"
  by (simp add: join_pieces_text)

lemma frag_spaced: "frag xs \<Longrightarrow> frag ys \<Longrightarrow> frag (xs @ sp # ys)"
  using frag_append [of xs "[sp]" ys] by (simp add: separator_def pieces_ok_Cons breaker_def)

text \<open>The three shapes of a comparison that are not an operator symbol between two operands.\<close>

lemma compile_symbol:
  assumes "comparison_symbols operator = Some cs"
  shows "compile_operator operator (quote_identifier column) dtype [v] (binds bs)
           = Some (piece_text (qi column # sp # map sy cs @ [sp, ph]), binds (bs @ [typed_binding dtype v]))"
  using assms by (simp add: compile_operator_def comparison_tokens first_value_def value_at_def)

lemma compile_operator_atom:
  assumes "atom column operator (length values) = Some ts"
  shows "\<exists>ps. frag ps \<and> significant_pieces ps = ts
           \<and> compile_operator operator (quote_identifier column) dtype values (binds bs)
               = Some (piece_text ps, binds (bs @ map (typed_binding dtype) values))"
proof (cases "comparison_symbols operator")
  case (Some cs)
  with assms have n: "length values = 1" and ts: "ts = qi column # map sy cs @ [ph]"
    by (auto simp: atom_def split: if_splits)
  then obtain v where v: "values = [v]" by (cases "values") auto
  have "frag (qi column # sp # map sy cs @ [sp, ph])"
    using comparison_symbols_plain [OF Some] by (intro frag_comparison) simp_all
  with compile_symbol [OF Some] show ?thesis by (auto simp: v ts)
next
  case None
  then have nc: "comparison operator = None" by (simp add: comparison_tokens)
  note atom = assms [unfolded atom_def None option.case]
  from atom consider
      (between) "operator = ''between''" "length values = 2"
    | (inn) "operator = ''in''" "1 \<le> length values"
    | (null) "operator = ''is_null''" "values = []"
    | (not_null) "operator = ''is_not_null''" "values = []"
    | (contains) "operator = ''contains''" "length values = 1"
    by (auto split: if_splits)
  then show ?thesis
  proof cases
    case between
    then obtain v w where v: "values = [v, w]" by (auto simp: length_Suc_conv numeral_2_eq_2)
    let ?ps = "([qi column] @ concat (map (\<lambda>w. [sp, kw w]) [''BETWEEN''])) @ sp # ([ph] @ concat (map (\<lambda>w. [sp, kw w]) [''AND''])) @ sp # [ph]"
    have "frag ?ps" by (intro frag_spaced frag_words) simp_all
    moreover have "compile_operator operator (quote_identifier column) dtype values (binds bs)
        = Some (piece_text ?ps, binds (bs @ map (typed_binding dtype) values))"
      using between nc by (simp add: compile_operator_def v value_at_def)
    moreover have "significant_pieces ?ps = ts" using atom between by simp
    ultimately show ?thesis by blast
  next
    case inn
    let ?hs = "join_pieces sep_comma (map (\<lambda>p. [p]) (replicate (length values) ph))"
    let ?ps = "([qi column] @ concat (map (\<lambda>w. [sp, kw w]) [''IN''])) @ sp # (sy CHR ''('' # ?hs @ [sy CHR '')''])"
    have "frag ?ps" using inn by (intro frag_spaced frag_words frag_paren frag_placeholders) auto
    moreover have "compile_operator operator (quote_identifier column) dtype values (binds bs)
        = Some (piece_text ?ps, binds (bs @ map (typed_binding dtype) values))"
      using inn nc by (simp add: compile_operator_def placeholders_text del: map_replicate)
    moreover have "significant_pieces ?ps = ts"
      using atom inn significant_comma [of "replicate (length values) ph"]
      by (auto simp: list_all_iff simp del: map_replicate)
    ultimately show ?thesis by blast
  next
    case null
    let ?ps = "[qi column] @ concat (map (\<lambda>w. [sp, kw w]) [''IS'', ''NULL''])"
    have "frag ?ps" by (intro frag_words) simp_all
    moreover have "compile_operator operator (quote_identifier column) dtype values (binds bs)
        = Some (piece_text ?ps, binds (bs @ map (typed_binding dtype) values))"
      using null nc by (simp add: compile_operator_def)
    moreover have "significant_pieces ?ps = ts" using atom null by simp
    ultimately show ?thesis by blast
  next
    case not_null
    let ?ps = "[qi column] @ concat (map (\<lambda>w. [sp, kw w]) [''IS'', ''NOT'', ''NULL''])"
    have "frag ?ps" by (intro frag_words) simp_all
    moreover have "compile_operator operator (quote_identifier column) dtype values (binds bs)
        = Some (piece_text ?ps, binds (bs @ map (typed_binding dtype) values))"
      using not_null nc by (simp add: compile_operator_def)
    moreover have "significant_pieces ?ps = ts" using atom not_null by simp
    ultimately show ?thesis by blast
  next
    case contains
    then obtain v where v: "values = [v]" by (cases "values") auto
    let ?in = "([ph] @ concat (map (\<lambda>w. [sp, kw w]) [''IN''])) @ sp # [qi column]"
    let ?ps = "kw ''POSITION'' # (sy CHR ''('' # ?in @ [sy CHR '')'']) @ sp # [sy CHR ''>''] @ sp # [(SqlTokenKind.Number, ''0'')]"
    have "frag ((sy CHR ''('' # ?in @ [sy CHR '')'']) @ sp # [sy CHR ''>''] @ sp # [(SqlTokenKind.Number, ''0'')])"
      by (intro frag_spaced frag_words frag_paren)
        (simp_all add: frag_def pieces_ok_Cons plain_symbols_def byte_class)
    then have "frag ?ps"
      using apart_breaker [of "kw ''POSITION''" "sy CHR ''(''"] by (simp add: frag_def pieces_ok_Cons breaker_def)
    moreover have "compile_operator operator (quote_identifier column) dtype values (binds bs)
        = Some (piece_text ?ps, binds (bs @ map (typed_binding dtype) values))"
      using contains nc by (simp add: compile_operator_def v first_value_def value_at_def)
    moreover have "significant_pieces ?ps = ts" using atom contains by simp
    ultimately show ?thesis by blast
  qed
qed

section \<open>The meaning of a predicate\<close>

definition some_of :: "('a list \<Rightarrow> 'b) \<Rightarrow> 'a list \<Rightarrow> 'b option" where
  "some_of f vs = (if vs = [] then None else Some (f vs))"

definition leaf_meaning ::
  "(string \<Rightarrow> string) \<Rightarrow> 'n ValueText \<Rightarrow> ColumnCatalogEntry list
     \<Rightarrow> (string \<Rightarrow> string \<Rightarrow> TypedBinding list \<Rightarrow> tv) \<Rightarrow> 'n LeafPredicate \<Rightarrow> tv" where
  "leaf_meaning lc V columns E leaf =
     (case find_column_in_refs lc (leaf_column leaf) columns of
        None \<Rightarrow> None
      | Some c \<Rightarrow> E (col_column c) (leaf_op leaf)
          (map (typed_binding (col_dtype_class c)) (value_strings V (leaf_value leaf))))"

text \<open>A compound without a leaf says nothing; otherwise its parts are all to hold.\<close>

fun meaning ::
  "(string \<Rightarrow> string) \<Rightarrow> 'n ValueText \<Rightarrow> ColumnCatalogEntry list
     \<Rightarrow> (string \<Rightarrow> string \<Rightarrow> TypedBinding list \<Rightarrow> tv) \<Rightarrow> 'n PredicateAst \<Rightarrow> tv option" where
  "meaning lc V columns E (Leaf leaf) = Some (leaf_meaning lc V columns E leaf)"
| "meaning lc V columns E (Compound ands ors neg) =
     some_of all3
       (option_list (some_of all3 (concat (map (\<lambda>p. option_list (meaning lc V columns E p)) ands)))
        @ option_list (some_of any3 (concat (map (\<lambda>p. option_list (meaning lc V columns E p)) ors)))
        @ option_list (map_option not3 (case neg of None \<Rightarrow> None | Some p \<Rightarrow> meaning lc V columns E p)))"

definition leaf_fits ::
  "(string \<Rightarrow> string) \<Rightarrow> 'n ValueText \<Rightarrow> ColumnCatalogEntry list \<Rightarrow> 'n LeafPredicate \<Rightarrow> bool" where
  "leaf_fits lc V columns leaf \<longleftrightarrow>
     (\<exists>c. find_column_in_refs lc (leaf_column leaf) columns = Some c
        \<and> atom (col_column c) (leaf_op leaf) (length (value_strings V (leaf_value leaf))) \<noteq> None)"

lemma length_value_strings: "length (value_strings V v) = value_count v"
  by (cases v rule: value_count.cases) auto

lemma built_in_atom:
  assumes "operator \<in> set built_in_operator_catalog" and "arity_accepts (op_arity operator) n"
  shows "atom column (op_id operator) n \<noteq> None"
proof -
  have "list_all (\<lambda>operator. \<forall>n. arity_accepts (op_arity operator) n \<longrightarrow> atom column (op_id operator) n \<noteq> None)
      built_in_operator_catalog"
    unfolding built_in_operator_catalog_def Let_def list.map append.simps list.pred_inject
    by (intro conjI) (simp_all add: operator_entry_def atom_def comparison_symbols_def)
  with assms show ?thesis by (simp add: list_all_iff)
qed

lemma leaf_ok_fits:
  assumes "set operators \<subseteq> set built_in_operator_catalog" and "leaf_ok lc columns operators leaf"
  shows "leaf_fits lc V columns leaf"
proof -
  from assms(2) obtain c operator where
    c: "find_column lc (leaf_column leaf) columns = Some c"
    and o: "find_operator (leaf_op leaf) operators = Some operator"
    and n: "arity_accepts (op_arity operator) (value_count (leaf_value leaf))"
    by (auto simp: leaf_ok_def)
  from find_Some_mem [OF o [unfolded find_operator_def]]
  have "operator \<in> set operators" "op_id operator = leaf_op leaf" by simp_all
  with built_in_atom [OF _ n, of "col_column c"] assms(1) c show ?thesis
    by (auto simp: leaf_fits_def length_value_strings find_column_def find_column_in_refs_def)
qed

section \<open>Compilation refines the meaning\<close>

text \<open>A compiled predicate reads as a conjunction with a value, from the bindings pushed before it.\<close>

definition reads_and ::
  "(string \<Rightarrow> string \<Rightarrow> TypedBinding list \<Rightarrow> tv) \<Rightarrow> TypedBinding list \<Rightarrow> TypedBinding list \<Rightarrow> string \<Rightarrow> tv
     \<Rightarrow> bool" where
  "reads_and E bs new s v \<longleftrightarrow>
     (\<exists>ps. frag ps \<and> s = piece_text ps
        \<and> (\<forall>rest. cond_and E (bs @ new @ rest) (length bs) (significant_pieces ps) v (length (bs @ new))))"

definition reads_or ::
  "(string \<Rightarrow> string \<Rightarrow> TypedBinding list \<Rightarrow> tv) \<Rightarrow> TypedBinding list \<Rightarrow> TypedBinding list \<Rightarrow> string \<Rightarrow> tv
     \<Rightarrow> bool" where
  "reads_or E bs new s v \<longleftrightarrow>
     (\<exists>ps. frag ps \<and> s = piece_text ps
        \<and> (\<forall>rest. cond_or E (bs @ new @ rest) (length bs) (significant_pieces ps) v (length (bs @ new))))"

inductive reads_seq ::
  "(string \<Rightarrow> string \<Rightarrow> TypedBinding list \<Rightarrow> tv) \<Rightarrow> TypedBinding list \<Rightarrow> TypedBinding list \<Rightarrow> string list
     \<Rightarrow> tv list \<Rightarrow> bool" for E where
  seq_Nil: "reads_seq E bs [] [] []"
| seq_Cons: "reads_and E bs new s v \<Longrightarrow> reads_seq E (bs @ new) news ss vs \<Longrightarrow>
     reads_seq E bs (new @ news) (s # ss) (v # vs)"

inductive_cases seq_ConsE: "reads_seq E bs new (s # ss) vs"
inductive_cases seq_NilE: "reads_seq E bs new [] vs"

lemma seq_one: "reads_and E bs new s v \<Longrightarrow> reads_seq E bs new [s] [v]"
  using seq_Cons [OF _ seq_Nil] by fastforce

lemma seq_append:
  "reads_seq E bs n ss vs \<Longrightarrow> reads_seq E (bs @ n) m ts ws \<Longrightarrow> reads_seq E bs (n @ m) (ss @ ts) (vs @ ws)"
proof (induction rule: reads_seq.induct)
  case (seq_Cons bs new s v news ss vs)
  then show ?case using reads_seq.seq_Cons [of E bs new s v "news @ m" "ss @ ts" "vs @ ws"] by simp
qed simp

lemma seq_lengths: "reads_seq E bs n ss vs \<Longrightarrow> length ss = length vs"
  by (induction rule: reads_seq.induct) auto

lemma reads_and_join:
  "reads_and E bs n s v \<Longrightarrow> reads_and E (bs @ n) m t w \<Longrightarrow>
     reads_and E bs (n @ m) (s @ '' AND '' @ t) (and3 v w)"
proof -
  assume "reads_and E bs n s v" "reads_and E (bs @ n) m t w"
  then obtain ps qs where p: "frag ps" "s = piece_text ps"
      "\<And>rest. cond_and E (bs @ n @ rest) (length bs) (significant_pieces ps) v (length (bs @ n))"
    and q: "frag qs" "t = piece_text qs"
      "\<And>rest. cond_and E ((bs @ n) @ m @ rest) (length (bs @ n)) (significant_pieces qs) w (length ((bs @ n) @ m))"
    unfolding reads_and_def by blast
  have "frag (ps @ sep_word ''AND'' @ qs)"
    using p(1) q(1) by (intro frag_append sep_word_separator) simp_all
  moreover have "cond_and E (bs @ (n @ m) @ rest) (length bs)
      (significant_pieces (ps @ sep_word ''AND'' @ qs)) (and3 v w) (length (bs @ n @ m))" for rest
    using cond_and_append [OF p(3) [of "m @ rest"]] q(3) [of rest] by (simp add: sep_word_def)
  ultimately show ?thesis
    unfolding reads_and_def
    by (intro exI [of _ "ps @ sep_word ''AND'' @ qs"]) (simp add: p(2) q(2))
qed

lemma reads_or_join:
  "reads_and E bs n s v \<Longrightarrow> reads_or E (bs @ n) m t w \<Longrightarrow>
     reads_or E bs (n @ m) (s @ '' OR '' @ t) (or3 v w)"
proof -
  assume "reads_and E bs n s v" "reads_or E (bs @ n) m t w"
  then obtain ps qs where p: "frag ps" "s = piece_text ps"
      "\<And>rest. cond_and E (bs @ n @ rest) (length bs) (significant_pieces ps) v (length (bs @ n))"
    and q: "frag qs" "t = piece_text qs"
      "\<And>rest. cond_or E ((bs @ n) @ m @ rest) (length (bs @ n)) (significant_pieces qs) w (length ((bs @ n) @ m))"
    unfolding reads_and_def reads_or_def by blast
  have "frag (ps @ sep_word ''OR'' @ qs)"
    using p(1) q(1) by (intro frag_append sep_word_separator) simp_all
  moreover have "cond_or E (bs @ (n @ m) @ rest) (length bs)
      (significant_pieces (ps @ sep_word ''OR'' @ qs)) (or3 v w) (length (bs @ n @ m))" for rest
    using or_more [OF p(3) [of "m @ rest"]] q(3) [of rest] by (simp add: sep_word_def)
  ultimately show ?thesis
    unfolding reads_or_def
    by (intro exI [of _ "ps @ sep_word ''OR'' @ qs"]) (simp add: p(2) q(2))
qed

lemma reads_and_or: "reads_and E bs n s v \<Longrightarrow> reads_or E bs n s v"
  unfolding reads_and_def reads_or_def by (blast intro: or_one)

lemma reads_seq_and: "reads_seq E bs n ss vs \<Longrightarrow> ss \<noteq> [] \<Longrightarrow> reads_and E bs n (join '' AND '' ss) (all3 vs)"
proof (induction rule: reads_seq.induct)
  case (seq_Cons bs new s v news ss vs)
  show ?case
  proof (cases ss)
    case Nil
    with seq_Cons show ?thesis by (auto simp: all3_def elim: seq_NilE)
  next
    case (Cons t ts)
    with seq_Cons have "reads_and E (bs @ new) news (join '' AND '' ss) (all3 vs)" by simp
    from reads_and_join [OF seq_Cons(1) this] Cons show ?thesis by (simp add: all3_def)
  qed
qed simp

lemma reads_seq_or: "reads_seq E bs n ss vs \<Longrightarrow> ss \<noteq> [] \<Longrightarrow> reads_or E bs n (join '' OR '' ss) (any3 vs)"
proof (induction rule: reads_seq.induct)
  case (seq_Cons bs new s v news ss vs)
  show ?case
  proof (cases ss)
    case Nil
    with seq_Cons show ?thesis by (auto simp: any3_def reads_and_or elim: seq_NilE)
  next
    case (Cons t ts)
    with seq_Cons have "reads_or E (bs @ new) news (join '' OR '' ss) (any3 vs)" by simp
    from reads_or_join [OF seq_Cons(1) this] Cons show ?thesis by (simp add: any3_def)
  qed
qed simp

lemma reads_paren: "reads_or E bs n s v \<Longrightarrow> reads_and E bs n (''('' @ s @ '')'') v"
proof -
  assume "reads_or E bs n s v"
  then obtain ps where p: "frag ps" "s = piece_text ps"
    "\<And>rest. cond_or E (bs @ n @ rest) (length bs) (significant_pieces ps) v (length (bs @ n))"
    unfolding reads_or_def by blast
  have "cond_and E (bs @ n @ rest) (length bs)
      (significant_pieces (sy CHR ''('' # ps @ [sy CHR '')''])) v (length (bs @ n))" for rest
    using and_one [OF not_paren [OF p(3)]] by simp
  with frag_paren [OF p(1)] show ?thesis
    unfolding reads_and_def
    by (intro exI [of _ "sy CHR ''('' # ps @ [sy CHR '')'']"]) (simp add: p(2))
qed

lemma reads_negation: "reads_or E bs n s v \<Longrightarrow> reads_and E bs n (''NOT ('' @ s @ '')'') (not3 v)"
proof -
  assume "reads_or E bs n s v"
  then obtain ps where p: "frag ps" "s = piece_text ps"
    "\<And>rest. cond_or E (bs @ n @ rest) (length bs) (significant_pieces ps) v (length (bs @ n))"
    unfolding reads_or_def by blast
  let ?ps = "[kw ''NOT''] @ sp # sy CHR ''('' # ps @ [sy CHR '')'']"
  have "cond_and E (bs @ n @ rest) (length bs) (significant_pieces ?ps) (not3 v) (length (bs @ n))" for rest
    using and_one [OF not_not [OF not_paren [OF p(3)]]] by simp
  moreover have "frag ?ps"
    using frag_paren [OF p(1)] by (intro frag_spaced) (simp_all add: frag_def pieces_ok_Cons)
  ultimately show ?thesis
    unfolding reads_and_def by (intro exI [of _ ?ps]) (simp add: p(2))
qed

lemma group_and_reads:
  "reads_seq E bs new (map cp_sql cs) vs \<Longrightarrow>
     reads_seq E bs new (map cp_sql (option_list (group_compiled '' AND '' cs))) (option_list (some_of all3 vs))"
  using seq_lengths [of E bs new "map cp_sql cs" vs]
  by (auto simp: group_compiled_def some_of_def option_list_def
      intro!: seq_one reads_paren [simplified] reads_and_or reads_seq_and)

lemma group_or_reads:
  "reads_seq E bs new (map cp_sql cs) vs \<Longrightarrow>
     reads_seq E bs new (map cp_sql (option_list (group_compiled '' OR '' cs))) (option_list (some_of any3 vs))"
  using seq_lengths [of E bs new "map cp_sql cs" vs]
  by (auto simp: group_compiled_def some_of_def option_list_def intro!: seq_one reads_paren [simplified] reads_seq_or)

lemma join_parts_reads:
  "reads_seq E bs new (map cp_sql cs) vs \<Longrightarrow>
     reads_seq E bs new (map cp_sql (option_list (join_parts cs))) (option_list (some_of all3 vs))"
  using seq_lengths [of E bs new "map cp_sql cs" vs]
  by (auto simp: join_parts_def some_of_def option_list_def intro!: seq_one reads_seq_and)

lemma negate_reads:
  assumes "reads_seq E bs new (map cp_sql (option_list c)) (option_list m)"
  shows "reads_seq E bs new (map cp_sql (option_list (map_option negate_compiled c)))
           (option_list (map_option not3 m))"
proof (cases c)
  case None
  with assms seq_lengths [OF assms] show ?thesis by (cases m) (auto simp: option_list_def)
next
  case (Some d)
  with seq_lengths [OF assms] obtain v where m: "m = Some v" by (cases m) (auto simp: option_list_def)
  with assms Some have "reads_and E bs new (cp_sql d) v"
    by (auto simp: option_list_def elim!: seq_ConsE seq_NilE)
  from seq_one [OF reads_negation [OF reads_and_or [OF this]]] show ?thesis
    by (simp add: Some m option_list_def negate_compiled_def)
qed

text \<open>What it is to compile correctly from any bindings pushed before.\<close>

definition compiles ::
  "(string \<Rightarrow> string) \<Rightarrow> 'n ValueText \<Rightarrow> ColumnCatalogEntry list
     \<Rightarrow> (string \<Rightarrow> string \<Rightarrow> TypedBinding list \<Rightarrow> tv) \<Rightarrow> 'n PredicateAst \<Rightarrow> bool" where
  "compiles lc V columns E p \<longleftrightarrow>
     (\<forall>bs. \<exists>c new. compile_predicate lc V columns p (binds bs) = Inr (c, binds (bs @ new))
        \<and> reads_seq E bs new (map cp_sql (option_list c)) (option_list (meaning lc V columns E p)))"

lemma compile_loop_reads:
  "\<forall>p \<in> set ps. compiles lc V columns E p \<Longrightarrow>
     \<exists>cs new. compile_loop lc V columns ps (binds bs) = Inr (cs, binds (bs @ new))
       \<and> reads_seq E bs new (map cp_sql cs) (concat (map (\<lambda>p. option_list (meaning lc V columns E p)) ps))"
proof (induction ps arbitrary: bs)
  case Nil
  then show ?case by (auto intro!: exI [of _ "[]"] intro: seq_Nil)
next
  case (Cons p ps)
  then obtain c n where c: "compile_predicate lc V columns p (binds bs) = Inr (c, binds (bs @ n))"
    "reads_seq E bs n (map cp_sql (option_list c)) (option_list (meaning lc V columns E p))"
    unfolding compiles_def by (meson list.set_intros(1))
  from Cons obtain cs m where cs: "compile_loop lc V columns ps (binds (bs @ n)) = Inr (cs, binds ((bs @ n) @ m))"
    "reads_seq E (bs @ n) m (map cp_sql cs) (concat (map (\<lambda>p. option_list (meaning lc V columns E p)) ps))"
    by (meson list.set_intros(2))
  from seq_append [OF c(2) cs(2)] c(1) cs(1) show ?case
    by (intro exI [of _ "option_list c @ cs"] exI [of _ "n @ m"]) simp
qed

lemma compile_leaf_reads:
  assumes "leaf_fits lc V columns leaf"
  shows "\<exists>c new. compile_leaf lc V leaf columns (binds bs) = Inr (c, binds (bs @ new))
           \<and> cp_leaf_count c = 1
           \<and> reads_and E bs new (cp_sql c) (leaf_meaning lc V columns E leaf)"
proof -
  let ?vs = "value_strings V (leaf_value leaf)"
  from assms obtain c ts where c: "find_column_in_refs lc (leaf_column leaf) columns = Some c"
    and a: "atom (col_column c) (leaf_op leaf) (length ?vs) = Some ts"
    by (auto simp: leaf_fits_def)
  let ?new = "map (typed_binding (col_dtype_class c)) ?vs"
  from compile_operator_atom [OF a, of "col_dtype_class c" bs] obtain ps where
    ps: "frag ps" "significant_pieces ps = ts"
      "compile_operator (leaf_op leaf) (quote_identifier (col_column c)) (col_dtype_class c) ?vs (binds bs)
         = Some (piece_text ps, binds (bs @ ?new))" by blast
  have "cond_and E (bs @ ?new @ rest) (length bs) ts (leaf_meaning lc V columns E leaf) (length (bs @ ?new))" for rest
    using and_one [OF not_atom [OF a, of "length bs" "bs @ ?new @ rest" E]] by (simp add: leaf_meaning_def c)
  with ps have "reads_and E bs ?new (piece_text ps) (leaf_meaning lc V columns E leaf)"
    unfolding reads_and_def by blast
  then show ?thesis
    by (intro exI [of _ "\<lparr>cp_sql = piece_text ps, cp_leaf_count = 1\<rparr>"] exI [of _ ?new])
      (simp add: compile_leaf_def c ps(3))
qed

lemma compile_predicate_reads:
  "list_all (leaf_fits lc V columns) (leaves p) \<Longrightarrow> compiles lc V columns E p"
proof (induction p)
  case (Leaf leaf)
  then have fits: "leaf_fits lc V columns leaf" by simp
  show ?case
    unfolding compiles_def
  proof
    fix bs
    from compile_leaf_reads [OF fits, of bs E] obtain c new where
      "compile_leaf lc V leaf columns (binds bs) = Inr (c, binds (bs @ new))"
      "reads_and E bs new (cp_sql c) (leaf_meaning lc V columns E leaf)" by blast
    then show "\<exists>c new. compile_predicate lc V columns (Leaf leaf) (binds bs) = Inr (c, binds (bs @ new))
        \<and> reads_seq E bs new (map cp_sql (option_list c)) (option_list (meaning lc V columns E (Leaf leaf)))"
      by (intro exI [of _ "Some c"] exI [of _ new]) (auto simp: option_list_def intro: seq_one)
  qed
next
  case (Compound ands ors neg)
  have ands: "\<forall>p \<in> set ands. compiles lc V columns E p" and ors: "\<forall>p \<in> set ors. compiles lc V columns E p"
    and neg: "\<And>p. neg = Some p \<Longrightarrow> compiles lc V columns E p"
  proof -
    have "list_all (leaf_fits lc V columns) (leaves p)" if "p \<in> set ands \<or> p \<in> set ors \<or> neg = Some p" for p
      using Compound.prems that by (auto simp: list_all_iff)
    with Compound.IH show "\<forall>p \<in> set ands. compiles lc V columns E p" "\<forall>p \<in> set ors. compiles lc V columns E p"
      "\<And>p. neg = Some p \<Longrightarrow> compiles lc V columns E p"
      by auto
  qed
  show ?case
    unfolding compiles_def
  proof
    fix bs
    let ?m = "\<lambda>ps. concat (map (\<lambda>p. option_list (meaning lc V columns E p)) ps)"
      and ?nm = "case neg of None \<Rightarrow> None | Some p \<Rightarrow> meaning lc V columns E p"
    from compile_loop_reads [OF ands, of bs] obtain cs n where
      a: "compile_loop lc V columns ands (binds bs) = Inr (cs, binds (bs @ n))"
        "reads_seq E bs n (map cp_sql cs) (?m ands)" by blast
    from compile_loop_reads [OF ors, of "bs @ n"] obtain ds k where
      o: "compile_loop lc V columns ors (binds (bs @ n)) = Inr (ds, binds ((bs @ n) @ k))"
        "reads_seq E (bs @ n) k (map cp_sql ds) (?m ors)" by blast
    obtain c l where
      c: "(case neg of None \<Rightarrow> Inr (None, binds ((bs @ n) @ k))
           | Some p \<Rightarrow> compile_predicate lc V columns p (binds ((bs @ n) @ k))) = Inr (c, binds (((bs @ n) @ k) @ l))"
        "reads_seq E ((bs @ n) @ k) l (map cp_sql (option_list c)) (option_list ?nm)"
    proof (cases neg)
      case None
      then show ?thesis using that [of None "[]"] by (simp add: option_list_def seq_Nil)
    next
      case (Some p)
      from neg [OF Some] obtain c l where
        "compile_predicate lc V columns p (binds ((bs @ n) @ k)) = Inr (c, binds (((bs @ n) @ k) @ l))"
        "reads_seq E ((bs @ n) @ k) l (map cp_sql (option_list c)) (option_list (meaning lc V columns E p))"
        unfolding compiles_def by blast
      with that [of c l] Some show ?thesis by simp
    qed
    define parts where "parts = option_list (group_compiled '' AND '' cs) @ option_list (group_compiled '' OR '' ds)
      @ option_list (map_option negate_compiled c)"
    note seq = seq_append [OF group_and_reads [OF a(2)] seq_append [OF group_or_reads [OF o(2)] negate_reads [OF c(2)]]]
    have "compile_predicate lc V columns (Compound ands ors neg) (binds bs)
        = Inr (join_parts parts, binds (bs @ n @ k @ l))"
      using a(1) o(1) c(1) by (cases neg) (simp_all add: parts_def option_list_def)
    moreover have "reads_seq E bs (n @ k @ l) (map cp_sql (option_list (join_parts parts)))
        (option_list (meaning lc V columns E (Compound ands ors neg)))"
      using join_parts_reads [of E bs "n @ k @ l" parts] seq by (simp add: parts_def)
    ultimately show "\<exists>c new. compile_predicate lc V columns (Compound ands ors neg) (binds bs) = Inr (c, binds (bs @ new))
        \<and> reads_seq E bs new (map cp_sql (option_list c)) (option_list (meaning lc V columns E (Compound ands ors neg)))"
      by blast
  qed
qed

section \<open>Words and placeholders of a condition\<close>

lemma comma_replicate: "p \<in> set (comma_separated (replicate n q)) \<Longrightarrow> p = q \<or> p = sy CHR '',''"
proof (induction n)
  case (Suc n)
  then show ?case by (cases n) auto
qed simp

lemma piece_words_append [simp]: "piece_words (xs @ ys) = piece_words xs @ piece_words ys"
  and piece_words_Cons [simp]:
    "piece_words (p # xs) = (if fst p = Word then to_ascii_lowercase (snd p) # piece_words xs else piece_words xs)"
  and piece_words_Nil [simp]: "piece_words [] = []"
  by (simp_all add: piece_words_def)

lemma piece_words_none: "list_all (\<lambda>p. fst p \<noteq> Word) ps \<Longrightarrow> piece_words ps = []"
  by (auto simp: piece_words_def filter_empty_conv list_all_iff)

lemma effect_free_word [simp]:
  "\<not> effect_word (to_ascii_lowercase ''BETWEEN'')" "\<not> effect_word (to_ascii_lowercase ''AND'')"
  "\<not> effect_word (to_ascii_lowercase ''OR'')" "\<not> effect_word (to_ascii_lowercase ''NOT'')"
  "\<not> effect_word (to_ascii_lowercase ''IN'')" "\<not> effect_word (to_ascii_lowercase ''IS'')"
  "\<not> effect_word (to_ascii_lowercase ''NULL'')" "\<not> effect_word (to_ascii_lowercase ''POSITION'')"
  "\<not> effect_word (to_ascii_lowercase ''SELECT'')" "\<not> effect_word (to_ascii_lowercase ''FROM'')"
  "\<not> effect_word (to_ascii_lowercase ''WHERE'')" "\<not> effect_word (to_ascii_lowercase ''LIMIT'')"
  "\<not> effect_word (to_ascii_lowercase ''AT'')" "\<not> effect_word (to_ascii_lowercase ''TIMESTAMP'')"
  "\<not> effect_word (to_ascii_lowercase ''TIMESTAMP_TZ'')"
  by (simp_all add: effect_word_def starts_with_def to_ascii_lowercase_def to_lower_def byte_class)

text \<open>The placeholders among the tokens.\<close>

definition placeholders :: "piece list \<Rightarrow> nat" where
  "placeholders ps = length (filter (\<lambda>p. p = ph) ps)"

lemma placeholders_append [simp]: "placeholders (xs @ ys) = placeholders xs + placeholders ys"
  and placeholders_Cons [simp]: "placeholders (p # xs) = (if p = ph then 1 else 0) + placeholders xs"
  and placeholders_Nil [simp]: "placeholders [] = 0"
  by (simp_all add: placeholders_def)

lemma not_ph [simp]: "kw w \<noteq> ph" "qi c \<noteq> ph" "sy d = ph \<longleftrightarrow> d = CHR ''?''" "(SqlTokenKind.Number, t) \<noteq> ph"
  "sp \<noteq> ph" "(StringLiteral, t) \<noteq> ph"
  by (simp_all add: kw_def qi_def sy_def ph_def sp_def)

lemma placeholders_comma: "placeholders (comma_separated (replicate n ph)) = n"
proof (induction n)
  case (Suc n)
  then show ?case by (cases n) auto
qed simp

lemma placeholders_symbols: "CHR ''?'' \<notin> set cs \<Longrightarrow> placeholders (map sy cs) = 0"
  by (induction cs) auto

lemma comparison_symbols_no_ph: "comparison_symbols operator = Some cs \<Longrightarrow> CHR ''?'' \<notin> set cs"
  by (auto simp: comparison_symbols_def split: if_splits)

lemma atom_words: "atom column operator n = Some ts \<Longrightarrow> list_all (\<lambda>w. \<not> effect_word w) (piece_words ts)"
proof -
  have "list_all (\<lambda>p. fst p \<noteq> Word) (comma_separated (replicate n ph))"
    by (auto simp: list_all_iff dest!: comma_replicate)
  moreover have "piece_words (map sy cs) = []" for cs by (induction cs) auto
  ultimately show "atom column operator n = Some ts \<Longrightarrow> list_all (\<lambda>w. \<not> effect_word w) (piece_words ts)"
    by (auto simp: atom_def piece_words_none split: option.splits if_splits)
qed

lemma atom_placeholders: "atom column operator n = Some ts \<Longrightarrow> placeholders ts = n"
  by (auto simp: atom_def placeholders_comma placeholders_symbols comparison_symbols_no_ph
      split: option.splits if_splits)

lemma cond_words:
  "cond_or E B k ts v k' \<Longrightarrow> list_all (\<lambda>w. \<not> effect_word w) (piece_words ts)"
  "cond_and E B k ts v k' \<Longrightarrow> list_all (\<lambda>w. \<not> effect_word w) (piece_words ts)"
  "cond_not E B k ts v k' \<Longrightarrow> list_all (\<lambda>w. \<not> effect_word w) (piece_words ts)"
  by (induction rule: cond_or_cond_and_cond_not.inducts) (simp_all add: atom_words)

lemma cond_placeholders:
  "cond_or E B k ts v k' \<Longrightarrow> k' = k + placeholders ts"
  "cond_and E B k ts v k' \<Longrightarrow> k' = k + placeholders ts"
  "cond_not E B k ts v k' \<Longrightarrow> k' = k + placeholders ts"
  by (induction rule: cond_or_cond_and_cond_not.inducts) (simp_all add: atom_placeholders)

section \<open>Every leaf is compiled\<close>

lemma group_count: "sum_list (map cp_leaf_count (option_list (group_compiled j cs))) = sum_list (map cp_leaf_count cs)"
  by (simp add: group_compiled_def option_list_def)

lemma join_parts_count: "sum_list (map cp_leaf_count (option_list (join_parts cs))) = sum_list (map cp_leaf_count cs)"
  by (simp add: join_parts_def option_list_def)

lemma negate_count:
  "sum_list (map cp_leaf_count (option_list (map_option negate_compiled c))) = sum_list (map cp_leaf_count (option_list c))"
  by (cases c) (simp_all add: option_list_def negate_compiled_def)

lemma compile_loop_count:
  "(\<And>p st c st'. p \<in> set ps \<Longrightarrow> compile_predicate lc V columns p st = Inr (c, st') \<Longrightarrow>
       sum_list (map cp_leaf_count (option_list c)) = count_predicate_leaves p) \<Longrightarrow>
   compile_loop lc V columns ps st = Inr (cs, st') \<Longrightarrow>
     sum_list (map cp_leaf_count cs) = sum_list (map count_predicate_leaves ps)"
proof (induction ps arbitrary: st cs)
  case (Cons p ps)
  from Cons.prems(2) obtain c st1 ds where
    c: "compile_predicate lc V columns p st = Inr (c, st1)"
    and d: "compile_loop lc V columns ps st1 = Inr (ds, st')" and cs: "cs = option_list c @ ds"
    by (auto simp: map_sum_Inr split: sum.splits prod.splits)
  have "sum_list (map cp_leaf_count ds) = sum_list (map count_predicate_leaves ps)"
    using Cons.IH [OF _ d] Cons.prems(1) by (meson list.set_intros(2))
  with Cons.prems(1) [OF _ c] cs show ?case by simp
qed simp

lemma compile_predicate_count:
  "compile_predicate lc V columns p st = Inr (c, st') \<Longrightarrow>
     sum_list (map cp_leaf_count (option_list c)) = count_predicate_leaves p"
proof (induction p arbitrary: st c st')
  case (Leaf leaf)
  then show ?case
    by (auto simp: map_sum_Inr compile_leaf_def option_list_def split: option.splits prod.splits)
next
  case (Compound ands ors neg)
  from Compound.prems obtain cs st1 ds st2 where
    a: "compile_loop lc V columns ands st = Inr (cs, st1)"
    and o: "compile_loop lc V columns ors st1 = Inr (ds, st2)"
    by (auto simp: map_sum_Inr split: sum.splits prod.splits)
  have ab: "sum_list (map cp_leaf_count cs) = sum_list (map count_predicate_leaves ands)"
    "sum_list (map cp_leaf_count ds) = sum_list (map count_predicate_leaves ors)"
    using compile_loop_count [OF _ a] compile_loop_count [OF _ o] Compound.IH(1,2) by blast+
  show ?case
  proof (cases neg)
    case None
    with Compound.prems a o ab show ?thesis
      by (auto simp: join_parts_count group_count)
  next
    case (Some p)
    with Compound.prems a o obtain d where d: "compile_predicate lc V columns p st2 = Inr (d, st')"
      and c: "c = join_parts (option_list (group_compiled '' AND '' cs) @ option_list (group_compiled '' OR '' ds)
        @ option_list (map_option negate_compiled d))"
      by (auto split: sum.splits prod.splits)
    have "sum_list (map cp_leaf_count (option_list d)) = count_predicate_leaves p"
      using Compound.IH(3) [of p] Some d by simp
    with ab Some show ?thesis by (simp add: c join_parts_count group_count negate_count)
  qed
qed

end
