(* ===== verification/PlanMeaning.thy ===== *)
theory PlanMeaning
  imports PlanSql
begin

text \<open>
  What an accepted dataset plan is: its SQL, read back by the lexer of the guards, is one read whose
  tokens are the projection, the object, the condition that means the request, and the bound limit;
  its bindings are numbered in the order of the placeholders; no value of the request reaches the
  text. And when planning refuses.
\<close>

section \<open>The text before the condition\<close>

definition select_tokens :: "DatasetManifest \<Rightarrow> ColumnCatalogEntry list \<Rightarrow> string option \<Rightarrow> piece list" where
  "select_tokens manifest projection as_of =
     kw ''SELECT'' # comma_separated (map (\<lambda>c. qi (col_column c)) projection)
     @ [kw ''FROM'', qi (dm_database manifest), sy CHR ''.'', qi (dm_schema manifest), sy CHR ''.'',
        qi (dm_object manifest)]
     @ (case as_of of None \<Rightarrow> []
        | Some t \<Rightarrow> [kw ''AT'', sy CHR ''('', kw ''TIMESTAMP'', sy CHR ''='', sy CHR ''>'',
                    (StringLiteral, CHR 0x27 # escape_snowflake_literal t @ [CHR 0x27]),
                    sy CHR '':'', sy CHR '':'', kw ''TIMESTAMP_TZ'', sy CHR '')''])"

lemma more_kw [simp]:
  "piece_ok (kw ''SELECT'')" "piece_ok (kw ''FROM'')" "piece_ok (kw ''WHERE'')" "piece_ok (kw ''LIMIT'')"
  "piece_ok (kw ''AT'')" "piece_ok (kw ''TIMESTAMP'')" "piece_ok (kw ''TIMESTAMP_TZ'')"
  using kw_ok by simp_all

lemma frag_kw [simp]: "piece_ok (kw w) \<Longrightarrow> frag [kw w]"
  by (simp add: frag_def pieces_ok_Cons)

lemma frag_object: "frag [qi d, sy CHR ''.'', qi s, sy CHR ''.'', qi n]"
  by (simp add: frag_def pieces_ok_Cons apart_def plain_symbols_def)

definition at_pieces :: "string \<Rightarrow> piece list" where
  "at_pieces t =
     [kw ''AT'', sy CHR ''('', kw ''TIMESTAMP'', sp, sy CHR ''='', sy CHR ''>'', sp,
      (StringLiteral, CHR 0x27 # escape_snowflake_literal t @ [CHR 0x27]),
      sy CHR '':'', sy CHR '':'', kw ''TIMESTAMP_TZ'', sy CHR '')'']"

lemma frag_at: "frag (at_pieces t)"
  using literal_ok [of t] more_kw(5,6,7)
  by (simp add: at_pieces_def frag_def pieces_ok_Cons apart_def plain_symbols_def sp_def kw_def sy_def
      byte_class is_identifier_byte_def)

lemma frag_projection:
  "cs \<noteq> [] \<Longrightarrow> frag (join_pieces sep_comma (map (\<lambda>c. [qi (col_column c)]) cs))"
  by (rule frag_join [OF sep_comma_separator]) (auto simp: list_all_iff)

lemma frag_select_from:
  "\<exists>ps. frag ps \<and> significant_pieces ps = kw ''SELECT'' # comma_separated (map (\<lambda>c. qi (col_column c)) cs) @ [kw ''FROM'']
     \<and> piece_text ps = ''SELECT '' @ join '', '' (map (\<lambda>c. quote_identifier (col_column c)) cs) @ '' FROM''"
proof (cases "cs = []")
  case True
  let ?ps = "[kw ''SELECT'', (Whitespace, ''  ''), kw ''FROM'']"
  have "frag ?ps"
    using more_kw(1,2) by (simp add: frag_def pieces_ok_Cons apart_def kw_def byte_class is_identifier_byte_def)
  then show ?thesis by (intro exI [of _ ?ps]) (simp add: True)
next
  case False
  let ?xs = "map (\<lambda>c. [qi (col_column c)]) cs"
  let ?ps = "[kw ''SELECT''] @ sp # join_pieces sep_comma ?xs @ sp # [kw ''FROM'']"
  have "frag ?ps" using frag_projection [OF False] by (intro frag_spaced) simp_all
  moreover have "significant_pieces (join_pieces sep_comma ?xs) = comma_separated (map (\<lambda>c. qi (col_column c)) cs)"
    using significant_comma [of "map (\<lambda>c. qi (col_column c)) cs"] by (simp add: list_all_iff comp_def)
  moreover have "piece_text (join_pieces sep_comma ?xs) = join '', '' (map (\<lambda>c. quote_identifier (col_column c)) cs)"
    by (simp add: join_pieces_text comp_def)
  ultimately show ?thesis by (intro exI [of _ ?ps]) simp
qed

lemma select_head_pieces:
  "\<exists>ps. frag ps \<and> significant_pieces ps = select_tokens manifest projection as_of
     \<and> piece_text ps = select_head manifest projection as_of"
proof -
  from frag_select_from [of projection] obtain ps where ps: "frag ps"
    "significant_pieces ps = kw ''SELECT'' # comma_separated (map (\<lambda>c. qi (col_column c)) projection) @ [kw ''FROM'']"
    "piece_text ps = ''SELECT '' @ join '', '' (map (\<lambda>c. quote_identifier (col_column c)) projection) @ '' FROM''"
    by blast
  let ?o = "ps @ sp # [qi (dm_database manifest), sy CHR ''.'', qi (dm_schema manifest), sy CHR ''.'', qi (dm_object manifest)]"
  have o: "frag ?o" using ps(1) frag_object by (rule frag_spaced)
  show ?thesis
  proof (cases as_of)
    case None
    with o show ?thesis
      by (intro exI [of _ ?o]) (simp add: ps select_tokens_def select_head_def quote_qualified_object_def)
  next
    case (Some t)
    have "frag (?o @ sp # at_pieces t)" using o frag_at by (rule frag_spaced)
    with Some show ?thesis
      by (intro exI [of _ "?o @ sp # at_pieces t"])
        (simp add: ps select_tokens_def select_head_def quote_qualified_object_def at_pieces_def
          time_travel_timestamp_literal_def)
  qed
qed

section \<open>The condition of a request\<close>

text \<open>An axis restricts when the request gives a value and the dataset has the axis.\<close>

definition axis_meaning ::
  "(string \<Rightarrow> string \<Rightarrow> TypedBinding list \<Rightarrow> tv) \<Rightarrow> string \<Rightarrow> string option \<Rightarrow> ColumnCatalogEntry option
     \<Rightarrow> tv list" where
  "axis_meaning E operator value column =
     (case (value, column) of
        (Some v, Some c) \<Rightarrow> [E (col_column c) operator [typed_binding (col_dtype_class c) v]]
      | _ \<Rightarrow> [])"

definition request_meaning ::
  "(string \<Rightarrow> string) \<Rightarrow> 'n ValueText \<Rightarrow> DatasetManifest \<Rightarrow> ColumnCatalogEntry list
     \<Rightarrow> (string \<Rightarrow> string \<Rightarrow> TypedBinding list \<Rightarrow> tv) \<Rightarrow> 'n DatasetQueryRequest \<Rightarrow> tv list" where
  "request_meaning lc V manifest columns E request =
     axis_meaning E ''eq'' (dq_entity request) (axis_column lc manifest columns EntityKey)
     @ axis_meaning E ''gte'' (dq_from request) (axis_column lc manifest columns TimeIndex)
     @ axis_meaning E ''lte'' (dq_to request) (axis_column lc manifest columns TimeIndex)
     @ option_list (case dq_filter request of None \<Rightarrow> None | Some p \<Rightarrow> meaning lc V columns E p)"

lemma axis_clause_reads:
  assumes "comparison_symbols operator = Some cs"
  shows "\<exists>ss new. axis_clause ('' '' @ cs @ '' '') value column (binds bs) = (ss, binds (bs @ new))
           \<and> reads_seq E bs new ss (axis_meaning E operator value column)"
proof (cases "value = None \<or> column = None")
  case True
  then show ?thesis
    by (intro exI [of _ "[]"])
      (auto simp: axis_clause_def axis_meaning_def intro: seq_Nil split: option.splits)
next
  case False
  then obtain v c where vc: "value = Some v" "column = Some c" by auto
  let ?b = "typed_binding (col_dtype_class c) v" and ?ps = "qi (col_column c) # sp # map sy cs @ [sp, ph]"
  have a: "atom (col_column c) operator 1 = Some (qi (col_column c) # map sy cs @ [ph])"
    by (simp add: atom_def assms)
  have "frag ?ps" using comparison_symbols_plain [OF assms] by (intro frag_comparison) simp_all
  moreover have "cond_and E (bs @ [?b] @ rest) (length bs) (significant_pieces ?ps)
      (E (col_column c) operator [?b]) (length (bs @ [?b]))" for rest
    using and_one [OF not_atom [OF a, of "length bs" "bs @ [?b] @ rest" E]] by simp
  ultimately have "reads_and E bs [?b] (piece_text ?ps) (E (col_column c) operator [?b])"
    unfolding reads_and_def by blast
  from seq_one [OF this] show ?thesis
    by (intro exI [of _ "[piece_text ?ps]"] exI [of _ "[?b]"]) (simp add: axis_clause_def axis_meaning_def vc)
qed

lemma axes_reads:
  "\<exists>ss new. add_axis_filters lc manifest columns request (binds bs) = (ss, binds (bs @ new))
     \<and> reads_seq E bs new ss
         (axis_meaning E ''eq'' (dq_entity request) (axis_column lc manifest columns EntityKey)
          @ axis_meaning E ''gte'' (dq_from request) (axis_column lc manifest columns TimeIndex)
          @ axis_meaning E ''lte'' (dq_to request) (axis_column lc manifest columns TimeIndex))"
proof -
  have sym: "comparison_symbols ''eq'' = Some ''=''" "comparison_symbols ''gte'' = Some ''>=''"
    "comparison_symbols ''lte'' = Some ''<=''"
    by (simp_all add: comparison_symbols_def)
  from axis_clause_reads [OF sym(1), of "dq_entity request" "axis_column lc manifest columns EntityKey" bs E]
  obtain s1 n1 where 1: "axis_clause '' = '' (dq_entity request) (axis_column lc manifest columns EntityKey) (binds bs) = (s1, binds (bs @ n1))"
    "reads_seq E bs n1 s1 (axis_meaning E ''eq'' (dq_entity request) (axis_column lc manifest columns EntityKey))" by auto
  from axis_clause_reads [OF sym(2), of "dq_from request" "axis_column lc manifest columns TimeIndex" "bs @ n1" E]
  obtain s2 n2 where 2: "axis_clause '' >= '' (dq_from request) (axis_column lc manifest columns TimeIndex) (binds (bs @ n1)) = (s2, binds ((bs @ n1) @ n2))"
    "reads_seq E (bs @ n1) n2 s2 (axis_meaning E ''gte'' (dq_from request) (axis_column lc manifest columns TimeIndex))" by auto
  from axis_clause_reads [OF sym(3), of "dq_to request" "axis_column lc manifest columns TimeIndex" "(bs @ n1) @ n2" E]
  obtain s3 n3 where 3: "axis_clause '' <= '' (dq_to request) (axis_column lc manifest columns TimeIndex) (binds ((bs @ n1) @ n2)) = (s3, binds (((bs @ n1) @ n2) @ n3))"
    "reads_seq E ((bs @ n1) @ n2) n3 s3 (axis_meaning E ''lte'' (dq_to request) (axis_column lc manifest columns TimeIndex))" by auto
  from seq_append [OF 1(2) seq_append [OF 2(2) 3(2)]] 1(1) 2(1) 3(1) show ?thesis
    by (intro exI [of _ "s1 @ s2 @ s3"] exI [of _ "n1 @ n2 @ n3"]) (simp add: add_axis_filters_def)
qed

section \<open>Planning succeeds on what was validated\<close>

definition effective_limit :: "DatasetManifest \<Rightarrow> 'n DatasetQueryRequest \<Rightarrow> nat" where
  "effective_limit manifest request =
     (case dq_limit request of None \<Rightarrow> dm_default_limit manifest | Some l \<Rightarrow> l)"

text \<open>The text of a plan, apart from the decision to return it.\<close>

definition dataset_text ::
  "(string \<Rightarrow> string) \<Rightarrow> 'n ValueText \<Rightarrow> DatasetManifest \<Rightarrow> ColumnCatalogEntry list
     \<Rightarrow> 'n DatasetQueryRequest \<Rightarrow> string" where
  "dataset_text lc V manifest columns request =
     (let cols = sorted_dataset_columns (dm_id manifest) columns;
          projection = fst (resolve_projection lc manifest cols request);
          (axes, st) = add_axis_filters lc manifest cols request ([], 1);
          compiled = (case dq_filter request of None \<Rightarrow> None
                      | Some p \<Rightarrow> (case compile_predicate lc V cols p st of Inl _ \<Rightarrow> None | Inr (c, _) \<Rightarrow> c))
      in select_head manifest projection (dq_as_of request)
         @ where_text (axes @ map cp_sql (option_list compiled)) @ '' LIMIT ?'')"

definition valid_request ::
  "(string \<Rightarrow> string) \<Rightarrow> DatasetManifest \<Rightarrow> ColumnCatalogEntry list \<Rightarrow> OperatorCatalogEntry list
     \<Rightarrow> 'n DatasetQueryRequest \<Rightarrow> bool" where
  "valid_request lc manifest columns operators request \<longleftrightarrow>
     dm_id manifest = dq_dataset_id request
     \<and> request_refusals lc manifest (sorted_dataset_columns (dm_id manifest) columns) operators request = []
     \<and> set operators \<subseteq> set built_in_operator_catalog"

lemma valid_leaves_fit:
  assumes "valid_request lc manifest columns operators request" and "dq_filter request = Some p"
  shows "list_all (leaf_fits lc V (sorted_dataset_columns (dm_id manifest) columns)) (leaves p)"
proof -
  from assms have "validate_predicate lc p (sorted_dataset_columns (dm_id manifest) columns) operators = Inr ()"
    by (auto simp: valid_request_def request_refusals_def validate_predicate_def Let_def split: if_splits)
  then have "list_all (leaf_ok lc (sorted_dataset_columns (dm_id manifest) columns) operators) (leaves p)"
    by (auto simp: validate_predicate_def validate_node_leaves Let_def list_all_iff
        simp flip: validate_leaf_ok split: if_splits)
  then show ?thesis
    using leaf_ok_fits [of operators] assms(1) unfolding list_all_iff valid_request_def by blast
qed

text \<open>The compiled condition of a valid request, with its bindings.\<close>

lemma valid_request_compiles:
  fixes manifest columns
  defines "cols \<equiv> sorted_dataset_columns (dm_id manifest) columns"
  assumes "valid_request lc manifest columns operators request"
  shows "\<exists>axes c m new.
           add_axis_filters lc manifest cols request ([], 1) = (axes, binds m)
           \<and> (case dq_filter request of None \<Rightarrow> Inr (None, binds m)
               | Some p \<Rightarrow> compile_predicate lc V cols p (binds m)) = Inr (c, binds new)
           \<and> reads_seq E [] new (axes @ map cp_sql (option_list c)) (request_meaning lc V manifest cols E request)
           \<and> sum_list (map cp_leaf_count (option_list c))
               = (case dq_filter request of None \<Rightarrow> 0 | Some p \<Rightarrow> count_predicate_leaves p)"
proof -
  from axes_reads [of lc manifest cols request "[]" E] obtain axes m where
    a: "add_axis_filters lc manifest cols request ([], 1) = (axes, binds m)"
      "reads_seq E [] m axes
         (axis_meaning E ''eq'' (dq_entity request) (axis_column lc manifest cols EntityKey)
          @ axis_meaning E ''gte'' (dq_from request) (axis_column lc manifest cols TimeIndex)
          @ axis_meaning E ''lte'' (dq_to request) (axis_column lc manifest cols TimeIndex))"
    unfolding binds_start by auto
  have "\<exists>c k. (case dq_filter request of None \<Rightarrow> Inr (None, binds m)
        | Some p \<Rightarrow> compile_predicate lc V cols p (binds m)) = Inr (c, binds (m @ k))
      \<and> reads_seq E m k (map cp_sql (option_list c))
          (option_list (case dq_filter request of None \<Rightarrow> None | Some p \<Rightarrow> meaning lc V cols E p))"
  proof (cases "dq_filter request")
    case None
    then show ?thesis by (intro exI [of _ None] exI [of _ "[]"]) (simp add: option_list_def seq_Nil)
  next
    case (Some p)
    have "compiles lc V cols E p"
      by (rule compile_predicate_reads) (use valid_leaves_fit [OF assms(2) Some] in \<open>simp add: cols_def\<close>)
    with Some show ?thesis unfolding compiles_def by simp
  qed
  then obtain c k where
    c: "(case dq_filter request of None \<Rightarrow> Inr (None, binds m)
        | Some p \<Rightarrow> compile_predicate lc V cols p (binds m)) = Inr (c, binds (m @ k))"
      "reads_seq E m k (map cp_sql (option_list c))
          (option_list (case dq_filter request of None \<Rightarrow> None | Some p \<Rightarrow> meaning lc V cols E p))" by blast
  moreover have "sum_list (map cp_leaf_count (option_list c))
      = (case dq_filter request of None \<Rightarrow> 0 | Some p \<Rightarrow> count_predicate_leaves p)"
    using c(1) compile_predicate_count [of lc V cols _ "binds m" c "binds (m @ k)"]
    by (cases "dq_filter request") (simp_all add: option_list_def)
  ultimately show ?thesis
    using a seq_append [OF a(2), of k] by (intro exI conjI) (auto simp: request_meaning_def)
qed

text \<open>
  The text of a valid request as pieces, with the condition among its tokens and the bindings the
  condition refers to.
\<close>

definition text_tokens ::
  "(string \<Rightarrow> string) \<Rightarrow> DatasetManifest \<Rightarrow> ColumnCatalogEntry list \<Rightarrow> 'n DatasetQueryRequest
     \<Rightarrow> tv list \<Rightarrow> piece list \<Rightarrow> piece list" where
  "text_tokens lc manifest columns request ms ts =
     select_tokens manifest
       (fst (resolve_projection lc manifest (sorted_dataset_columns (dm_id manifest) columns) request))
       (dq_as_of request)
     @ (if ms = [] then [] else kw ''WHERE'' # ts) @ [kw ''LIMIT'', ph]"

lemma condition_pieces:
  assumes "reads_seq E [] new ss ms"
  shows "\<exists>ps ts. (frag hs \<longrightarrow> frag (hs @ ps)) \<and> piece_text ps = where_text ss
           \<and> significant_pieces ps = (if ms = [] then [] else kw ''WHERE'' # ts)
           \<and> (if ms = [] then new = [] else \<forall>rest. cond_and E (new @ rest) 0 ts (all3 ms) (length new))"
proof (cases "ss = []")
  case True
  with assms show ?thesis by (intro exI [of _ "[]"]) (auto simp: where_text_def elim: seq_NilE)
next
  case False
  with seq_lengths [OF assms] have ms: "ms \<noteq> []" by auto
  from reads_seq_and [OF assms False] obtain ps where ps: "frag ps" "join '' AND '' ss = piece_text ps"
    "\<And>rest. cond_and E (new @ rest) 0 (significant_pieces ps) (all3 ms) (length new)"
    unfolding reads_and_def by auto
  have "frag (hs @ sp # ([kw ''WHERE''] @ sp # ps))" if "frag hs"
    using that ps(1) by (intro frag_spaced) simp_all
  with ps ms False show ?thesis
    by (intro exI [of _ "sp # ([kw ''WHERE''] @ sp # ps)"] exI [of _ "significant_pieces ps"])
      (simp add: where_text_def)
qed

lemma valid_request_text:
  fixes E manifest columns lc V and request :: "'n DatasetQueryRequest"
  defines "cols \<equiv> sorted_dataset_columns (dm_id manifest) columns"
  defines "ms \<equiv> request_meaning lc V manifest cols E request"
  assumes valid: "valid_request lc manifest columns operators request"
  obtains ps ts new axes c m where
    "add_axis_filters lc manifest cols request ([], 1) = (axes, binds m)"
    "(case dq_filter request of None \<Rightarrow> Inr (None, binds m)
      | Some p \<Rightarrow> compile_predicate lc V cols p (binds m)) = Inr (c, binds new)"
    "sum_list (map cp_leaf_count (option_list c))
       = (case dq_filter request of None \<Rightarrow> 0 | Some p \<Rightarrow> count_predicate_leaves p)"
    "dataset_text lc V manifest columns request
       = select_head manifest (fst (resolve_projection lc manifest cols request)) (dq_as_of request)
         @ where_text (axes @ map cp_sql (option_list c)) @ '' LIMIT ?''"
    "frag ps" "piece_text ps = dataset_text lc V manifest columns request"
    "significant_pieces ps = text_tokens lc manifest columns request ms ts"
    "if ms = [] then new = [] else \<forall>rest. cond_and E (new @ rest) 0 ts (all3 ms) (length new)"
proof -
  from valid_request_compiles [OF valid, of V E, folded cols_def, folded ms_def] obtain axes c m new where
    a: "add_axis_filters lc manifest cols request ([], 1) = (axes, binds m)"
    and c: "(case dq_filter request of None \<Rightarrow> Inr (None, binds m)
      | Some p \<Rightarrow> compile_predicate lc V cols p (binds m)) = Inr (c, binds new)"
    and r: "reads_seq E [] new (axes @ map cp_sql (option_list c)) ms"
    and n: "sum_list (map cp_leaf_count (option_list c))
       = (case dq_filter request of None \<Rightarrow> 0 | Some p \<Rightarrow> count_predicate_leaves p)"
    by blast
  have body: "dataset_text lc V manifest columns request
       = select_head manifest (fst (resolve_projection lc manifest cols request)) (dq_as_of request)
         @ where_text (axes @ map cp_sql (option_list c)) @ '' LIMIT ?''"
    using a c by (simp add: dataset_text_def Let_def cols_def [symmetric] option_list_def split: option.splits)
  from select_head_pieces obtain hs where h: "frag hs"
    "significant_pieces hs = select_tokens manifest (fst (resolve_projection lc manifest cols request)) (dq_as_of request)"
    "piece_text hs = select_head manifest (fst (resolve_projection lc manifest cols request)) (dq_as_of request)"
    by blast
  from condition_pieces [OF r, of hs] h(1) obtain ps ts where p: "frag (hs @ ps)"
    "piece_text ps = where_text (axes @ map cp_sql (option_list c))"
    "significant_pieces ps = (if ms = [] then [] else kw ''WHERE'' # ts)"
    "if ms = [] then new = [] else \<forall>rest. cond_and E (new @ rest) 0 ts (all3 ms) (length new)"
    by blast
  let ?ps = "(hs @ ps) @ sp # ([kw ''LIMIT''] @ sp # [ph])"
  have "frag ?ps" using p(1) by (intro frag_spaced) simp_all
  moreover have "piece_text ?ps = dataset_text lc V manifest columns request"
    by (simp add: body h(3) p(2))
  moreover have "significant_pieces ?ps = text_tokens lc manifest columns request ms ts"
    by (simp add: text_tokens_def h(2) p(3) cols_def [symmetric])
  ultimately show thesis using that a c n body p(4) by blast
qed

lemma words_significant: "piece_words (significant_pieces ps) = piece_words ps"
  by (induction ps) auto

lemma comma_words [simp]: "piece_words (comma_separated (map (\<lambda>c. qi (f c)) cs)) = []"
proof (induction cs)
  case (Cons c cs)
  then show ?case by (cases cs) auto
qed simp

lemma comma_placeholders [simp]: "placeholders (comma_separated (map (\<lambda>c. qi (f c)) cs)) = 0"
proof (induction cs)
  case (Cons c cs)
  then show ?case by (cases cs) auto
qed simp

lemma select_tokens_words:
  "list_all (\<lambda>w. \<not> effect_word w) (piece_words (select_tokens manifest projection as_of))"
  and select_tokens_placeholders: "placeholders (select_tokens manifest projection as_of) = 0"
  by (simp_all add: select_tokens_def split: option.split)

text \<open>The text of a valid request is one read.\<close>

lemma valid_text_read:
  assumes "frag ps" and "significant_pieces ps = text_tokens lc manifest columns request ms ts"
    and "ms \<noteq> [] \<longrightarrow> cond_and E B k ts v k'"
  shows "is_select_like (piece_text ps) \<and> statement_count (lex (piece_text ps)) = 1
         \<and> \<not> has_multiple_statements (piece_text ps)"
proof -
  have ok: "pieces_ok ps" using assms(1) by (simp add: frag_def)
  have "list_all (\<lambda>w. \<not> effect_word w) (piece_words (significant_pieces ps))"
    using select_tokens_words cond_words(2) assms(3) by (auto simp: assms(2) text_tokens_def)
  then have words: "list_all (\<lambda>w. \<not> effect_word w) (piece_words ps)" by (simp add: words_significant)
  obtain rest where first: "significant_pieces ps = (Word, ''SELECT'') # rest"
    by (simp add: assms(2) text_tokens_def select_tokens_def kw_def)
  have "to_ascii_lowercase ''SELECT'' \<in> set READ_VERBS" by code_simp
  from pieces_single_read [OF ok first this words] show ?thesis by blast
qed

text \<open>The plan of a valid request, field by field.\<close>

lemma valid_request_plan:
  fixes E manifest columns lc V and request :: "'n DatasetQueryRequest"
  defines "ms \<equiv> request_meaning lc V manifest (sorted_dataset_columns (dm_id manifest) columns) E request"
  defines "sql \<equiv> dataset_text lc V manifest columns request"
  assumes valid: "valid_request lc manifest columns operators request"
  obtains (too_large) "length sql > DEFAULT_MAX_STATEMENT_BYTES"
      "plan_dataset_query lc V manifest columns operators request = Inl [refusal ''FSNOW_RESULT_TOO_LARGE'']"
  | (planned) plan ps ts new where "length sql \<le> DEFAULT_MAX_STATEMENT_BYTES"
      "plan_dataset_query lc V manifest columns operators request = Inr plan"
      "qp_sql plan = sql" "frag ps" "piece_text ps = sql"
      "significant_pieces ps = text_tokens lc manifest columns request ms ts"
      "if ms = [] then new = [] else \<forall>rest. cond_and E (new @ rest) 0 ts (all3 ms) (length new)"
      "qp_bindings plan = numbered (new @ [typed_binding DtNumber (nat_str (effective_limit manifest request))])"
      "pp_all_predicates_pushed_down (qp_pushdown plan)"
      "qp_guardrails plan =
         \<lparr>pg_statement_timeout_seconds = DATASET_STATEMENT_TIMEOUT_SECONDS,
          pg_result_row_cap = effective_limit manifest request,
          pg_result_byte_cap = DEFAULT_MAX_RESULT_BYTES, pg_query_tag = query_tag request\<rparr>"
proof -
  from valid_request_text [OF valid, of V E, folded ms_def sql_def] obtain ps ts new axes c m where
    a: "add_axis_filters lc manifest (sorted_dataset_columns (dm_id manifest) columns) request ([], 1) = (axes, binds m)"
    and c: "(case dq_filter request of None \<Rightarrow> Inr (None, binds m)
      | Some p \<Rightarrow> compile_predicate lc V (sorted_dataset_columns (dm_id manifest) columns) p (binds m)) = Inr (c, binds new)"
    and n: "sum_list (map cp_leaf_count (option_list c))
       = (case dq_filter request of None \<Rightarrow> 0 | Some p \<Rightarrow> count_predicate_leaves p)"
    and body: "sql = select_head manifest
          (fst (resolve_projection lc manifest (sorted_dataset_columns (dm_id manifest) columns) request)) (dq_as_of request)
         @ where_text (axes @ map cp_sql (option_list c)) @ '' LIMIT ?''"
    and p: "frag ps" "piece_text ps = sql" "significant_pieces ps = text_tokens lc manifest columns request ms ts"
      "if ms = [] then new = [] else \<forall>rest. cond_and E (new @ rest) 0 ts (all3 ms) (length new)"
    .
  from p(4) have "ms \<noteq> [] \<longrightarrow> cond_and E (new @ []) 0 ts (all3 ms) (length new)" by metis
  from valid_text_read [OF p(1,3) this] have "is_select_like sql" by (simp add: p(2))
  note guard = planner_guardrails_read [OF select_like_read [OF this], of "effective_limit manifest request" "dq_export_mode request"
    "dq_warehouse request" "query_tag request"]
  have id: "dm_id manifest = dq_dataset_id request"
    and none: "request_refusals lc manifest (sorted_dataset_columns (dm_id manifest) columns) operators request = []"
    using valid unfolding valid_request_def by blast+
  define lim where "lim = typed_binding DtNumber (nat_str (effective_limit manifest request))"
  have whole: "select_head manifest
      (fst (resolve_projection lc manifest (sorted_dataset_columns (dm_id manifest) columns) request)) (dq_as_of request)
      @ where_text (axes @ map cp_sql (option_list c)) @ '' LIMIT '' @ ''?'' = sql"
    by (simp add: body)
  have q: "plan_dataset_query lc V manifest columns operators request =
    (case planner_guardrails sql (effective_limit manifest request) (dq_export_mode request)
            (dq_warehouse request) (query_tag request) of
       Inl e \<Rightarrow> Inl [e]
     | Inr (guardrails, warnings) \<Rightarrow> Inr
         \<lparr>qp_plan_id = plan_id sql (numbered (new @ [lim])) guardrails manifest request,
          qp_mode = DatasetMode, qp_sql = sql, qp_bindings = numbered (new @ [lim]),
          qp_guardrails = guardrails,
          qp_pushdown =
            \<lparr>pp_projected_columns = length (fst (resolve_projection lc manifest
                (sorted_dataset_columns (dm_id manifest) columns) request)),
             pp_axis_filters = length axes,
             pp_predicate_filters = (case dq_filter request of None \<Rightarrow> 0 | Some p \<Rightarrow> count_predicate_leaves p),
             pp_all_predicates_pushed_down = True\<rparr>,
          qp_warnings = warnings @ warnings_for_request request\<rparr>)"
    unfolding plan_dataset_query_def Let_def
    by (simp add: id [symmetric] none a c n effective_limit_def [symmetric] lim_def [symmetric] whole binds_def [of "new @ [lim]"]
        del: append.simps One_nat_def cong: sum.case_cong)
  show thesis
  proof (cases "length sql > DEFAULT_MAX_STATEMENT_BYTES")
    case True
    with guard q too_large show thesis by simp
  next
    case False
    define W where "W = snd (projr (planner_guardrails sql (effective_limit manifest request)
      (dq_export_mode request) (dq_warehouse request) (query_tag request)))"
    from guard False have g: "planner_guardrails sql (effective_limit manifest request)
        (dq_export_mode request) (dq_warehouse request) (query_tag request)
      = Inr (\<lparr>pg_statement_timeout_seconds = DATASET_STATEMENT_TIMEOUT_SECONDS,
               pg_result_row_cap = effective_limit manifest request,
               pg_result_byte_cap = DEFAULT_MAX_RESULT_BYTES, pg_query_tag = query_tag request\<rparr>, W)"
      by (simp only: W_def if_False)
    obtain plan where plan: "plan_dataset_query lc V manifest columns operators request = Inr plan"
      "qp_sql plan = sql" "qp_bindings plan = numbered (new @ [lim])"
      "pp_all_predicates_pushed_down (qp_pushdown plan)"
      "qp_guardrails plan =
         \<lparr>pg_statement_timeout_seconds = DATASET_STATEMENT_TIMEOUT_SECONDS,
          pg_result_row_cap = effective_limit manifest request,
          pg_result_byte_cap = DEFAULT_MAX_RESULT_BYTES, pg_query_tag = query_tag request\<rparr>"
      unfolding q g by simp
    show thesis
      by (rule planned [OF _ plan(1,2) p plan(3) [unfolded lim_def] plan(4,5)]) (use False in simp)
  qed
qed

section \<open>What a plan is\<close>

lemma planned_valid:
  assumes "plan_dataset_query lc V manifest columns operators request = Inr plan"
    and "set operators \<subseteq> set built_in_operator_catalog"
  shows "valid_request lc manifest columns operators request"
  using assms by (auto simp: plan_dataset_query_def valid_request_def Let_def split: if_splits)

text \<open>
  C11. A plan means its request. Whatever the names in the catalog, the values of the request and
  the meaning \<open>E\<close> of a comparison: the lexer of the guards reads the SQL of an accepted plan without a
  doubt as the projection, the object, the condition and the limit; with the bindings of the plan
  put for its placeholders from left to right, the condition has the value of the request, that is
  of its axis restrictions and of its predicate tree together; and the last binding is the limit.
\<close>

theorem plan_means_request:
  assumes "plan_dataset_query lc V manifest columns operators request = Inr plan"
    and "set operators \<subseteq> set built_in_operator_catalog"
  shows "let ms = request_meaning lc V manifest (sorted_dataset_columns (dm_id manifest) columns) E request
         in \<not> is_unreliable (lex (qp_sql plan))
            \<and> (\<exists>ts bs. map tok_view (significant (lex (qp_sql plan))) = text_tokens lc manifest columns request ms ts
                 \<and> qp_bindings plan = numbered bs \<and> bs \<noteq> []
                 \<and> last bs = typed_binding DtNumber (nat_str (effective_limit manifest request))
                 \<and> (if ms = [] then length bs = 1 else cond_and E bs 0 ts (all3 ms) (length bs - 1)))"
  using planned_valid [OF assms]
proof (cases rule: valid_request_plan [where V = V and E = E])
  case too_large
  with assms show ?thesis by simp
next
  case (planned plan' ps ts new)
  with assms(1) have plan: "plan' = plan" by simp
  have ok: "pieces_ok ps" using planned(4) by (simp add: frag_def)
  note lexed = pieces_view [OF ok] significant_of_pieces [OF ok]
  let ?bs = "new @ [typed_binding DtNumber (nat_str (effective_limit manifest request))]"
  show ?thesis
    unfolding Let_def
  proof (intro conjI exI [of _ ts] exI [of _ ?bs])
    show "\<not> is_unreliable (lex (qp_sql plan))" using lexed planned(3,5) plan by simp
    show "map tok_view (significant (lex (qp_sql plan))) = text_tokens lc manifest columns request
        (request_meaning lc V manifest (sorted_dataset_columns (dm_id manifest) columns) E request) ts"
      using lexed planned(3,5,6) plan by simp
    show "qp_bindings plan = numbered ?bs" using planned(8) plan by simp
    show "if request_meaning lc V manifest (sorted_dataset_columns (dm_id manifest) columns) E request = []
        then length ?bs = 1
        else cond_and E ?bs 0 ts (all3 (request_meaning lc V manifest (sorted_dataset_columns (dm_id manifest) columns) E request))
          (length ?bs - 1)"
      using planned(7) by (auto split: if_splits)
  qed simp_all
qed

text \<open>
  C12. A plan is one read, and its bindings are its placeholders': the SQL is a single select-like
  statement by the guards of the command line, whatever the identifiers, literals and values hold;
  it has as many placeholders as the plan has bindings, which are keyed from 1 on without a gap.
\<close>

theorem dataset_plan_is_one_read:
  assumes "plan_dataset_query lc V manifest columns operators request = Inr plan"
    and "set operators \<subseteq> set built_in_operator_catalog"
  shows "is_select_like (qp_sql plan) \<and> statement_count (lex (qp_sql plan)) = 1
         \<and> \<not> has_multiple_statements (qp_sql plan)
         \<and> placeholders (map tok_view (significant (lex (qp_sql plan)))) = length (qp_bindings plan)
         \<and> {i. map_of (qp_bindings plan) (nat_str i) \<noteq> None} = {1..length (qp_bindings plan)}"
  using planned_valid [OF assms]
proof (cases rule: valid_request_plan [where V = V and E = "\<lambda>_ _ _. None"])
  case too_large
  with assms show ?thesis by simp
next
  case (planned plan' ps ts new)
  define ms where "ms = request_meaning lc V manifest (sorted_dataset_columns (dm_id manifest) columns) (\<lambda>_ _ _. None) request"
  note planned = planned [folded ms_def]
  with assms(1) have plan: "plan' = plan" by simp
  have ok: "pieces_ok ps" using planned(4) by (simp add: frag_def)
  have c: "ms \<noteq> [] \<longrightarrow> cond_and (\<lambda>_ _ _. None) (new @ []) 0 ts (all3 ms) (length new)"
    using planned(7) by metis
  have "placeholders (text_tokens lc manifest columns request ms ts) = Suc (length new)"
  proof (cases "ms = []")
    case True
    with planned(7) show ?thesis by (simp add: text_tokens_def select_tokens_placeholders)
  next
    case False
    with c have "length new = 0 + placeholders ts" by (intro cond_placeholders(2)) simp
    with False show ?thesis by (simp add: text_tokens_def select_tokens_placeholders)
  qed
  then have ph: "placeholders (map tok_view (significant (lex (qp_sql plan)))) = Suc (length new)"
    using significant_of_pieces [OF ok] planned(3,5,6) plan by simp
  have keys: "{i. map_of (numbered bs) (nat_str i) \<noteq> None} = {1..length bs}" for bs
    by (auto simp: numbered_lookup)
  have len: "length (numbered bs) = length bs" for bs
  proof -
    have "length (numbered bs) = card {k. map_of (numbered bs) k \<noteq> None}"
      by (rule bt.length_entries [OF numbered_inv])
    also have "{k. map_of (numbered bs) k \<noteq> None} = nat_str ` {1..length bs}"
      using numbered_keys [of bs] by simp
    also have "card \<dots> = length bs" by (simp add: card_image inj_on_def nat_str_inj)
    finally show ?thesis .
  qed
  have "is_select_like (qp_sql plan) \<and> statement_count (lex (qp_sql plan)) = 1
      \<and> \<not> has_multiple_statements (qp_sql plan)"
    using valid_text_read [OF planned(4,6) c] planned(3,5) plan by simp
  with ph keys len planned(8) plan show ?thesis by simp
qed

section \<open>The sample is planned\<close>

lemma sample_cols:
  "sorted_dataset_columns ''ds'' sample_columns
     = [sample_column ''ID'' 1 DtNumber, sample_column (''N'' @ [CHR 0x22] @ ''M'') 2 DtString,
        sample_column ''TS'' 3 DtTimestamp]"
  by (simp add: sorted_dataset_columns_def sample_columns_def sample_column_def)

lemma sample_valid: "valid_request id sample_manifest sample_columns built_in_operator_catalog sample_request"
proof -
  have ids: "dm_id sample_manifest = ''ds''" "dq_dataset_id sample_request = ''ds''" "dq_select sample_request = []"
    "dq_filter sample_request = Some sample_filter"
    by (simp_all add: sample_manifest_def sample_request_def)
  let ?cols = "[sample_column ''ID'' 1 DtNumber, sample_column (''N'' @ [CHR 0x22] @ ''M'') 2 DtString,
        sample_column ''TS'' 3 DtTimestamp]"
  have "snd (resolve_projection id sample_manifest ?cols sample_request) = []"
    by (simp add: resolve_projection_def ids Let_def)
  moreover have "validate_axes id sample_manifest ?cols sample_request = []" by code_simp
  moreover have "validate_node id sample_filter ?cols built_in_operator_catalog = []" by code_simp
  moreover have "enforce_interactive_row_policy
       (case dq_limit sample_request of None \<Rightarrow> dm_default_limit sample_manifest | Some l \<Rightarrow> l)
       (dm_max_rows_without_export sample_manifest) (dq_export_mode sample_request)
       (dq_confirmation_token sample_request) = []"
    by (simp add: enforce_interactive_row_policy_def sample_request_def sample_manifest_def
        DEFAULT_MAX_RESULT_ROWS_def)
  ultimately show ?thesis
    by (simp add: valid_request_def ids sample_cols request_refusals_def validate_predicate_def)
qed

lemma sample_text_fits:
  "length (dataset_text id sample_values sample_manifest sample_columns sample_request) \<le> DEFAULT_MAX_STATEMENT_BYTES"
proof -
  let ?t = "dataset_text id sample_values sample_manifest sample_columns sample_request"
  have "drop 400 ?t = []"
    by code_simp
  then have "length ?t \<le> 400" by simp
  then show ?thesis by (simp add: DEFAULT_MAX_STATEMENT_BYTES_def)
qed

lemma sample_planned:
  obtains plan where
    "plan_dataset_query id sample_values sample_manifest sample_columns built_in_operator_catalog sample_request = Inr plan"
  using sample_valid
proof (cases rule: valid_request_plan [where V = sample_values and E = "\<lambda>_ _ _. None"])
  case too_large
  with sample_text_fits show ?thesis by simp
qed (use that in blast)

lemma sample_meaning_nonempty:
  "request_meaning id sample_values sample_manifest (sorted_dataset_columns (dm_id sample_manifest) sample_columns)
     E sample_request \<noteq> []"
  by (simp add: request_meaning_def sample_request_def sample_filter_def sample_leaf_def some_of_def
      option_list_def)

theorem plan_means_request_witness:
  "\<exists>plan ts bs v. plan_dataset_query id sample_values sample_manifest sample_columns
        built_in_operator_catalog sample_request = Inr plan
      \<and> qp_bindings plan = numbered bs \<and> cond_and (\<lambda>_ _ _. Some True) bs 0 ts v (length bs - 1)"
proof -
  obtain plan where plan: "plan_dataset_query id sample_values sample_manifest sample_columns
      built_in_operator_catalog sample_request = Inr plan" by (rule sample_planned)
  from plan_means_request [OF plan subset_refl, of "\<lambda>_ _ _. Some True"] sample_meaning_nonempty plan
  show ?thesis unfolding Let_def by (simp only: if_False) blast
qed

theorem dataset_plan_is_one_read_witness:
  "\<exists>plan. plan_dataset_query id sample_values sample_manifest sample_columns
        built_in_operator_catalog sample_request = Inr plan \<and> is_select_like (qp_sql plan)"
proof -
  obtain plan where plan: "plan_dataset_query id sample_values sample_manifest sample_columns
      built_in_operator_catalog sample_request = Inr plan" by (rule sample_planned)
  from dataset_plan_is_one_read [OF plan subset_refl] plan show ?thesis by blast
qed



section \<open>Values stay out of the text\<close>

text \<open>The request with every value emptied: only how many there are is kept.\<close>

definition blank_value :: "'n JsonValue option \<Rightarrow> 'n JsonValue option" where
  "blank_value v = (if v = None then None else Some (JArray (replicate (value_count v) (JString []))))"

primrec blank_predicate :: "'n PredicateAst \<Rightarrow> 'n PredicateAst" where
  "blank_predicate (Leaf leaf) = Leaf (leaf\<lparr>leaf_value := blank_value (leaf_value leaf)\<rparr>)"
| "blank_predicate (Compound ands ors neg) =
     Compound (map blank_predicate ands) (map blank_predicate ors) (map_option blank_predicate neg)"

definition blank_request :: "'n DatasetQueryRequest \<Rightarrow> 'n DatasetQueryRequest" where
  "blank_request request = request
     \<lparr>dq_entity := map_option (\<lambda>_. []) (dq_entity request), dq_from := map_option (\<lambda>_. []) (dq_from request),
      dq_to := map_option (\<lambda>_. []) (dq_to request),
      dq_filter := map_option blank_predicate (dq_filter request), dq_limit := Some 0\<rparr>"

lemma blank_count [simp]: "value_count (blank_value v) = value_count v"
  by (cases v) (simp_all add: blank_value_def)

lemma push_binding_fst [simp]: "fst (push_binding dtype v st) = ''?''"
  by (simp add: push_binding_def)

lemma bind_all_fst: "fst (bind_all dtype vs st) = replicate (length vs) ''?''"
  by (induction vs arbitrary: st) (simp_all add: Let_def split_def)

lemma compile_operator_text:
  "length vs = length ws \<Longrightarrow>
     map_option fst (compile_operator operator i dtype vs st) = map_option fst (compile_operator operator i dtype ws st')"
  by (simp add: compile_operator_def Let_def split_def bind_all_fst split: option.split)

lemma compile_leaf_text:
  "map_sum id fst (compile_leaf lc V leaf columns st)
     = map_sum id fst (compile_leaf lc V (leaf\<lparr>leaf_value := blank_value (leaf_value leaf)\<rparr>) columns st')"
proof -
  have "length (value_strings V (leaf_value leaf)) = length (value_strings V (blank_value (leaf_value leaf)))"
    by (simp add: length_value_strings)
  note e = compile_operator_text [OF this]
  show ?thesis
  proof (cases "find_column_in_refs lc (leaf_column leaf) columns")
    case (Some c)
    let ?op = "\<lambda>v. compile_operator (leaf_op leaf) (quote_identifier (col_column c)) (col_dtype_class c) (value_strings V v)"
    from e [of "leaf_op leaf" "quote_identifier (col_column c)" "col_dtype_class c" st st'] show ?thesis
      by (cases "?op (leaf_value leaf) st"; cases "?op (blank_value (leaf_value leaf)) st'")
        (auto simp: compile_leaf_def Some)
  qed (simp add: compile_leaf_def)
qed

text \<open>Two compilations that agree on the text, whatever bindings they start from.\<close>

definition same_text :: "('a + 'b \<times> Binds) \<Rightarrow> ('a + 'b \<times> Binds) \<Rightarrow> bool" where
  "same_text r r' \<longleftrightarrow> map_sum id fst r = map_sum id fst r'"

lemma same_text_cases:
  assumes "same_text r r'"
  obtains (err) e where "r = Inl e" "r' = Inl e" | (ok) c st st' where "r = Inr (c, st)" "r' = Inr (c, st')"
  using assms by (cases r; cases r') (auto simp: same_text_def)

lemma compile_loop_text:
  "(\<And>p st st'. p \<in> set ps \<Longrightarrow>
       same_text (compile_predicate lc V columns p st) (compile_predicate lc V columns (blank_predicate p) st')) \<Longrightarrow>
     same_text (compile_loop lc V columns ps st) (compile_loop lc V columns (map blank_predicate ps) st')"
proof (induction ps arbitrary: st st')
  case (Cons p ps)
  have "same_text (compile_predicate lc V columns p st) (compile_predicate lc V columns (blank_predicate p) st')"
    using Cons.prems by simp
  then show ?case
  proof (cases rule: same_text_cases)
    case (ok c st1 st1')
    have "same_text (compile_loop lc V columns ps st1) (compile_loop lc V columns (map blank_predicate ps) st1')"
      using Cons.prems by (intro Cons.IH) simp
    then show ?thesis by (cases rule: same_text_cases) (simp_all add: ok same_text_def)
  qed (simp add: same_text_def)
qed (simp add: same_text_def)

lemma compile_predicate_text:
  "same_text (compile_predicate lc V columns p st) (compile_predicate lc V columns (blank_predicate p) st')"
proof (induction p arbitrary: st st')
  case (Leaf leaf)
  from compile_leaf_text [of lc V leaf columns st st']
  have "same_text (compile_leaf lc V leaf columns st)
      (compile_leaf lc V (leaf\<lparr>leaf_value := blank_value (leaf_value leaf)\<rparr>) columns st')"
    by (simp add: same_text_def)
  then show ?case by (cases rule: same_text_cases) (simp_all add: same_text_def)
next
  case (Compound ands ors neg)
  have "same_text (compile_loop lc V columns ands st) (compile_loop lc V columns (map blank_predicate ands) st')"
    using Compound.IH(1) by (rule compile_loop_text)
  then show ?case
  proof (cases rule: same_text_cases)
    case (ok cs st1 st1')
    have "same_text (compile_loop lc V columns ors st1) (compile_loop lc V columns (map blank_predicate ors) st1')"
      using Compound.IH(2) by (rule compile_loop_text)
    then show ?thesis
    proof (cases rule: same_text_cases)
      case (ok ds st2 st2')
      note loops = ok \<open>compile_loop lc V columns ands st = _\<close> \<open>compile_loop lc V columns (map blank_predicate ands) st' = _\<close>
      show ?thesis
      proof (cases neg)
        case (Some p)
        have "same_text (compile_predicate lc V columns p st2) (compile_predicate lc V columns (blank_predicate p) st2')"
          using Compound.IH(3) Some by simp
        then show ?thesis by (cases rule: same_text_cases) (simp_all add: loops Some same_text_def)
      qed (simp add: loops same_text_def)
    qed (simp add: ok same_text_def)
  qed (simp add: same_text_def)
qed

lemma axis_clause_text:
  "fst (axis_clause operator v column st) =
     (if v = None then [] else
        case column of None \<Rightarrow> [] | Some c \<Rightarrow> [quote_identifier (col_column c) @ operator @ ''?''])"
  by (simp add: axis_clause_def split_def Let_def split: option.split)

lemma blank_text: "dataset_text lc V manifest columns (blank_request request) = dataset_text lc V manifest columns request"
proof -
  have p: "resolve_projection lc manifest cols (blank_request request) = resolve_projection lc manifest cols request" for cols
    by (simp add: resolve_projection_def blank_request_def)
  have a: "fst (add_axis_filters lc manifest cols (blank_request request) st) = fst (add_axis_filters lc manifest cols request st')" for cols st st'
    by (simp add: add_axis_filters_def blank_request_def split_def Let_def axis_clause_text)
  have c: "(case compile_predicate lc V cols (blank_predicate f) st of Inl _ \<Rightarrow> None | Inr (c, _) \<Rightarrow> c)
      = (case compile_predicate lc V cols f st' of Inl _ \<Rightarrow> None | Inr (c, _) \<Rightarrow> c)" for cols f st st'
    using compile_predicate_text [of lc V cols f st' st] by (cases rule: same_text_cases) simp_all
  have f: "dq_filter (blank_request request) = map_option blank_predicate (dq_filter request)"
    "dq_as_of (blank_request request) = dq_as_of request"
    by (simp_all add: blank_request_def)
  let ?cols = "sorted_dataset_columns (dm_id manifest) columns"
  note start = a [of ?cols "([], 1)" "([], 1)"]
  show ?thesis
  proof (cases "dq_filter request")
    case None
    then show ?thesis unfolding dataset_text_def Let_def split_def p f start by simp
  next
    case (Some q)
    note compiled = c [of ?cols q "snd (add_axis_filters lc manifest ?cols (blank_request request) ([], 1))"
        "snd (add_axis_filters lc manifest ?cols request ([], 1))", unfolded split_def]
    show ?thesis
      unfolding dataset_text_def Let_def split_def p f start Some option.map option.case compiled by (rule refl)
  qed
qed

lemma blank_leaves: "leaves (blank_predicate p) = map (\<lambda>leaf. leaf\<lparr>leaf_value := blank_value (leaf_value leaf)\<rparr>) (leaves p)"
proof (induction p)
  case (Compound ands ors neg)
  have m: "concat (map (\<lambda>x. leaves (blank_predicate x)) ps)
      = concat (map (\<lambda>x. map (\<lambda>leaf. leaf\<lparr>leaf_value := blank_value (leaf_value leaf)\<rparr>) (leaves x)) ps)"
    if "\<And>p. p \<in> set ps \<Longrightarrow> leaves (blank_predicate p)
      = map (\<lambda>leaf. leaf\<lparr>leaf_value := blank_value (leaf_value leaf)\<rparr>) (leaves p)" for ps
    using that by (induction ps) auto
  from m [of ands] m [of ors] Compound show ?case
    by (cases neg) (simp_all add: comp_def map_concat)
qed simp

lemma blank_valid:
  fixes request :: "'n DatasetQueryRequest"
  assumes "valid_request lc manifest columns operators request"
  shows "valid_request lc manifest columns operators (blank_request request)"
proof -
  define cols where "cols = sorted_dataset_columns (dm_id manifest) columns"
  have fields: "dq_select (blank_request request) = dq_select request"
    "dq_dataset_id (blank_request request) = dq_dataset_id request"
    "(dq_entity (blank_request request) = None) = (dq_entity request = None)"
    "(dq_from (blank_request request) = None) = (dq_from request = None)"
    "(dq_to (blank_request request) = None) = (dq_to request = None)"
    "dq_as_of (blank_request request) = dq_as_of request"
    "dq_limit (blank_request request) = Some 0"
    "dq_filter (blank_request request) = map_option blank_predicate (dq_filter request)"
    by (simp_all add: blank_request_def)
  have "validate_leaf lc (leaf\<lparr>leaf_value := blank_value (leaf_value leaf)\<rparr>) cols operators
      = validate_leaf lc leaf cols operators" for leaf :: "'n LeafPredicate"
    by (simp add: validate_leaf_def Let_def split: option.split)
  then have "validate_node lc (blank_predicate p) cols operators = validate_node lc p cols operators" for p :: "'n PredicateAst"
    by (simp add: validate_node_leaves blank_leaves comp_def)
  then have v: "validate_predicate lc (blank_predicate p) cols operators = validate_predicate lc p cols operators" for p :: "'n PredicateAst"
    by (simp add: validate_predicate_def)
  have "resolve_projection lc manifest cols (blank_request request) = resolve_projection lc manifest cols request"
    "validate_axes lc manifest cols (blank_request request) = validate_axes lc manifest cols request"
    by (simp_all only: resolve_projection_def validate_axes_def fields)
  with assms v show ?thesis
    unfolding valid_request_def request_refusals_def fields cols_def [symmetric]
    by (cases "dq_filter request") (simp_all add: enforce_interactive_row_policy_def)
qed

text \<open>
  C13. Values stay out of the text. Emptying every value of a request (the axis values, the values
  of the predicate's leaves, the limit), with only the number of values of each leaf kept, gives a
  request that is planned as well, with the same SQL: whatever a caller passes as data reaches
  Snowflake as bindings and nowhere else.
\<close>

theorem values_stay_out_of_text:
  assumes "plan_dataset_query lc V manifest columns operators request = Inr plan"
    and "set operators \<subseteq> set built_in_operator_catalog"
  shows "\<exists>plan'. plan_dataset_query lc V manifest columns operators (blank_request request) = Inr plan'
           \<and> qp_sql plan' = qp_sql plan"
proof -
  note valid = planned_valid [OF assms]
  from valid have "qp_sql plan = dataset_text lc V manifest columns request
      \<and> length (dataset_text lc V manifest columns request) \<le> DEFAULT_MAX_STATEMENT_BYTES"
    by (cases rule: valid_request_plan [where V = V and E = "\<lambda>_ _ _. None"]) (use assms in auto)
  note planned = this blank_text [of lc V manifest columns request]
  from blank_valid [OF valid] show ?thesis
    by (cases rule: valid_request_plan [where V = V and E = "\<lambda>_ _ _. None"]) (use planned in auto)
qed

theorem values_stay_out_of_text_witness:
  "\<exists>plan plan'. plan_dataset_query id sample_values sample_manifest sample_columns
        built_in_operator_catalog sample_request = Inr plan
      \<and> plan_dataset_query id sample_values sample_manifest sample_columns
        built_in_operator_catalog (blank_request sample_request) = Inr plan' \<and> qp_sql plan' = qp_sql plan"
proof -
  obtain plan where plan: "plan_dataset_query id sample_values sample_manifest sample_columns
      built_in_operator_catalog sample_request = Inr plan" by (rule sample_planned)
  from values_stay_out_of_text [OF plan subset_refl] plan show ?thesis by blast
qed

section \<open>Rows\<close>

text \<open>
  The row policy. A planned request asks for at most as many rows as the dataset allows without
  an export, unless it is an export; without a confirmation it asks for at most the default cap as
  well; and the guard's row cap is the limit that is bound.
\<close>

theorem planned_rows_are_bounded:
  assumes "plan_dataset_query lc V manifest columns operators request = Inr plan"
  shows "pg_result_row_cap (qp_guardrails plan) = effective_limit manifest request
         \<and> (dq_export_mode request \<or> effective_limit manifest request \<le> dm_max_rows_without_export manifest)
         \<and> (dq_export_mode request \<or> dq_confirmation_token request \<noteq> None
             \<or> effective_limit manifest request \<le> 10000)"
proof -
  define cols where "cols = sorted_dataset_columns (dm_id manifest) columns"
  from assms have none: "request_refusals lc manifest cols operators request = []"
    by (auto simp: plan_dataset_query_def Let_def cols_def split: if_splits)
  then have "enforce_interactive_row_policy (effective_limit manifest request) (dm_max_rows_without_export manifest)
      (dq_export_mode request) (dq_confirmation_token request) = []"
    by (simp add: request_refusals_def effective_limit_def)
  moreover from assms obtain sql warnings where
    "planner_guardrails sql (effective_limit manifest request) (dq_export_mode request) (dq_warehouse request)
       (query_tag request) = Inr (qp_guardrails plan, warnings)"
    by (auto simp: plan_dataset_query_def Let_def effective_limit_def split: if_splits sum.splits prod.splits)
  then have "pg_result_row_cap (qp_guardrails plan) = effective_limit manifest request"
    by (rule planner_guardrails_cap)
  ultimately show ?thesis
    by (auto simp: enforce_interactive_row_policy_def DEFAULT_MAX_RESULT_ROWS_def split: if_splits)
qed

theorem planned_rows_are_bounded_witness:
  "\<exists>plan. plan_dataset_query id sample_values sample_manifest sample_columns
        built_in_operator_catalog sample_request = Inr plan \<and> pg_result_row_cap (qp_guardrails plan) = 10"
proof -
  obtain plan where plan: "plan_dataset_query id sample_values sample_manifest sample_columns
      built_in_operator_catalog sample_request = Inr plan" by (rule sample_planned)
  have "effective_limit sample_manifest sample_request = 10"
    by (simp add: effective_limit_def sample_request_def)
  with planned_rows_are_bounded [OF plan] plan show ?thesis by auto
qed

section \<open>Surprises\<close>

text \<open>
  A filter that parses to the empty compound is dropped: the request is planned with the text
  of the unfiltered one, and the plan still reports that every predicate was pushed down. The
  deserialised form of a mistyped leaf is such a compound.
\<close>

theorem empty_filter_is_dropped:
  "request_refusals lc manifest cols operators (request\<lparr>dq_filter := Some (Compound [] [] None)\<rparr>)
     = request_refusals lc manifest cols operators (request\<lparr>dq_filter := None\<rparr>)
   \<and> compile_predicate lc V cols (Compound [] [] None) st = Inr (None, st)
   \<and> dataset_text lc V manifest columns (request\<lparr>dq_filter := Some (Compound [] [] None)\<rparr>)
     = dataset_text lc V manifest columns (request\<lparr>dq_filter := None\<rparr>)"
proof -
  have e: "compile_predicate lc V cols (Compound [] [] None) st = Inr (None, st)" for cols st
    by (simp add: group_compiled_def join_parts_def option_list_def)
  then show ?thesis
    by (simp add: request_refusals_def validate_predicate_def resolve_projection_def validate_axes_def
        dataset_text_def add_axis_filters_def option_list_def Let_def split_def del: compile_predicate.simps)
qed

text \<open>
  An exact name can be shadowed: identifiers are compared with underscores, hyphens and case
  taken away, and the first match wins, so in a dataset with the columns \<open>A_B\<close> and \<open>AB\<close> a request for
  \<open>AB\<close> selects \<open>A_B\<close>.
\<close>

theorem exact_column_is_shadowed:
  "map col_column (fst (resolve_projection lc manifest
       [sample_column ''A_B'' 1 DtNumber, sample_column ''AB'' 2 DtNumber]
       (sample_request\<lparr>dq_select := [''AB'']\<rparr>))) = [''A_B'']"
proof -
  have "str_chars ''AB'' = [''A'', ''B'']" "str_chars ''A_B'' = [''A'', ''_'', ''B'']"
    "to_lower CHR ''A'' = CHR ''a''" "to_lower CHR ''B'' = CHR ''b''" by code_simp+
  then have "normalize_identifier lc ''AB'' = ''ab''" "normalize_identifier lc ''A_B'' = ''ab''"
    by (simp_all add: normalize_identifier_def char_is_whitespace_def char_to_lowercase_def ws1_def)
  then show ?thesis
    by (simp add: resolve_projection_def find_column_in_refs_def List.map_filter_simps sample_column_def)
qed

end
