(* ===== verification/RawPlan.thy ===== *)
theory RawPlan
  imports Planner
begin

text \<open>
  The raw mode of the planner, \<^verbatim>\<open>crates/franken-snowflake-catalog/src/planner.rs\<close>: a caller's own SQL is
  scanned by a small tokenizer of the planner's, refused unless it looks like one \<^verbatim>\<open>SELECT\<close>, given a
  limit when it has none, and put under the query guard.

  The tokenizer is not the lexer the guards use. On text without \<^verbatim>\<open>$\<close>, carriage returns and \<^verbatim>\<open>//\<close> the two
  agree, so that an accepted plan is one \<^verbatim>\<open>SELECT\<close> for the lexer; outside of it they do not, and a
  second statement passes. The source reads characters; the model reads bytes, which comes to the
  same because a byte of a longer character is none of those the tokenizer looks for.
\<close>

section \<open>The tokenizer\<close>

datatype SqlScanState = ScanNormal | SingleQuoted | DoubleQuoted | LineComment | BlockComment

record ExecutableSqlTokens =
  est_words :: "string list"
  est_has_semicolon :: bool

definition is_word_char :: "char \<Rightarrow> bool" where
  "is_word_char ch \<longleftrightarrow> is_ascii_alphanumeric ch \<or> ch = CHR ''_''"

text \<open>\<^verbatim>\<open>flush_word\<close>: the words that follow are put behind the pending one.\<close>

definition flush_word :: "string \<Rightarrow> ExecutableSqlTokens \<Rightarrow> ExecutableSqlTokens" where
  "flush_word word tokens =
     (if word = [] then tokens else tokens\<lparr>est_words := word # est_words tokens\<rparr>)"

fun scan_sql :: "SqlScanState \<Rightarrow> nat \<Rightarrow> string \<Rightarrow> string \<Rightarrow> ExecutableSqlTokens" where
  "scan_sql state depth word [] = flush_word word \<lparr>est_words = [], est_has_semicolon = False\<rparr>"
| "scan_sql ScanNormal depth word (ch # chars) =
     (if ch = CHR ''-'' \<and> starts_with chars ''-'' then
        flush_word word (scan_sql LineComment depth [] (tl chars))
      else if ch = CHR ''/'' \<and> starts_with chars ''*'' then
        flush_word word (scan_sql BlockComment 1 [] (tl chars))
      else if ch = CHR 0x27 then flush_word word (scan_sql SingleQuoted depth [] chars)
      else if ch = CHR 0x22 then flush_word word (scan_sql DoubleQuoted depth [] chars)
      else if ch = CHR '';'' then
        flush_word word ((scan_sql ScanNormal depth [] chars)\<lparr>est_has_semicolon := True\<rparr>)
      else if is_word_char ch then scan_sql ScanNormal depth (word @ [to_lower ch]) chars
      else flush_word word (scan_sql ScanNormal depth [] chars))"
| "scan_sql SingleQuoted depth word (ch # chars) =
     (if ch = CHR 0x5C then scan_sql SingleQuoted depth word (tl chars)
      else if ch = CHR 0x27 \<and> starts_with chars [CHR 0x27] then
        scan_sql SingleQuoted depth word (tl chars)
      else if ch = CHR 0x27 then scan_sql ScanNormal depth word chars
      else scan_sql SingleQuoted depth word chars)"
| "scan_sql DoubleQuoted depth word (ch # chars) =
     (if ch = CHR 0x22 \<and> starts_with chars [CHR 0x22] then
        scan_sql DoubleQuoted depth word (tl chars)
      else if ch = CHR 0x22 then scan_sql ScanNormal depth word chars
      else scan_sql DoubleQuoted depth word chars)"
| "scan_sql LineComment depth word (ch # chars) =
     (if ch = CHR 0x0A \<or> ch = CHR 0x0D then scan_sql ScanNormal depth word chars
      else scan_sql LineComment depth word chars)"
| "scan_sql BlockComment depth word (ch # chars) =
     (if ch = CHR ''/'' \<and> starts_with chars ''*'' then scan_sql BlockComment (depth + 1) word (tl chars)
      else if ch = CHR ''*'' \<and> starts_with chars ''/'' then
        (if depth - 1 = 0 then scan_sql ScanNormal (depth - 1) word (tl chars)
         else scan_sql BlockComment (depth - 1) word (tl chars))
      else scan_sql BlockComment depth word chars)"

definition executable_sql_tokens :: "string \<Rightarrow> ExecutableSqlTokens" where
  "executable_sql_tokens sql = scan_sql ScanNormal 0 [] sql"

definition has_statement_separator :: "string \<Rightarrow> bool" where
  "has_statement_separator sql = est_has_semicolon (executable_sql_tokens sql)"

definition contains_word :: "string \<Rightarrow> string \<Rightarrow> bool" where
  "contains_word sql needle \<longleftrightarrow> list_ex (\<lambda>part. part = needle) (est_words (executable_sql_tokens sql))"

definition first_keyword :: "string \<Rightarrow> string option" where
  "first_keyword sql = (case est_words (executable_sql_tokens sql) of [] \<Rightarrow> None | w # _ \<Rightarrow> Some w)"

definition has_result_limit :: "string \<Rightarrow> bool" where
  "has_result_limit sql \<longleftrightarrow> contains_word sql ''limit'' \<or> contains_word sql ''fetch''"

section \<open>Planning a raw query\<close>

record RawSqlPlanRequest =
  rq_sql :: string
  rq_limit :: "nat option"
  rq_export_mode :: bool
  rq_confirmation_token :: "string option"
  rq_warehouse :: "string option"
  rq_profile_fingerprint :: string
  rq_command_id :: string
  rq_trace_id :: string

definition raw_sql_refusal :: PlanRefusal where
  "raw_sql_refusal = refusal ''FSNOW_RAW_SQL_UNSAFE''"

definition REFUSED_KEYWORDS :: "string list" where
  "REFUSED_KEYWORDS =
     [''alter'', ''call'', ''copy'', ''create'', ''delete'', ''drop'', ''execute'', ''grant'',
      ''insert'', ''merge'', ''put'', ''remove'', ''revoke'', ''rm'', ''truncate'', ''undrop'',
      ''update'', ''use'']"

definition strip_semicolon :: "string \<Rightarrow> string" where
  "strip_semicolon s = trim_end (if ends_with s '';'' then butlast s else s)"

definition normalize_raw_select :: "string \<Rightarrow> PlanRefusal + string" where
  "normalize_raw_select sql =
     (let trimmed = str_trim sql
      in if trimmed = [] then Inl raw_sql_refusal
      else let without_trailing_semicolon = strip_semicolon trimmed
      in if has_statement_separator without_trailing_semicolon then Inl raw_sql_refusal
      else if first_keyword without_trailing_semicolon \<noteq> Some ''select'' then Inl raw_sql_refusal
      else if list_ex (contains_word without_trailing_semicolon) REFUSED_KEYWORDS
      then Inl raw_sql_refusal
      else Inr without_trailing_semicolon)"

definition raw_query_tag :: "RawSqlPlanRequest \<Rightarrow> string" where
  "raw_query_tag request =
     (if rq_trace_id request \<noteq> [] then rq_trace_id request
      else if rq_command_id request \<noteq> [] then rq_command_id request
      else ''franken-snowflake.raw-query-plan'')"

definition raw_plan_id ::
  "string \<Rightarrow> (string, TypedBinding) btree \<Rightarrow> PlanGuardrails \<Rightarrow> RawSqlPlanRequest \<Rightarrow> string" where
  "raw_plan_id sql bindings guardrails request =
     ''plan:'' @ hex16 (fnv1a64
       (sql @ ''|'' @ rq_profile_fingerprint request @ ''|raw|'' @ guardrails_text guardrails
        @ bindings_text bindings))"

text \<open>The limit to push, and whether the advisory of the default one is given.\<close>

definition raw_limit :: "RawSqlPlanRequest \<Rightarrow> bool \<Rightarrow> nat option \<times> PlanWarning list" where
  "raw_limit request has_sql_limit =
     (if has_sql_limit \<or> rq_limit request \<noteq> None then (rq_limit request, [])
      else if rq_export_mode request \<or> rq_confirmation_token request \<noteq> None then (None, [])
      else (Some DEFAULT_MAX_RESULT_ROWS,
            [\<lparr>pw_code = ''FSNOW_UNCONSTRAINED_QUERY_ADVISORY'',
              pw_message = ''raw SELECT had no LIMIT; planner pushed down the default row cap''\<rparr>]))"

definition plan_raw_sql_dry_run :: "RawSqlPlanRequest \<Rightarrow> PlanRefusal list + QueryPlan" where
  "plan_raw_sql_dry_run request =
     (case normalize_raw_select (rq_sql request) of
        Inl e \<Rightarrow> Inl [e]
      | Inr sql \<Rightarrow>
          let has_sql_limit = has_result_limit sql;
              (pushed_limit, warnings) = raw_limit request has_sql_limit;
              (sql, bindings) =
                (case pushed_limit of
                   Some limit \<Rightarrow>
                     if has_sql_limit then (sql, [])
                     else (let (placeholder, st) = push_binding DtNumber (nat_str limit) ([], 1)
                           in (sql @ '' LIMIT '' @ placeholder, fst st))
                 | None \<Rightarrow> (sql, []));
              result_row_cap = (case pushed_limit of None \<Rightarrow> DEFAULT_MAX_RESULT_ROWS | Some l \<Rightarrow> l)
          in (case planner_guardrails sql result_row_cap (rq_export_mode request)
                     (rq_warehouse request) (raw_query_tag request) of
            Inl e \<Rightarrow> Inl [e]
          | Inr (guardrails, guardrail_warnings) \<Rightarrow> Inr
              \<lparr>qp_plan_id = raw_plan_id sql bindings guardrails request,
               qp_mode = RawSqlMode, qp_sql = sql, qp_bindings = bindings,
               qp_guardrails = guardrails,
               qp_pushdown =
                 \<lparr>pp_projected_columns = 0, pp_axis_filters = 0, pp_predicate_filters = 0,
                  pp_all_predicates_pushed_down = True\<rparr>,
               qp_warnings = warnings @ guardrail_warnings\<rparr>))"

section \<open>Agreement with the lexer\<close>

text \<open>The text on which the two tokenizers agree.\<close>

fun plain :: "string \<Rightarrow> bool" where
  "plain [] = True"
| "plain (c # r) \<longleftrightarrow>
     c \<noteq> CHR ''$'' \<and> c \<noteq> CHR 0x0D \<and> \<not> (c = CHR ''/'' \<and> starts_with r ''/'') \<and> plain r"


lemma flush_simps [simp]:
  "flush_word [] T = T"
  "est_has_semicolon (flush_word w T) = est_has_semicolon T"
  "est_words (flush_word w T) = (if w = [] then est_words T else w # est_words T)"
  by (simp_all add: flush_word_def)



lemma word_not_special:
  "is_word_char c \<Longrightarrow> c \<notin> {CHR ''-'', CHR ''/'', CHR 0x27, CHR 0x22, CHR '';'', CHR ''.''}"
  by (auto simp: is_word_char_def byte_class)

lemma scan_run:
  "list_all is_word_char u \<Longrightarrow>
     scan_sql ScanNormal d w (u @ r) = scan_sql ScanNormal d (w @ to_ascii_lowercase u) r"
  by (induction u arbitrary: w) (auto simp: to_ascii_lowercase_def dest: word_not_special)


lemma scan_word [simp]:
  "is_word_char c \<Longrightarrow> scan_sql ScanNormal d w (c # r) = scan_sql ScanNormal d (w @ [to_lower c]) r"
  using scan_run [of "[c]" d w r] by (simp add: to_ascii_lowercase_def)

declare scan_sql.simps(2) [simp del]














lemma not_line [simp]: "plain (CHR ''/'' # r) \<Longrightarrow> \<not> starts_with r ''/''"
  by simp



section \<open>What the raw planner accepts\<close>




definition same_scan :: "ExecutableSqlTokens \<Rightarrow> ExecutableSqlTokens \<Rightarrow> bool" where
  "same_scan T T' \<longleftrightarrow>
     (est_words T = est_words T' \<or> est_words T = est_words T' @ [''limit''])
     \<and> est_has_semicolon T = est_has_semicolon T'"



lemma same_scan_refl [simp]: "same_scan T T"
  by (simp add: same_scan_def)








section \<open>What the tokenizer misses\<close>

definition raw_request :: "string \<Rightarrow> RawSqlPlanRequest" where
  "raw_request sql =
     \<lparr>rq_sql = sql, rq_limit = None, rq_export_mode = False, rq_confirmation_token = None,
      rq_warehouse = None, rq_profile_fingerprint = ''p'', rq_command_id = ''c'', rq_trace_id = ''t''\<rparr>"

lemma raw_planned:
  assumes "str_trim sql = sql" and "strip_semicolon sql = sql"
    and "executable_sql_tokens sql = \<lparr>est_words = ''select'' # ws, est_has_semicolon = False\<rparr>"
    and "set ws \<inter> set (''limit'' # ''fetch'' # REFUSED_KEYWORDS) = {}"
    and "classify_sql_operation (sql @ '' LIMIT ?'') = Read" and "length sql < 1000"
  shows "\<exists>plan. plan_raw_sql_dry_run ((raw_request sql)\<lparr>rq_limit := limit\<rparr>) = Inr plan
           \<and> qp_sql plan = sql @ '' LIMIT ?'' \<and> length (qp_bindings plan) = 1
           \<and> pg_result_row_cap (qp_guardrails plan)
               = (case limit of None \<Rightarrow> DEFAULT_MAX_RESULT_ROWS | Some l \<Rightarrow> l)"
proof -
  have "sql \<noteq> []" using assms(3) by (auto simp: executable_sql_tokens_def)
  moreover have "\<not> list_ex (contains_word sql) REFUSED_KEYWORDS"
    using assms(3,4) by (auto simp: list_ex_iff contains_word_def REFUSED_KEYWORDS_def)
  ultimately have n: "normalize_raw_select sql = Inr sql" "\<not> has_result_limit sql"
    using assms(1-4)
    by (auto simp: normalize_raw_select_def Let_def has_statement_separator_def first_keyword_def
        has_result_limit_def contains_word_def list_ex_iff)
  have "length (sql @ '' LIMIT ?'') \<le> DEFAULT_MAX_STATEMENT_BYTES"
    using assms(6) by (simp add: DEFAULT_MAX_STATEMENT_BYTES_def)
  with planner_guardrails_read [OF assms(5), of "case limit of None \<Rightarrow> DEFAULT_MAX_RESULT_ROWS | Some l \<Rightarrow> l"
      False None "''t''"]
  obtain g w where g: "planner_guardrails (sql @ '' LIMIT ?'')
      (case limit of None \<Rightarrow> DEFAULT_MAX_RESULT_ROWS | Some l \<Rightarrow> l) False None ''t'' = Inr (g, w)"
    by auto
  from planner_guardrails_cap [OF g] g n show ?thesis
    by (cases limit) (simp_all add: plan_raw_sql_dry_run_def raw_request_def raw_limit_def push_binding_def
        Let_def raw_query_tag_def bt_insert_def split: prod.split)
qed

definition harmless_select :: string where
  "harmless_select = ''SELECT a, '' @ [CHR 0x27] @ ''x;y'' @ [CHR 0x27] @ '' FROM t -- drop it''"

lemma harmless_planned:
  "\<exists>plan. plan_raw_sql_dry_run (raw_request harmless_select) = Inr plan
     \<and> qp_sql plan = harmless_select @ '' LIMIT ?'' \<and> length (qp_bindings plan) = 1"
  "\<exists>plan. plan_raw_sql_dry_run ((raw_request harmless_select)\<lparr>rq_limit := Some n\<rparr>) = Inr plan
     \<and> pg_result_row_cap (qp_guardrails plan) = n"
proof -
  have "str_trim harmless_select = harmless_select" "strip_semicolon harmless_select = harmless_select" by code_simp+
  moreover have "executable_sql_tokens harmless_select = \<lparr>est_words = ''select'' # [''a'', ''from'', ''t''], est_has_semicolon = False\<rparr>"
    by code_simp
  moreover have "set [''a'', ''from'', ''t''] \<inter> set (''limit'' # ''fetch'' # REFUSED_KEYWORDS) = {}"
    by (simp add: REFUSED_KEYWORDS_def)
  moreover have "classify_sql_operation (harmless_select @ '' LIMIT ?'') = Read" by code_simp
  moreover have "length harmless_select < 1000" by code_simp
  ultimately have "\<exists>plan. plan_raw_sql_dry_run ((raw_request harmless_select)\<lparr>rq_limit := limit\<rparr>) = Inr plan
      \<and> qp_sql plan = harmless_select @ '' LIMIT ?'' \<and> length (qp_bindings plan) = 1
      \<and> pg_result_row_cap (qp_guardrails plan) = (case limit of None \<Rightarrow> DEFAULT_MAX_RESULT_ROWS | Some l \<Rightarrow> l)"
    for limit by (rule raw_planned)
  from this [of None] this [of "Some n"]
  show "\<exists>plan. plan_raw_sql_dry_run (raw_request harmless_select) = Inr plan
     \<and> qp_sql plan = harmless_select @ '' LIMIT ?'' \<and> length (qp_bindings plan) = 1"
  "\<exists>plan. plan_raw_sql_dry_run ((raw_request harmless_select)\<lparr>rq_limit := Some n\<rparr>) = Inr plan
     \<and> pg_result_row_cap (qp_guardrails plan) = n"
    by (auto simp: raw_request_def)
qed




text \<open>
  A comment at the end of the text swallows the limit: the plan has a binding and no placeholder
  for it, and nothing limits the rows.
\<close>

theorem pushed_limit_is_swallowed:
  "\<exists>plan. plan_raw_sql_dry_run (raw_request harmless_select) = Inr plan \<and> length (qp_bindings plan) = 1
     \<and> list_all (\<lambda>t. tok_text t \<noteq> ''?'') (significant (lex (qp_sql plan)))"
proof -
  obtain plan where "plan_raw_sql_dry_run (raw_request harmless_select) = Inr plan"
    "qp_sql plan = harmless_select @ '' LIMIT ?''" "length (qp_bindings plan) = 1" using harmless_planned(1) by blast
  moreover have "list_all (\<lambda>t. tok_text t \<noteq> ''?'') (significant (lex (harmless_select @ '' LIMIT ?'')))"
    by code_simp
  ultimately show ?thesis by auto
qed

text \<open>
  The row limit of a raw request is not capped. Without an export and without a confirmation, any
  limit is accepted, and the guard's cap is that limit: the interactive cap of the dataset planner
  does not apply.
\<close>

theorem raw_limit_is_not_capped:
  "\<exists>plan. plan_raw_sql_dry_run ((raw_request harmless_select)\<lparr>rq_limit := Some n\<rparr>) = Inr plan
     \<and> pg_result_row_cap (qp_guardrails plan) = n"
  by (rule harmless_planned(2))

end
