(* ===== verification/HttpRoute.thy ===== *)
theory HttpRoute
  imports Endpoint Registry Redact
begin

text \<open>
  Requests of the HTTP transport, \<^verbatim>\<open>crates/franken-snowflake-http/src/lib.rs\<close>: routes and their URLs,
  headers, body limits, status classes, and the wire request put together from them. The messages
  of transport errors are left out; the method type of the HTTP client is its two methods used here.

  Lemmas: a URL reads back to its route, a wire request goes to the host of the endpoint and
  nowhere else, and no header splits.
\<close>

section \<open>Errors\<close>

datatype TransportErrorCode =
  TlsRootPolicyRefused | InvalidSnowflakeHost | BodyLimitExceeded | HeaderRejected
  | RetryBudgetExhausted | CancelledDuringConnect | CancelAfterSubmitFailed | HttpStatusUnexpected
  | ResponseDecodeFailed | GzipDecodeFailed | UnsupportedContentEncoding
  | NonIdempotentSubmitRetryRefused | InvalidPartitionPlan | NetworkError

fun into_snowflake_code :: "TransportErrorCode \<Rightarrow> SnowflakeErrorCode" where
  "into_snowflake_code RetryBudgetExhausted = SnowflakeErrorCode.RetryBudgetExhausted"
| "into_snowflake_code HttpStatusUnexpected = SnowflakeErrorCode.UpstreamError"
| "into_snowflake_code ResponseDecodeFailed = SnowflakeErrorCode.UpstreamError"
| "into_snowflake_code NetworkError = SnowflakeErrorCode.NetworkError"
| "into_snowflake_code TlsRootPolicyRefused = SnowflakeErrorCode.NetworkError"
| "into_snowflake_code InvalidSnowflakeHost = SnowflakeErrorCode.NetworkError"
| "into_snowflake_code CancelledDuringConnect = SnowflakeErrorCode.NetworkError"
| "into_snowflake_code CancelAfterSubmitFailed = SnowflakeErrorCode.NetworkError"
| "into_snowflake_code BodyLimitExceeded = UsageError"
| "into_snowflake_code HeaderRejected = UsageError"
| "into_snowflake_code GzipDecodeFailed = UsageError"
| "into_snowflake_code UnsupportedContentEncoding = UsageError"
| "into_snowflake_code NonIdempotentSubmitRetryRefused = UsageError"
| "into_snowflake_code InvalidPartitionPlan = UsageError"

section \<open>Routes\<close>

datatype Method = Get | Post

datatype TransportRouteKind = KindSubmit | KindPoll | KindPartition | KindCancel

fun route_kind_str :: "TransportRouteKind \<Rightarrow> string" where
  "route_kind_str KindSubmit = ''submit''"
| "route_kind_str KindPoll = ''poll''"
| "route_kind_str KindPartition = ''partition''"
| "route_kind_str KindCancel = ''cancel''"

fun route_kind_method :: "TransportRouteKind \<Rightarrow> Method" where
  "route_kind_method KindSubmit = Post"
| "route_kind_method KindCancel = Post"
| "route_kind_method KindPoll = Get"
| "route_kind_method KindPartition = Get"

datatype TransportRoute =
  Submit | SubmitWithQuery "(string \<times> string) list" | SubmitRetry string
  | Poll string | Partition string nat | Cancel string

fun route_kind :: "TransportRoute \<Rightarrow> TransportRouteKind" where
  "route_kind Submit = KindSubmit"
| "route_kind (SubmitWithQuery query) = KindSubmit"
| "route_kind (SubmitRetry request_id) = KindSubmit"
| "route_kind (Poll handle) = KindPoll"
| "route_kind (Partition handle n) = KindPartition"
| "route_kind (Cancel handle) = KindCancel"

definition submit_query_has_retry_contract :: "(string \<times> string) list \<Rightarrow> bool" where
  "submit_query_has_retry_contract query \<longleftrightarrow>
     list_ex (\<lambda>(key, value). key = ''requestId'' \<and> value \<noteq> []) query
     \<and> list_ex (\<lambda>(key, value). key = ''retry'' \<and> value = ''true'') query"

fun has_retry_contract :: "TransportRoute \<Rightarrow> bool" where
  "has_retry_contract (SubmitRetry request_id) = True"
| "has_retry_contract (SubmitWithQuery query) = submit_query_has_retry_contract query"
| "has_retry_contract route = False"

definition SQL_API_STATEMENTS_PATH :: string where
  "SQL_API_STATEMENTS_PATH = ''/api/v2/statements''"

definition is_query_unreserved :: "char \<Rightarrow> bool" where
  "is_query_unreserved byte \<longleftrightarrow> is_ascii_alphanumeric byte \<or> byte \<in> {CHR ''-'', CHR ''.'', CHR ''_'', CHR ''~''}"

definition hex_digit :: "nat \<Rightarrow> char" where
  "hex_digit nibble = (if nibble \<le> 9 then char_of (48 + nibble) else char_of (65 + (nibble - 10)))"

definition percent_encode :: "char \<Rightarrow> string" where
  "percent_encode byte =
     (if is_query_unreserved byte then [byte]
      else [CHR ''%'', hex_digit (code_of byte div 16), hex_digit (code_of byte mod 16)])"

definition percent_encode_query_component :: "string \<Rightarrow> string" where
  "percent_encode_query_component value = concat (map percent_encode value)"

definition percent_encode_path_segment :: "string \<Rightarrow> string" where
  "percent_encode_path_segment value = percent_encode_query_component value"

fun query_pairs :: "char \<Rightarrow> (string \<times> string) list \<Rightarrow> string" where
  "query_pairs separator [] = []"
| "query_pairs separator ((key, value) # query) =
     separator # percent_encode_query_component key @ ''='' @ percent_encode_query_component value
     @ query_pairs CHR ''&'' query"

definition render_submit_query :: "(string \<times> string) list \<Rightarrow> string" where
  "render_submit_query query =
     (if query = [] then SQL_API_STATEMENTS_PATH
      else SQL_API_STATEMENTS_PATH @ query_pairs CHR ''?'' query)"

fun path_and_query :: "TransportRoute \<Rightarrow> string" where
  "path_and_query Submit = SQL_API_STATEMENTS_PATH"
| "path_and_query (SubmitWithQuery query) = render_submit_query query"
| "path_and_query (SubmitRetry request_id) =
     SQL_API_STATEMENTS_PATH @ ''?requestId='' @ percent_encode_query_component request_id @ ''&retry=true''"
| "path_and_query (Poll handle) =
     SQL_API_STATEMENTS_PATH @ ''/'' @ percent_encode_path_segment handle"
| "path_and_query (Partition handle n) =
     SQL_API_STATEMENTS_PATH @ ''/'' @ percent_encode_path_segment handle @ ''?partition='' @ nat_str n"
| "path_and_query (Cancel handle) =
     SQL_API_STATEMENTS_PATH @ ''/'' @ percent_encode_path_segment handle @ ''/cancel''"

definition route_allows_automatic_retry :: "TransportRoute \<Rightarrow> bool" where
  "route_allows_automatic_retry route \<longleftrightarrow>
     has_retry_contract route
     \<or> (case route of Poll _ \<Rightarrow> True | Partition _ _ \<Rightarrow> True | Cancel _ \<Rightarrow> True | _ \<Rightarrow> False)"

section \<open>Status classes\<close>

datatype StatusClass =
  StatusCompleted | StatusRunning | StatementTimeout | QueryFailure | RateLimited
  | ServerErrorRetryable | Unauthorized | StatusUnexpected

definition classify_status :: "nat \<Rightarrow> StatusClass" where
  "classify_status status =
     (if status = 200 then StatusCompleted else if status = 202 then StatusRunning
      else if status = 401 then Unauthorized else if status = 408 then StatementTimeout
      else if status = 422 then QueryFailure else if status = 429 then RateLimited
      else if 500 \<le> status \<and> status \<le> 599 then ServerErrorRetryable else StatusUnexpected)"

definition is_retryable_status :: "nat \<Rightarrow> bool" where
  "is_retryable_status status \<longleftrightarrow> classify_status status \<in> {RateLimited, ServerErrorRetryable}"

section \<open>Body limits\<close>

record BodyLimits =
  max_submit_response_bytes :: nat
  max_poll_response_bytes :: nat
  max_partition_compressed_bytes :: nat
  max_partition_uncompressed_bytes :: nat
  max_submit_request_bytes :: nat

definition default_body_limits :: BodyLimits where
  "default_body_limits =
     \<lparr>max_submit_response_bytes = 8 * 1024 * 1024, max_poll_response_bytes = 8 * 1024 * 1024,
      max_partition_compressed_bytes = 64 * 1024 * 1024,
      max_partition_uncompressed_bytes = 512 * 1024 * 1024,
      max_submit_request_bytes = 2 * 1024 * 1024\<rparr>"

definition enforce :: "BodyLimits \<Rightarrow> TransportRouteKind \<Rightarrow> nat \<Rightarrow> TransportErrorCode + unit" where
  "enforce limits route body_len =
     (let most = (if route = KindSubmit then max_submit_request_bytes limits else u64_max)
      in if body_len > most then Inl BodyLimitExceeded else Inr ())"

definition enforce_partition_sizes :: "BodyLimits \<Rightarrow> nat \<Rightarrow> nat \<Rightarrow> TransportErrorCode + unit" where
  "enforce_partition_sizes limits compressed uncompressed =
     (if compressed > max_partition_compressed_bytes limits then Inl BodyLimitExceeded
      else if uncompressed > max_partition_uncompressed_bytes limits then Inl BodyLimitExceeded
      else Inr ())"

fun response_limit :: "BodyLimits \<Rightarrow> TransportRouteKind \<Rightarrow> nat" where
  "response_limit limits KindSubmit = max_submit_response_bytes limits"
| "response_limit limits KindPoll = max_poll_response_bytes limits"
| "response_limit limits KindCancel = max_poll_response_bytes limits"
| "response_limit limits KindPartition = max_partition_compressed_bytes limits"

definition enforce_response_size :: "BodyLimits \<Rightarrow> TransportRouteKind \<Rightarrow> nat \<Rightarrow> TransportErrorCode + unit" where
  "enforce_response_size limits route body_len =
     (if body_len > response_limit limits route then Inl BodyLimitExceeded else Inr ())"

section \<open>Headers\<close>

record Header =
  hdr_name :: string
  hdr_value :: string

definition is_header_name :: "string \<Rightarrow> bool" where
  "is_header_name name \<longleftrightarrow> name \<noteq> [] \<and> list_all (\<lambda>b. is_ascii_alphanumeric b \<or> b = CHR ''-'') name"

definition is_header_value :: "string \<Rightarrow> bool" where
  "is_header_value v \<longleftrightarrow> list_all (\<lambda>b. code_of b = 9 \<or> 32 \<le> code_of b \<and> code_of b \<le> 126) v"

definition new_header :: "string \<Rightarrow> string \<Rightarrow> TransportErrorCode + Header" where
  "new_header name v =
     (if \<not> is_header_name name \<or> \<not> is_header_value v then Inl HeaderRejected
      else Inr \<lparr>hdr_name = name, hdr_value = v\<rparr>)"

datatype SnowflakeAuthTokenType = ProgrammaticAccessToken | KeypairJwt | OAuth

fun as_header_value :: "SnowflakeAuthTokenType \<Rightarrow> string" where
  "as_header_value ProgrammaticAccessToken = ''PROGRAMMATIC_ACCESS_TOKEN''"
| "as_header_value KeypairJwt = ''KEYPAIR_JWT''"
| "as_header_value OAuth = ''OAUTH''"

record AuthorizationDescriptor =
  ad_token_type :: SnowflakeAuthTokenType
  ad_bearer_token :: string
  ad_redacted_fingerprint :: string

text \<open>Headers built one after the other; the first refusal ends it.\<close>

fun new_headers :: "(string \<times> string) list \<Rightarrow> TransportErrorCode + Header list" where
  "new_headers [] = Inr []"
| "new_headers ((name, v) # rest) =
     (case new_header name v of
        Inl e \<Rightarrow> Inl e
      | Inr h \<Rightarrow> map_sum id ((#) h) (new_headers rest))"

definition auth_headers :: "AuthorizationDescriptor \<Rightarrow> (string \<times> string) list" where
  "auth_headers auth =
     [(''Authorization'', ''Bearer '' @ ad_bearer_token auth),
      (''X-Snowflake-Authorization-Token-Type'', as_header_value (ad_token_type auth))]"

text \<open>
  How a header is printed. \<open>next_word\<close> is the iterator of \<^verbatim>\<open>split_whitespace\<close>: the next run of
  characters that are not whitespace, and what is left.
\<close>

fun word_end :: "string \<Rightarrow> string \<times> string" where
  "word_end [] = ([], [])"
| "word_end (c # s) =
     (if trim_start (c # s) \<noteq> c # s then ([], c # s)
      else let (w, r) = word_end s in (c # w, r))"

definition next_word :: "string \<Rightarrow> (string \<times> string) option" where
  "next_word s = (if trim_start s = [] then None else Some (word_end (trim_start s)))"

definition redacted_header_value :: "string \<Rightarrow> string \<Rightarrow> string" where
  "redacted_header_value name v =
     (let v = redact v
      in if \<not> eq_ignore_ascii_case name ''Authorization'' then v
         else if contains_sub v REDACTION_PLACEHOLDER then v
         else case next_word v of
           Some (scheme, r) \<Rightarrow>
             (if next_word r \<noteq> None then scheme @ '' '' @ REDACTION_PLACEHOLDER
              else REDACTION_PLACEHOLDER)
         | None \<Rightarrow> REDACTION_PLACEHOLDER)"

section \<open>Wire requests\<close>

record SnowflakeEndpoint =
  ep_base_url :: string
  ep_host :: string

definition endpoint_parse :: "string \<Rightarrow> (TransportErrorCode + SnowflakeEndpoint) option" where
  "endpoint_parse raw =
     map_option (map_sum (\<lambda>_. InvalidSnowflakeHost) (\<lambda>(b, h). \<lparr>ep_base_url = b, ep_host = h\<rparr>))
       (validate_endpoint raw)"

definition route_url :: "SnowflakeEndpoint \<Rightarrow> TransportRoute \<Rightarrow> string" where
  "route_url endpoint route = ep_base_url endpoint @ path_and_query route"

record WireRequest =
  wr_method :: Method
  wr_url :: string
  wr_route :: TransportRoute
  wr_headers :: "Header list"
  wr_body :: string

definition wire_header_list ::
  "string \<Rightarrow> AuthorizationDescriptor \<Rightarrow> TransportRouteKind \<Rightarrow> Method \<Rightarrow> (string \<times> string) list" where
  "wire_header_list user_agent auth kind verb =
     auth_headers auth
     @ [(''Accept'', ''application/json''), (''User-Agent'', user_agent)]
     @ (if kind = KindPartition then [(''Accept-Encoding'', ''gzip, identity'')] else [])
     @ (if verb = Post then [(''Content-Type'', ''application/json'')] else [])"

definition wire_request ::
  "string \<Rightarrow> SnowflakeEndpoint \<Rightarrow> BodyLimits \<Rightarrow> Method \<Rightarrow> TransportRoute \<Rightarrow> string
     \<Rightarrow> AuthorizationDescriptor \<Rightarrow> bool \<Rightarrow> TransportErrorCode + WireRequest" where
  "wire_request user_agent endpoint limits verb route body auth retry_resubmit =
     (case enforce limits (route_kind route) (length body) of
        Inl e \<Rightarrow> Inl e
      | Inr _ \<Rightarrow>
          if route_kind route = KindSubmit \<and> retry_resubmit \<and> \<not> has_retry_contract route
          then Inl NonIdempotentSubmitRetryRefused
          else map_sum id
            (\<lambda>headers. \<lparr>wr_method = verb, wr_url = route_url endpoint route, wr_route = route,
                        wr_headers = headers, wr_body = body\<rparr>)
            (new_headers (wire_header_list user_agent auth (route_kind route) verb)))"

section \<open>URLs read back\<close>

text \<open>A reader of request targets: path segments and query pairs, percent-decoded.\<close>

definition unhex :: "char \<Rightarrow> nat" where
  "unhex c = (if is_ascii_digit c then code_of c - 48 else code_of c - 55)"

fun percent_decode :: "string \<Rightarrow> string" where
  "percent_decode (c # a # b # s) =
     (if c = CHR ''%'' then char_of (16 * unhex a + unhex b) # percent_decode s
      else c # percent_decode (a # b # s))"
| "percent_decode [a, b] = [a, b]"
| "percent_decode [a] = [a]"
| "percent_decode [] = []"

definition read_pair :: "string \<Rightarrow> string \<times> string" where
  "read_pair p =
     (percent_decode (takeWhile (\<lambda>c. c \<noteq> CHR ''='') p), percent_decode (tl (dropWhile (\<lambda>c. c \<noteq> CHR ''='') p)))"

definition read_target :: "string \<Rightarrow> string list \<times> (string \<times> string) list" where
  "read_target s =
     (map percent_decode (split_on CHR ''/'' (takeWhile (\<lambda>c. c \<noteq> CHR ''?'') s)),
      case dropWhile (\<lambda>c. c \<noteq> CHR ''?'') s of
        [] \<Rightarrow> [] | _ # q \<Rightarrow> map read_pair (split_on CHR ''&'' q))"

text \<open>What a route asks for.\<close>

definition statements_path :: "string list" where
  "statements_path = [[], ''api'', ''v2'', ''statements'']"

fun route_target :: "TransportRoute \<Rightarrow> string list \<times> (string \<times> string) list" where
  "route_target Submit = (statements_path, [])"
| "route_target (SubmitWithQuery query) = (statements_path, query)"
| "route_target (SubmitRetry request_id) =
     (statements_path, [(''requestId'', request_id), (''retry'', ''true'')])"
| "route_target (Poll handle) = (statements_path @ [handle], [])"
| "route_target (Partition handle n) = (statements_path @ [handle], [(''partition'', nat_str n)])"
| "route_target (Cancel handle) = (statements_path @ [handle, ''cancel''], [])"

lemma nibble_high: "code_of b div 16 < 16"
  by (rule less_mult_imp_div_less) (use code_of_lt_256 [of b] in simp)

lemma hex_digit_cases:
  "n < 16 \<Longrightarrow> unhex (hex_digit n) = n \<and> is_ascii_alphanumeric (hex_digit n)"
  by (auto simp: unhex_def hex_digit_def code_of_char_of byte_class)

lemma percent_decode_plain: "c \<noteq> CHR ''%'' \<Longrightarrow> percent_decode (c # s) = c # percent_decode s"
  by (cases "c # s" rule: percent_decode.cases) auto

lemma percent_decode_encode: "percent_decode (percent_encode b @ s) = b # percent_decode s"
proof (cases "is_query_unreserved b")
  case True
  then have "b \<noteq> CHR ''%''" by (auto simp: is_query_unreserved_def byte_class)
  with True show ?thesis by (simp add: percent_encode_def percent_decode_plain)
next
  case False
  from False nibble_high [of b] show ?thesis by (simp add: percent_encode_def hex_digit_cases)
qed

lemma percent_roundtrip: "percent_decode (percent_encode_query_component v) = v"
  by (induction v) (simp_all add: percent_encode_query_component_def percent_decode_encode)

lemma encoded_bytes:
  assumes "c \<in> set (percent_encode_query_component v)"
  shows "is_query_unreserved c \<or> c = CHR ''%''"
proof -
  from assms obtain b where "c \<in> set (percent_encode b)" by (auto simp: percent_encode_query_component_def)
  then show ?thesis
    using hex_digit_cases nibble_high [of b] by (auto simp: percent_encode_def is_query_unreserved_def split: if_splits)
qed

lemma encoded_plain:
  "c \<in> {CHR ''/'', CHR ''?'', CHR ''&'', CHR ''=''} \<Longrightarrow> c \<notin> set (percent_encode_query_component v)"
  using encoded_bytes by (fastforce simp: is_query_unreserved_def byte_class)

lemma encoded_all:
  "c \<in> {CHR ''/'', CHR ''?'', CHR ''&'', CHR ''=''} \<Longrightarrow>
     \<forall>x \<in> set (percent_encode_query_component v). x \<noteq> c"
  using encoded_plain by blast

lemma split_on_nonempty [simp]: "split_on d s \<noteq> []"
  by (induction s) (auto split: list.split)

lemma split_on_single: "d \<notin> set a \<Longrightarrow> split_on d a = [a]"
  by (induction a) auto

lemma split_on_append: "d \<notin> set a \<Longrightarrow> split_on d (a @ d # b) = a # split_on d b"
  by (induction a) auto

lemma split_on_tail:
  "d \<notin> set b \<Longrightarrow> split_on d (a @ d # b) = split_on d a @ [b]"
proof (induction a)
  case (Cons c a)
  then show ?case by (cases "split_on d a") (auto simp: split_on_single)
qed (simp add: split_on_single)

lemma read_pair_encoded:
  "read_pair (percent_encode_query_component k @ CHR ''='' # percent_encode_query_component v) = (k, v)"
  using encoded_all [of "CHR ''=''" k]
  by (simp add: read_pair_def percent_roundtrip takeWhile_append2 dropWhile_append2)

lemma query_pairs_separator:
  "query \<noteq> [] \<Longrightarrow> query_pairs sep query = sep # tl (query_pairs CHR ''&'' query)"
  by (cases query) auto

lemma read_query_pairs:
  "query \<noteq> [] \<Longrightarrow> map read_pair (split_on CHR ''&'' (tl (query_pairs sep query))) = query"
proof (induction query arbitrary: sep)
  case (Cons kv query)
  obtain k v where kv: "kv = (k, v)" by fastforce
  let ?p = "percent_encode_query_component k @ CHR ''='' # percent_encode_query_component v"
  have plain: "CHR ''&'' \<notin> set ?p" using encoded_plain by simp
  show ?case
  proof (cases "query = []")
    case True
    with kv plain show ?thesis by (simp add: split_on_single read_pair_encoded)
  next
    case False
    have "tl (query_pairs sep (kv # query)) = ?p @ CHR ''&'' # tl (query_pairs CHR ''&'' query)"
      using query_pairs_separator [OF False, of "CHR ''&''"] by (simp add: kv)
    then have "split_on CHR ''&'' (tl (query_pairs sep (kv # query)))
        = ?p # split_on CHR ''&'' (tl (query_pairs CHR ''&'' query))"
      by (simp only: split_on_append [OF plain])
    with Cons.IH [OF False] kv show ?thesis by (simp only: list.map read_pair_encoded)
  qed
qed simp

lemma statements_split: "split_on CHR ''/'' SQL_API_STATEMENTS_PATH = statements_path"
  "CHR ''?'' \<notin> set SQL_API_STATEMENTS_PATH"
  "map percent_decode statements_path = statements_path"
  by code_simp+

lemma read_target_query:
  assumes "CHR ''?'' \<notin> set path"
  shows "read_target (path @ CHR ''?'' # q) =
           (map percent_decode (split_on CHR ''/'' path), map read_pair (split_on CHR ''&'' q))"
    and "read_target path = (map percent_decode (split_on CHR ''/'' path), [])"
proof -
  have n: "\<forall>x \<in> set path. x \<noteq> CHR ''?''" using assms by blast
  have tw: "takeWhile (\<lambda>c. c \<noteq> CHR ''?'') path = path" and dw: "dropWhile (\<lambda>c. c \<noteq> CHR ''?'') path = []"
    using n by (simp_all only: takeWhile_eq_all_conv dropWhile_eq_Nil_conv)
  show "read_target (path @ CHR ''?'' # q) =
           (map percent_decode (split_on CHR ''/'' path), map read_pair (split_on CHR ''&'' q))"
    using n by (simp add: read_target_def takeWhile_append2 dropWhile_append2)
  show "read_target path = (map percent_decode (split_on CHR ''/'' path), [])"
    unfolding read_target_def tw dw by simp
qed

lemma route_target_read: "read_target (path_and_query route) = route_target route"
proof (cases route)
  case Submit
  then show ?thesis by (simp add: read_target_query(2) statements_split)
next
  case (SubmitWithQuery query)
  show ?thesis
  proof (cases "query = []")
    case True
    with SubmitWithQuery show ?thesis by (simp add: render_submit_query_def read_target_query(2) statements_split)
  next
    case False
    with SubmitWithQuery query_pairs_separator [OF False, of "CHR ''?''"] read_query_pairs [OF False, of "CHR ''&''"]
    show ?thesis by (simp add: render_submit_query_def read_target_query(1) statements_split)
  qed
next
  case (SubmitRetry rid)
  let ?q = "''requestId'' @ CHR ''='' # percent_encode_query_component rid @ CHR ''&'' # ''retry=true''"
  have "path_and_query route = SQL_API_STATEMENTS_PATH @ CHR ''?'' # ?q" by (simp add: SubmitRetry)
  moreover have "split_on CHR ''&'' ?q = [''requestId'' @ CHR ''='' # percent_encode_query_component rid, ''retry=true'']"
    using split_on_append [of "CHR ''&''" "''requestId'' @ CHR ''='' # percent_encode_query_component rid" "''retry=true''"]
      encoded_plain [of "CHR ''&''" rid] by (simp add: split_on_single)
  moreover have "read_pair (''requestId'' @ CHR ''='' # percent_encode_query_component rid) = (''requestId'', rid)"
    by (simp add: read_pair_def percent_roundtrip percent_decode_plain)
  moreover have "read_pair ''retry=true'' = (''retry'', ''true'')" by code_simp
  ultimately show ?thesis by (simp add: SubmitRetry read_target_query(1) statements_split)
next
  case (Poll h)
  let ?p = "SQL_API_STATEMENTS_PATH @ CHR ''/'' # percent_encode_query_component h"
  have "path_and_query route = ?p" by (simp add: Poll percent_encode_path_segment_def)
  moreover have "CHR ''?'' \<notin> set ?p" using encoded_plain statements_split(2) by simp
  moreover have "split_on CHR ''/'' ?p = statements_path @ [percent_encode_query_component h]"
    using encoded_plain by (subst split_on_tail) (simp_all add: statements_split)
  ultimately show ?thesis
    by (simp add: Poll read_target_query(2) statements_split percent_roundtrip)
next
  case (Partition h n)
  let ?p = "SQL_API_STATEMENTS_PATH @ CHR ''/'' # percent_encode_query_component h"
  obtain q where q: "q = ''partition='' @ nat_str n" by blast
  have route: "path_and_query route = ?p @ CHR ''?'' # q"
    by (simp add: Partition percent_encode_path_segment_def q)
  have p: "CHR ''?'' \<notin> set ?p" using encoded_plain statements_split(2) by simp
  have segments: "split_on CHR ''/'' ?p = statements_path @ [percent_encode_query_component h]"
    using encoded_plain by (subst split_on_tail) (simp_all add: statements_split)
  have digits: "\<forall>x \<in> set (nat_str n). is_ascii_digit x" using nat_str_digits [of n] by (simp add: list_all_iff)
  then have "percent_encode_query_component (nat_str n) = concat (map (\<lambda>c. [c]) (nat_str n))"
    unfolding percent_encode_query_component_def
    by (intro arg_cong [where f = concat] map_cong)
      (auto simp: percent_encode_def is_query_unreserved_def is_ascii_alphanumeric_def)
  then have "percent_decode (nat_str n) = nat_str n" using percent_roundtrip [of "nat_str n"] by simp
  then have "read_pair q = (''partition'', nat_str n)"
    by (simp add: q read_pair_def percent_decode_plain)
  moreover have "CHR ''&'' \<notin> set q" using digits by (auto simp: q byte_class)
  then have "split_on CHR ''&'' q = [q]" by (rule split_on_single)
  ultimately show ?thesis
    unfolding route read_target_query(1) [OF p] segments
    by (simp add: Partition statements_split percent_roundtrip)
next
  case (Cancel h)
  let ?p = "SQL_API_STATEMENTS_PATH @ CHR ''/'' # percent_encode_query_component h"
  have route: "path_and_query route = ?p @ CHR ''/'' # ''cancel''" by (simp add: Cancel percent_encode_path_segment_def)
  have p: "CHR ''?'' \<notin> set (?p @ CHR ''/'' # ''cancel'')" using encoded_plain statements_split(2) by simp
  have "split_on CHR ''/'' ?p = statements_path @ [percent_encode_query_component h]"
    using encoded_plain by (subst split_on_tail) (simp_all add: statements_split)
  then have segments: "split_on CHR ''/'' (?p @ CHR ''/'' # ''cancel'')
      = statements_path @ [percent_encode_query_component h, ''cancel'']"
    by (subst split_on_tail) simp_all
  have "percent_decode ''cancel'' = ''cancel''" by code_simp
  then show ?thesis unfolding route read_target_query(2) [OF p] segments
    by (simp add: Cancel statements_split percent_roundtrip)
qed

abbreviation target_byte :: "char \<Rightarrow> bool" where
  "target_byte c \<equiv> is_query_unreserved c \<or> c \<in> {CHR ''%'', CHR ''/'', CHR ''?'', CHR ''&'', CHR ''=''}"

lemma target_bytes: "list_all target_byte (path_and_query route)"
proof -
  have enc: "list_all target_byte (percent_encode_query_component v)" for v
    using encoded_bytes by (auto simp: list_all_iff)
  have path: "list_all target_byte SQL_API_STATEMENTS_PATH" by code_simp
  have lits: "list_all target_byte ''?requestId=''" "list_all target_byte ''&retry=true''" "list_all target_byte ''?partition=''"
    "list_all target_byte ''/cancel''" "list_all target_byte ''/''" "list_all target_byte ''=''"
    by code_simp+
  have digits: "list_all target_byte (nat_str n)" for n
    using nat_str_digits [of n] by (auto simp: list_all_iff is_query_unreserved_def byte_class)
  have pairs: "sep \<in> {CHR ''?'', CHR ''&''} \<Longrightarrow> list_all target_byte (query_pairs sep query)" for sep query
  proof (induction query arbitrary: sep)
    case (Cons kv query)
    from Cons.IH [of "CHR ''&''"] Cons.prems enc lits(6) show ?case
      by (cases kv) (simp del: insert_iff, auto)
  qed simp
  show ?thesis
  proof (cases route)
    case (SubmitWithQuery query)
    with path pairs [of "CHR ''?''" query] show ?thesis
      by (simp only: path_and_query.simps render_submit_query_def list_all_append split: if_split) blast
  qed (use path enc lits digits in
      \<open>simp_all only: path_and_query.simps list_all_append percent_encode_path_segment_def\<close>)
qed

text \<open>
  C18. A route's URL reads back to it. Split at the question mark, the slashes, the ampersands and the
  equals signs, and percent-decoded, the target of any route gives the statement path, the handle
  as one segment and the query pairs in order: no handle, request id or query value, whatever its
  bytes, can add a segment, a parameter or a fragment.
\<close>

theorem route_url_reads_back:
  "read_target (path_and_query route) = route_target route
   \<and> list_all (\<lambda>c. is_query_unreserved c \<or> c \<in> {CHR ''%'', CHR ''/'', CHR ''?'', CHR ''&'', CHR ''=''})
       (path_and_query route)"
  using route_target_read target_bytes by blast

lemma new_headers_Inr:
  "new_headers hs = Inr out \<longleftrightarrow>
     out = map (\<lambda>(name, v). \<lparr>hdr_name = name, hdr_value = v\<rparr>) hs
     \<and> list_all (\<lambda>(name, v). is_header_name name \<and> is_header_value v) hs"
proof (induction hs arbitrary: out)
  case (Cons h hs)
  then show ?case
    by (cases h; cases "new_headers hs") (auto simp: new_header_def map_sum_Inr)
qed auto

lemma wire_request_Inr:
  assumes "wire_request ua ep limits verb route body auth resubmit = Inr w"
  shows "wr_url w = route_url ep route" "wr_body w = body" "wr_method w = verb"
    "wr_headers w = map (\<lambda>(name, v). \<lparr>hdr_name = name, hdr_value = v\<rparr>)
       (wire_header_list ua auth (route_kind route) verb)"
    "list_all (\<lambda>(name, v). is_header_name name \<and> is_header_value v)
       (wire_header_list ua auth (route_kind route) verb)"
    "enforce limits (route_kind route) (length body) = Inr ()"
    "route_kind route = KindSubmit \<and> resubmit \<longrightarrow> has_retry_contract route"
  using assms by (auto simp: wire_request_def map_sum_Inr new_headers_Inr split: sum.splits if_splits)

lemma wire_request_total:
  assumes "list_all (\<lambda>(name, v). is_header_name name \<and> is_header_value v)
      (wire_header_list ua auth (route_kind route) verb)"
    and "enforce limits (route_kind route) (length body) = Inr ()"
    and "route_kind route = KindSubmit \<and> resubmit \<longrightarrow> has_retry_contract route"
  shows "\<exists>w. wire_request ua ep limits verb route body auth resubmit = Inr w"
proof -
  from assms(1) have "new_headers (wire_header_list ua auth (route_kind route) verb)
      = Inr (map (\<lambda>(name, v). \<lparr>hdr_name = name, hdr_value = v\<rparr>)
          (wire_header_list ua auth (route_kind route) verb))"
    by (simp only: new_headers_Inr)
  with assms(2,3) show ?thesis by (auto simp: wire_request_def)
qed

text \<open>
  C17. A request goes to the endpoint and leaks nothing into its shape. The URL of a wire request built
  for a parsed endpoint is https, its authority is the canonical Snowflake host, its rest reads back
  to the route, and it has only printable characters that are not blanks; every header is one line
  with a token for a name; the bearer token is the value of the one authorization header; and a
  resubmission carries the retry contract.
\<close>

theorem wire_request_stays_on_host:
  assumes "endpoint_parse raw = Some (Inr ep)"
    and "wire_request ua ep limits verb route body auth resubmit = Inr w"
  shows "\<exists>target. wr_url w = ''https://'' @ ep_host ep @ target
           \<and> takeWhile (\<lambda>c. c \<noteq> CHR ''/'') (ep_host ep @ target) = ep_host ep
           \<and> is_canonical_host (ep_host ep) \<and> read_target target = route_target route
         \<and> list_all (\<lambda>c. 33 \<le> code_of c \<and> code_of c \<le> 126) (wr_url w)
         \<and> list_all (\<lambda>h. list_all (\<lambda>b. code_of b \<noteq> 10 \<and> code_of b \<noteq> 13) (hdr_name h @ hdr_value h)) (wr_headers w)
         \<and> filter (\<lambda>h. eq_ignore_ascii_case (hdr_name h) ''Authorization'') (wr_headers w)
             = [\<lparr>hdr_name = ''Authorization'', hdr_value = ''Bearer '' @ ad_bearer_token auth\<rparr>]
         \<and> (route_kind route = KindSubmit \<and> resubmit \<longrightarrow> has_retry_contract route)"
proof -
  note w = wire_request_Inr [OF assms(2)]
  from assms(1) obtain base host where v: "validate_endpoint raw = Some (Inr (base, host))"
    and ep: "ep = \<lparr>ep_base_url = base, ep_host = host\<rparr>"
    by (auto simp: endpoint_parse_def map_sum_Inr)
  from validate_endpoint_Inr [OF v] have host: "base = ''https://'' @ host" "is_canonical_host host" by auto
  note hb = canonical_host_bytes [OF host(2)]
  let ?t = "path_and_query route"
  have url: "wr_url w = ''https://'' @ host @ ?t" using w(1) ep host(1) by (simp add: route_url_def)
  have "hd ?t = CHR ''/'' \<and> ?t \<noteq> []"
    by (cases route) (simp_all add: render_submit_query_def SQL_API_STATEMENTS_PATH_def)
  moreover have "\<forall>x \<in> set host. x \<noteq> CHR ''/''"
    using hb(1) host_byte_plain by (auto simp: list_all_iff)
  ultimately have auth: "takeWhile (\<lambda>c. c \<noteq> CHR ''/'') (host @ ?t) = host"
    by (cases ?t) simp_all
  have "list_all (\<lambda>c. 33 \<le> code_of c \<and> code_of c \<le> 126) ?t"
    using target_bytes [of route]
    by (auto simp: list_all_iff is_query_unreserved_def byte_class)
  moreover have "list_all (\<lambda>c. 33 \<le> code_of c \<and> code_of c \<le> 126) host"
    using hb(1) by (auto simp: list_all_iff host_byte_def byte_class)
  moreover have "list_all (\<lambda>c. 33 \<le> code_of c \<and> code_of c \<le> 126) ''https://''" by code_simp
  ultimately have printable: "list_all (\<lambda>c. 33 \<le> code_of c \<and> code_of c \<le> 126) (wr_url w)"
    by (simp only: url list_all_append)
  have lines: "list_all (\<lambda>h. list_all (\<lambda>b. code_of b \<noteq> 10 \<and> code_of b \<noteq> 13) (hdr_name h @ hdr_value h)) (wr_headers w)"
    using w(5) by (fastforce simp: w(4) list_all_iff is_header_name_def is_header_value_def byte_class)
  have "filter (\<lambda>h. eq_ignore_ascii_case (hdr_name h) ''Authorization'') (wr_headers w)
      = [\<lparr>hdr_name = ''Authorization'', hdr_value = ''Bearer '' @ ad_bearer_token auth\<rparr>]"
    by (simp add: w(4) wire_header_list_def auth_headers_def eq_ignore_ascii_case_def to_ascii_lowercase_def)
  with url auth host(2) ep printable lines w(7) route_target_read [of route] show ?thesis by auto
qed

definition sample_auth :: AuthorizationDescriptor where
  "sample_auth = \<lparr>ad_token_type = KeypairJwt, ad_bearer_token = ''abc'', ad_redacted_fingerprint = ''f''\<rparr>"

theorem wire_request_stays_on_host_witness:
  "\<exists>w. wire_request ''fs/1'' \<lparr>ep_base_url = ''https://xy1.snowflakecomputing.com'', ep_host = ''xy1.snowflakecomputing.com''\<rparr>
        default_body_limits Post (SubmitRetry ''id&retry=false'') [] sample_auth True = Inr w
     \<and> list_all (\<lambda>c. 33 \<le> code_of c \<and> code_of c \<le> 126) (wr_url w)"
proof -
  let ?ep = "\<lparr>ep_base_url = ''https://xy1.snowflakecomputing.com'', ep_host = ''xy1.snowflakecomputing.com''\<rparr>"
  have e: "endpoint_parse ''https://XY1.snowflakecomputing.com/'' = Some (Inr ?ep)" by code_simp
  have "list_all (\<lambda>(name, v). is_header_name name \<and> is_header_value v)
      (wire_header_list ''fs/1'' sample_auth KindSubmit Post)" by code_simp
  then obtain w where w: "wire_request ''fs/1'' ?ep default_body_limits Post (SubmitRetry ''id&retry=false'') [] sample_auth True = Inr w"
    using wire_request_total [of "''fs/1''" sample_auth "SubmitRetry ''id&retry=false''" Post default_body_limits "[]" True ?ep]
    by (auto simp: enforce_def default_body_limits_def)
  from wire_request_stays_on_host [OF e w] w show ?thesis by blast
qed

section \<open>Status classes and printing\<close>

text \<open>
  The transport retries exactly the statuses the SQL API crate calls retryable.
\<close>

theorem retryable_statuses_agree:
  "is_retryable_status status = class_is_retryable (from_status status)"
  by (auto simp: is_retryable_status_def classify_status_def class_is_retryable_def from_status_def)

lemma next_word_bearer:
  assumes "tok \<noteq> []" and "list_all (\<lambda>b. 33 \<le> code_of b \<and> code_of b \<le> 126) tok"
  shows "next_word (''Bearer '' @ tok) = Some (''Bearer'', CHR '' '' # tok)"
    and "next_word (CHR '' '' # tok) \<noteq> None"
proof -
  have plain: "trim_start (c # s) = c # s" if "33 \<le> code_of c \<and> code_of c \<le> 126" for c s
    using trim_start_ascii [of "c # s"] that by (simp add: ws1_def byte_class)
  obtain c t where tok: "tok = c # t" using assms(1) by (cases tok) auto
  with assms(2) have c: "trim_start tok = tok" using plain by simp
  have sp: "trim_start (CHR '' '' # tok) = trim_start tok"
    by (cases "CHR '' '' # tok" rule: trim_start.cases) (simp_all add: ws1_def tok)
  show "next_word (CHR '' '' # tok) \<noteq> None" using c sp tok by (simp add: next_word_def)
  show "next_word (''Bearer '' @ tok) = Some (''Bearer'', CHR '' '' # tok)"
    using sp c by (simp add: next_word_def plain tok del: trim_start.simps)
qed

text \<open>
  Printing an authorization header masks its token, or what the redactor did not recognize stays.
  When the redactor finds nothing in the value the whole token is replaced; but when it does find
  something, only that is: a token with a secret-shaped part in its middle is printed around it.
\<close>

theorem printed_header_masks_token:
  "(eq_ignore_ascii_case name ''Authorization'' \<and> tok \<noteq> []
      \<and> list_all (\<lambda>b. 33 \<le> code_of b \<and> code_of b \<le> 126) tok
      \<and> \<not> contains_secret (''Bearer '' @ tok) \<and> \<not> contains_sub (''Bearer '' @ tok) REDACTION_PLACEHOLDER
    \<longrightarrow> redacted_header_value name (''Bearer '' @ tok) = ''Bearer '' @ REDACTION_PLACEHOLDER)
   \<and> redacted_header_value ''Authorization'' ''Bearer ver:1-hint:77:AKIA0'' = ''Bearer ver:1-hint:77:[REDACTED]''"
proof -
  have "redacted_header_value ''Authorization'' ''Bearer ver:1-hint:77:AKIA0'' = ''Bearer ver:1-hint:77:[REDACTED]''"
    by code_simp
  then show ?thesis
    using redact_plain [of "''Bearer '' @ tok"] next_word_bearer [of tok]
    by (auto simp: redacted_header_value_def Let_def)
qed

theorem printed_header_masks_token_witness:
  "redacted_header_value ''authorization'' ''Bearer opaque'' = ''Bearer [REDACTED]''"
proof -
  have "eq_ignore_ascii_case ''authorization'' ''Authorization''" by code_simp
  moreover have "list_all (\<lambda>b. 33 \<le> code_of b \<and> code_of b \<le> 126) ''opaque''" by code_simp
  moreover have "\<not> contains_secret ''Bearer opaque''" by code_simp
  moreover have "\<not> contains_sub ''Bearer opaque'' REDACTION_PLACEHOLDER" by code_simp
  ultimately show ?thesis
    using printed_header_masks_token [of "''authorization''" "''opaque''"]
    by (simp add: REDACTION_PLACEHOLDER_def)
qed

end
