(* ===== verification/HttpDate.thy ===== *)
theory HttpDate
  imports Typed
begin

text \<open>
  The \<^verbatim>\<open>Retry-After\<close> header and the three date formats of HTTP it may hold,
  \<^verbatim>\<open>crates/franken-snowflake-http/src/lib.rs\<close>.

  The addition of a century to the year of the RFC 850 form is not checked in the source: a parser
  that reaches it returns an outer option, \<^term>\<open>None\<close> standing for the overflow (a panic in a checked
  build, a wrapped year in a release build). The wall clock is an argument, in seconds since the
  epoch.

  Lemmas: the day arithmetic is the Gregorian calendar's, the three formats of one instant agree,
  and where the century overflows.
\<close>

section \<open>Reading numbers and words\<close>

definition i32_min :: int where "i32_min = - (2 ^ 31)"
definition i32_max :: int where "i32_max = 2 ^ 31 - 1"

text \<open>\<^verbatim>\<open>parse\<close> for an unsigned type: a plus sign is taken, a minus sign is not a digit.\<close>

definition parse_unsigned :: "nat \<Rightarrow> string \<Rightarrow> nat option" where
  "parse_unsigned hi s =
     (if starts_with s ''-'' then None else map_option nat (parse_int 0 (int hi) s))"

fun split_by :: "(char \<Rightarrow> bool) \<Rightarrow> string \<Rightarrow> string list" where
  "split_by p [] = [[]]"
| "split_by p (c # s) =
     (if p c then [] # split_by p s
      else case split_by p s of [] \<Rightarrow> [[c]] | w # ws \<Rightarrow> (c # w) # ws)"

definition split_ascii_whitespace :: "string \<Rightarrow> string list" where
  "split_ascii_whitespace s = filter (\<lambda>w. w \<noteq> []) (split_by is_ascii_whitespace s)"

section \<open>The calendar of the source\<close>

definition is_leap_year :: "int \<Rightarrow> bool" where
  "is_leap_year year \<longleftrightarrow> year mod 4 = 0 \<and> year mod 100 \<noteq> 0 \<or> year mod 400 = 0"

definition days_in_month :: "int \<Rightarrow> nat \<Rightarrow> nat" where
  "days_in_month year month =
     (if month \<in> {1, 3, 5, 7, 8, 10, 12} then 31 else if month \<in> {4, 6, 9, 11} then 30
      else if month = 2 \<and> is_leap_year year then 29 else if month = 2 then 28 else 0)"

text \<open>Division truncates: the era of a negative year is written with its negation.\<close>

definition days_from_civil :: "int \<Rightarrow> nat \<Rightarrow> nat \<Rightarrow> int" where
  "days_from_civil year month day =
     (let year = year - (if month \<le> 2 then 1 else 0);
          month = int month; day = int day;
          era = (if year \<ge> 0 then year div 400 else - ((399 - year) div 400));
          year_of_era = year - era * 400;
          month_prime = month + (if month > 2 then -3 else 9);
          day_of_year = (153 * month_prime + 2) div 5 + day - 1;
          day_of_era = year_of_era * 365 + year_of_era div 4 - year_of_era div 100 + day_of_year
      in era * 146097 + day_of_era - 719468)"

definition checked_i64 :: "int \<Rightarrow> int option" where
  "checked_i64 v = (if i64_min \<le> v \<and> v \<le> i64_max then Some v else None)"

definition unix_seconds_utc :: "int \<Rightarrow> nat \<Rightarrow> nat \<Rightarrow> nat \<Rightarrow> nat \<Rightarrow> nat \<Rightarrow> int option" where
  "unix_seconds_utc year month day hour minute second =
     (if \<not> (1 \<le> month \<and> month \<le> 12) \<or> day = 0 \<or> day > days_in_month year month
         \<or> hour > 23 \<or> minute > 59 \<or> second > 60
      then None
      else let second = min second 59
           in Option.bind (checked_i64 (days_from_civil year month day * 86400))
                (\<lambda>v. checked_i64 (v + (int hour * 3600 + int minute * 60 + int second))))"

section \<open>The three formats\<close>

definition MONTHS :: "string list" where
  "MONTHS = [''Jan'', ''Feb'', ''Mar'', ''Apr'', ''May'', ''Jun'', ''Jul'', ''Aug'', ''Sep'', ''Oct'',
             ''Nov'', ''Dec'']"

definition parse_http_month :: "string \<Rightarrow> nat option" where
  "parse_http_month month = map_of (zip MONTHS [1..<13]) month"

definition parse_http_time :: "string \<Rightarrow> (nat \<times> nat \<times> nat) option" where
  "parse_http_time time =
     (case split_by (\<lambda>c. c = CHR '':'') time of
        [h, m, s] \<Rightarrow>
          (case (parse_unsigned u32_max h, parse_unsigned u32_max m, parse_unsigned u32_max s) of
             (Some hour, Some minute, Some second) \<Rightarrow>
               if hour > 23 \<or> minute > 59 \<or> second > 60 then None else Some (hour, minute, second)
           | _ \<Rightarrow> None)
      | _ \<Rightarrow> None)"

definition after_comma :: "string \<Rightarrow> string option" where
  "after_comma raw = map_option (\<lambda>n. drop (n + 2) raw) (find_sub '', '' raw)"

definition seconds_at :: "int option \<Rightarrow> nat option \<Rightarrow> nat option \<Rightarrow> (nat \<times> nat \<times> nat) option \<Rightarrow> int option" where
  "seconds_at year month day time =
     (case (year, month, day, time) of
        (Some y, Some m, Some d, Some (hour, minute, second)) \<Rightarrow> unix_seconds_utc y m d hour minute second
      | _ \<Rightarrow> None)"

definition parse_imf_fixdate :: "string \<Rightarrow> int option" where
  "parse_imf_fixdate raw =
     (case map_option split_ascii_whitespace (after_comma raw) of
        Some [day, month, year, time, zone] \<Rightarrow>
          if zone \<noteq> ''GMT'' then None
          else seconds_at (parse_int i32_min i32_max year) (parse_http_month month)
                 (parse_unsigned u32_max day) (parse_http_time time)
      | _ \<Rightarrow> None)"

text \<open>The year of the RFC 850 form; \<^term>\<open>None\<close> when the addition overflows.\<close>

definition century_year :: "nat \<Rightarrow> int option option" where
  "century_year two_digits =
     (if two_digits \<ge> 70 then
        (if int two_digits > i32_max then Some None
         else if 1900 + int two_digits > i32_max then None
         else Some (Some (1900 + int two_digits)))
      else Some (Some (2000 + int two_digits)))"

definition parse_rfc850_date :: "string \<Rightarrow> int option option" where
  "parse_rfc850_date raw =
     (case map_option split_ascii_whitespace (after_comma raw) of
        Some (date # rest) \<Rightarrow>
          (case split_by (\<lambda>c. c = CHR ''-'') date of
             [d, m, y] \<Rightarrow>
               (case (parse_unsigned u32_max d, parse_http_month m, parse_unsigned u32_max y) of
                  (Some day, Some month, Some two_digits) \<Rightarrow>
                    (case century_year two_digits of
                       None \<Rightarrow> None
                     | Some None \<Rightarrow> Some None
                     | Some (Some year) \<Rightarrow>
                         Some (case rest of
                           [time, zone] \<Rightarrow>
                             if zone \<noteq> ''GMT'' then None
                             else seconds_at (Some year) (Some month) (Some day) (parse_http_time time)
                         | _ \<Rightarrow> None))
                | _ \<Rightarrow> Some None)
           | _ \<Rightarrow> Some None)
      | _ \<Rightarrow> Some None)"

definition parse_asctime_date :: "string \<Rightarrow> int option" where
  "parse_asctime_date raw =
     (case split_ascii_whitespace raw of
        [weekday, month, day, time, year] \<Rightarrow>
          seconds_at (parse_int i32_min i32_max year) (parse_http_month month)
            (parse_unsigned u32_max day) (parse_http_time time)
      | _ \<Rightarrow> None)"

definition parse_http_date_unix_seconds :: "string \<Rightarrow> int option option" where
  "parse_http_date_unix_seconds raw =
     (case parse_imf_fixdate raw of
        Some t \<Rightarrow> Some (Some t)
      | None \<Rightarrow>
          (case parse_rfc850_date raw of
             None \<Rightarrow> None
           | Some (Some t) \<Rightarrow> Some (Some t)
           | Some None \<Rightarrow> Some (parse_asctime_date raw)))"

section \<open>Retry-After\<close>

definition response_header :: "(string \<times> string) list \<Rightarrow> string \<Rightarrow> string option" where
  "response_header headers name =
     map_option snd (List.find (\<lambda>(header_name, _). eq_ignore_ascii_case header_name name) headers)"

definition sat_sub_i64 :: "int \<Rightarrow> int \<Rightarrow> int" where
  "sat_sub_i64 a b = max i64_min (min i64_max (a - b))"

definition retry_after_http_date_ms :: "int option \<Rightarrow> string \<Rightarrow> nat option option" where
  "retry_after_http_date_ms now raw =
     map_option
       (\<lambda>target. case (target, now) of
           (Some target, Some now) \<Rightarrow>
             (let delta = sat_sub_i64 target now
              in if delta \<le> 0 then Some 0 else Some (sat_mul u64_max (nat delta) 1000))
         | _ \<Rightarrow> None)
       (parse_http_date_unix_seconds raw)"

definition retry_after_ms :: "int option \<Rightarrow> (string \<times> string) list \<Rightarrow> nat option option" where
  "retry_after_ms now headers =
     (case response_header headers ''Retry-After'' of
        None \<Rightarrow> Some None
      | Some v \<Rightarrow>
          (let raw = str_trim v
           in case Option.bind (parse_unsigned u64_max raw)
                     (\<lambda>seconds. if seconds * 1000 \<le> u64_max then Some (seconds * 1000) else None) of
                Some ms \<Rightarrow> Some (Some ms)
              | None \<Rightarrow> retry_after_http_date_ms now raw))"

section \<open>The day arithmetic\<close>

lemma leap_years_agree: "is_leap_year year = leap_year year"
  using dvd_trans [of 4 400 year] by (auto simp: is_leap_year_def leap_year_def dvd_eq_mod_eq_0)

lemma days_in_month_length:
  assumes "1 \<le> m" and "m \<le> 12"
  shows "int (days_in_month y m) = month_length y (int m)"
proof -
  have "m = 1 \<or> m = 2 \<or> m = 3 \<or> m = 4 \<or> m = 5 \<or> m = 6 \<or> m = 7 \<or> m = 8 \<or> m = 9 \<or> m = 10 \<or> m = 11 \<or> m = 12"
    using assms by presburger
  then show ?thesis by (elim disjE; simp add: days_in_month_def month_length_def leap_years_agree)
qed

lemma valid_date_bounds:
  "valid_date (y, int m, int d) \<longleftrightarrow> 1 \<le> m \<and> m \<le> 12 \<and> d \<noteq> 0 \<and> d \<le> days_in_month y m"
  using days_in_month_length [of m y] by (auto simp: valid_date_def)

lemma month_offsets:
  "list_all (\<lambda>m. (153 * (int m + (if int m > 2 then -3 else 9)) + 2) div 5 + 1 =
     (if m = 1 then 307 else if m = 2 then 338
      else 1 + [0, 31, 61, 92, 122, 153, 184, 214, 245, 275] ! (m - 3))) [1..<13]"
  by code_simp

lemma era_truncates:
  "(if y \<ge> 0 then y div 400 else - ((399 - y) div 400)) = y div (400 :: int)"
proof -
  have "399 - y = (399 - y mod 400) + (- (y div 400)) * 400"
    using div_mult_mod_eq [of y 400] by linarith
  then have "(399 - y) div 400 = - (y div 400) + (399 - y mod 400) div 400"
    by (simp only: div_mult_self1)
  also have "(399 - y mod 400) div 400 = 0" by (intro div_pos_pos_trivial) simp_all
  finally show ?thesis by simp
qed

lemma days_from_civil_year_start:
  "days_from_civil y m d = year_start (y - (if m \<le> 2 then 1 else 0))
     + ((153 * (int m + (if int m > 2 then -3 else 9)) + 2) div 5 + int d - 1) - 719468"
proof -
  define w where "w = y - (if m \<le> 2 then 1 else 0)"
  define yoe where "yoe = w - w div 400 * 400"
  have "year_start w = year_start (yoe + 400 * (w div 400))" by (simp add: yoe_def)
  also have "\<dots> = year_start yoe + 146097 * (w div 400)" by (rule year_start_shift)
  also have "yoe = w mod 400" by (simp add: yoe_def minus_div_mult_eq_mod)
  then have "yoe div 400 = 0" by simp
  then have "year_start yoe = 365 * yoe + yoe div 4 - yoe div 100" by (simp add: year_start_def)
  finally have "year_start w = 365 * yoe + yoe div 4 - yoe div 100 + 146097 * (w div 400)" .
  then show ?thesis
    unfolding days_from_civil_def Let_def w_def [symmetric] era_truncates yoe_def [symmetric]
    by simp
qed

lemma days_from_civil_counts:
  assumes "valid_date (y, int m, int d)"
  shows "days_from_civil y m d = day_count (y, int m, int d) - day_count (1970, 1, 1)"
proof -
  from assms have m: "1 \<le> m" "m \<le> 12" by (auto simp: valid_date_def)
  then have "m \<in> set [1..<13]" by auto
  with month_offsets have o: "(153 * (int m + (if int m > 2 then -3 else 9)) + 2) div 5 + 1 =
     (if m = 1 then 307 else if m = 2 then 338
      else 1 + [0, 31, 61, 92, 122, 153, 184, 214, 245, 275] ! (m - 3))"
    unfolding list_all_iff by blast
  have epoch: "day_count (1970, 1, 1) = 719162"
    by (simp add: day_count_def days_before_year_def days_before_month_def)
  have start: "days_before_year y = year_start (y - 1)" by (simp add: days_before_year_def year_start_def)
  have next_start: "year_start y = year_start (y - 1) + 365 + (if leap_year y then 1 else 0)"
    using year_start_Suc [of "y - 1"] by simp
  note table = days_before_month_table [of "int m" y]
  have i: "nat (int m - 3) = m - 3" by simp
  show ?thesis
  proof (cases "m \<le> 2")
    case True
    with m have "m = 1 \<or> m = 2" by linarith
    with o table m show ?thesis unfolding days_from_civil_year_start epoch unfolding day_count_def
      by (auto simp: start)
  next
    case False
    with o table m i show ?thesis unfolding days_from_civil_year_start epoch unfolding day_count_def
      by (simp add: start next_start)
  qed
qed

lemma unix_seconds_utc_Some:
  assumes "valid_date (y, int m, int d)" and "i32_min \<le> y" and "y \<le> i32_max"
    and "h \<le> 23" and "mi \<le> 59" and "s \<le> 60"
  shows "unix_seconds_utc y m d h mi s =
    Some ((day_count (y, int m, int d) - day_count (1970, 1, 1)) * 86400
          + int h * 3600 + int mi * 60 + int (min s 59))"
proof -
  let ?D = "days_from_civil y m d"
  define w where "w = y - (if m \<le> 2 then 1 else 0)"
  have w: "- 2147483649 \<le> w" "w \<le> 2147483647" using assms(2,3) by (auto simp: w_def i32_min_def i32_max_def)
  then have "- 2147483649 div 4 \<le> w div 4" "w div 4 \<le> 2147483647 div 4"
    "- 2147483649 div 100 \<le> w div 100" "w div 100 \<le> 2147483647 div 100"
    "- 2147483649 div 400 \<le> w div 400" "w div 400 \<le> 2147483647 div 400"
    by (intro zdiv_mono1; simp)+
  then have start: "\<bar>year_start w\<bar> \<le> 900000000000" using w by (simp add: year_start_def abs_le_iff)
  from assms(1) have m: "1 \<le> m" "m \<le> 12" "1 \<le> d" "d \<le> days_in_month y m" by (auto simp: valid_date_bounds)
  then have d: "d \<le> 31" by (auto simp: days_in_month_def split: if_splits)
  have "0 \<le> (153 * (int m + (if int m > 2 then -3 else 9)) + 2) div 5"
    "(153 * (int m + (if int m > 2 then -3 else 9)) + 2) div 5 \<le> 400"
    using m(1,2) by auto
  with start d have "\<bar>?D\<bar> \<le> 1000000000000"
    unfolding days_from_civil_year_start w_def [symmetric] by linarith
  then have D: "- 1000000000000 \<le> ?D" "?D \<le> 1000000000000" by linarith+
  define t where "t = int h * 3600 + int mi * 60 + int (min s 59)"
  have t: "0 \<le> t" "t \<le> 100000" using assms(4-6) by (simp_all add: t_def)
  have "- (2 ^ 63) \<le> ?D * 86400" "?D * 86400 \<le> 2 ^ 63 - 1" "- (2 ^ 63) \<le> ?D * 86400 + t"
    "?D * 86400 + t \<le> 2 ^ 63 - 1"
    using D t by simp_all
  then have "checked_i64 (?D * 86400) = Some (?D * 86400)" "checked_i64 (?D * 86400 + t) = Some (?D * 86400 + t)"
    unfolding checked_i64_def i64_min_def i64_max_def by simp_all
  then have "unix_seconds_utc y m d h mi s = Some (?D * 86400 + t)"
    using m assms(4-6) by (simp add: unix_seconds_utc_def Let_def t_def)
  then show ?thesis by (simp add: days_from_civil_counts [OF assms(1)] t_def)
qed

section \<open>The formats agree\<close>

text \<open>The three printed forms of an instant, as HTTP specifies them.\<close>

definition month_name :: "nat \<Rightarrow> string" where
  "month_name m = MONTHS ! (m - 1)"

definition clock :: "nat \<Rightarrow> nat \<Rightarrow> nat \<Rightarrow> string" where
  "clock h mi s = pad0 2 (nat_str h) @ '':'' @ pad0 2 (nat_str mi) @ '':'' @ pad0 2 (nat_str s)"

definition imf_fixdate :: "string \<Rightarrow> nat \<Rightarrow> nat \<Rightarrow> nat \<Rightarrow> nat \<Rightarrow> nat \<Rightarrow> nat \<Rightarrow> string" where
  "imf_fixdate weekday y m d h mi s =
     weekday @ '', '' @ pad0 2 (nat_str d) @ '' '' @ month_name m @ '' '' @ pad0 4 (nat_str y) @ '' ''
     @ clock h mi s @ '' GMT''"

definition rfc850_date :: "string \<Rightarrow> nat \<Rightarrow> nat \<Rightarrow> nat \<Rightarrow> nat \<Rightarrow> nat \<Rightarrow> nat \<Rightarrow> string" where
  "rfc850_date weekday y m d h mi s =
     weekday @ '', '' @ pad0 2 (nat_str d) @ ''-'' @ month_name m @ ''-'' @ pad0 2 (nat_str (y mod 100)) @ '' ''
     @ clock h mi s @ '' GMT''"

definition asctime_date :: "string \<Rightarrow> nat \<Rightarrow> nat \<Rightarrow> nat \<Rightarrow> nat \<Rightarrow> nat \<Rightarrow> nat \<Rightarrow> string" where
  "asctime_date weekday y m d h mi s =
     weekday @ '' '' @ month_name m @ '' '' @ (if d < 10 then '' '' @ nat_str d else nat_str d) @ '' ''
     @ clock h mi s @ '' '' @ pad0 4 (nat_str y)"

definition weekday_name :: "string \<Rightarrow> bool" where
  "weekday_name w \<longleftrightarrow> w \<noteq> [] \<and> list_all is_ascii_alphabetic w"

lemma split_by_nonempty [simp]: "split_by p s \<noteq> []"
  by (induction s) (auto split: list.split)

lemma split_by_word: "list_all (\<lambda>c. \<not> p c) w \<Longrightarrow> split_by p w = [w]"
  by (induction w) auto

lemma split_by_append: "list_all (\<lambda>c. \<not> p c) w \<Longrightarrow> p c \<Longrightarrow> split_by p (w @ c # s) = w # split_by p s"
  by (induction w) auto

lemma words_append:
  "list_all (\<lambda>c. \<not> is_ascii_whitespace c) w \<Longrightarrow>
     split_ascii_whitespace (w @ CHR '' '' # s) = (if w = [] then [] else [w]) @ split_ascii_whitespace s"
  by (simp add: split_ascii_whitespace_def split_by_append byte_class)

lemma words_word:
  "list_all (\<lambda>c. \<not> is_ascii_whitespace c) w \<Longrightarrow> w \<noteq> [] \<Longrightarrow> split_ascii_whitespace w = [w]"
  by (simp add: split_ascii_whitespace_def split_by_word)

lemma after_comma_weekday:
  assumes "list_all (\<lambda>c. c \<noteq> CHR '','') w"
  shows "after_comma (w @ '', '' @ s) = Some s"
proof -
  have "find_sub '', '' (w @ '', '' @ s) = Some (length w)"
    using assms by (induction w) (auto simp: starts_with_def)
  then show ?thesis by (simp add: after_comma_def)
qed

lemma no_comma: "list_all (\<lambda>c. c \<noteq> CHR '','') s \<Longrightarrow> after_comma s = None"
proof -
  assume "list_all (\<lambda>c. c \<noteq> CHR '','') s"
  then have "find_sub '', '' s = None" by (induction s) (auto simp: starts_with_def)
  then show ?thesis by (simp add: after_comma_def)
qed

lemma padded_digits: "list_all is_ascii_digit (pad0 w (nat_str n))" "pad0 w (nat_str n) \<noteq> []"
  using nat_str_digits [of n] by simp (simp add: pad0_def)

lemma digit_word:
  "list_all is_ascii_digit w \<Longrightarrow> list_all (\<lambda>c. \<not> is_ascii_whitespace c) w
     \<and> list_all (\<lambda>c. c \<noteq> CHR '':'') w \<and> list_all (\<lambda>c. c \<noteq> CHR ''-'') w \<and> list_all (\<lambda>c. c \<noteq> CHR '','') w"
  by (auto simp: list_all_iff byte_class)

lemma parse_digits:
  assumes "list_all is_ascii_digit s" and "s \<noteq> []" and "digits_val s = n"
  shows "n \<le> hi \<Longrightarrow> parse_unsigned hi s = Some n"
    and "lo \<le> int n \<Longrightarrow> int n \<le> most \<Longrightarrow> parse_int lo most s = Some (int n)"
proof -
  obtain c r where s: "s = c # r" using assms(2) by (cases s) auto
  with assms(1) have "is_ascii_digit c" by simp
  then have "c \<noteq> CHR ''-'' \<and> c \<noteq> CHR ''+''" by (auto simp: byte_class)
  with assms s show "n \<le> hi \<Longrightarrow> parse_unsigned hi s = Some n"
    and "lo \<le> int n \<Longrightarrow> int n \<le> most \<Longrightarrow> parse_int lo most s = Some (int n)"
    by (auto simp: parse_unsigned_def parse_int_def starts_with_def)
qed

lemmas parse_padded = parse_digits [OF padded_digits, simplified]

lemma parse_month_name:
  assumes "1 \<le> m" and "m \<le> 12"
  shows "parse_http_month (month_name m) = Some m"
    and "list_all is_ascii_alphabetic (month_name m)" and "month_name m \<noteq> []"
proof -
  have "list_all (\<lambda>m. parse_http_month (month_name m) = Some m \<and> list_all is_ascii_alphabetic (month_name m)
      \<and> month_name m \<noteq> []) [1..<13]" by code_simp
  moreover have "m \<in> set [1..<13]" using assms by auto
  ultimately show "parse_http_month (month_name m) = Some m"
    and "list_all is_ascii_alphabetic (month_name m)" and "month_name m \<noteq> []"
    unfolding list_all_iff by blast+
qed

lemma alpha_word:
  "list_all is_ascii_alphabetic w \<Longrightarrow> list_all (\<lambda>c. \<not> is_ascii_whitespace c) w
     \<and> list_all (\<lambda>c. c \<noteq> CHR ''-'') w \<and> list_all (\<lambda>c. c \<noteq> CHR '','') w"
  by (auto simp: list_all_iff byte_class)

lemma parse_clock:
  assumes "h \<le> 23" and "mi \<le> 59" and "s \<le> 60"
  shows "parse_http_time (clock h mi s) = Some (h, mi, s)"
    and "list_all (\<lambda>c. \<not> is_ascii_whitespace c) (clock h mi s)" and "clock h mi s \<noteq> []"
    and "list_all (\<lambda>c. c \<noteq> CHR '','') (clock h mi s)"
proof -
  note p = padded_digits(1) [of 2, THEN digit_word]
  show "list_all (\<lambda>c. \<not> is_ascii_whitespace c) (clock h mi s)" "clock h mi s \<noteq> []"
    "list_all (\<lambda>c. c \<noteq> CHR '','') (clock h mi s)"
    using p by (simp_all add: clock_def byte_class padded_digits)
  have "split_by (\<lambda>c. c = CHR '':'') (clock h mi s)
      = [pad0 2 (nat_str h), pad0 2 (nat_str mi), pad0 2 (nat_str s)]"
    using p by (simp add: clock_def split_by_append split_by_word)
  then show "parse_http_time (clock h mi s) = Some (h, mi, s)"
    using assms by (simp add: parse_http_time_def parse_padded u32_max_def)
qed

lemma imf_words:
  assumes w: "weekday_name w" and m: "1 \<le> m" "m \<le> 12" and t: "h \<le> 23" "mi \<le> 59" "s \<le> 60"
  shows "map_option split_ascii_whitespace (after_comma (imf_fixdate w y m d h mi s))
    = Some [pad0 2 (nat_str d), month_name m, pad0 4 (nat_str y), clock h mi s, ''GMT'']"
proof -
  note p = padded_digits(1) [THEN digit_word] padded_digits(2)
  note a = parse_month_name(2) [OF m, THEN alpha_word] parse_month_name(3) [OF m]
  note c = parse_clock [OF t]
  have "after_comma (imf_fixdate w y m d h mi s)
      = Some (pad0 2 (nat_str d) @ CHR '' '' # month_name m @ CHR '' '' # pad0 4 (nat_str y) @ CHR '' ''
          # clock h mi s @ CHR '' '' # ''GMT'')"
    using after_comma_weekday [of w] w alpha_word by (simp add: imf_fixdate_def weekday_name_def)
  moreover have "split_ascii_whitespace ''GMT'' = [''GMT'']" by code_simp
  ultimately show ?thesis using p a c by (simp add: words_append)
qed

lemma rfc850_words:
  assumes w: "weekday_name w" and m: "1 \<le> m" "m \<le> 12" and t: "h \<le> 23" "mi \<le> 59" "s \<le> 60"
  shows "map_option split_ascii_whitespace (after_comma (rfc850_date w y m d h mi s))
      = Some [pad0 2 (nat_str d) @ CHR ''-'' # month_name m @ CHR ''-'' # pad0 2 (nat_str (y mod 100)), clock h mi s, ''GMT'']"
    and "split_by (\<lambda>c. c = CHR ''-'') (pad0 2 (nat_str d) @ CHR ''-'' # month_name m @ CHR ''-'' # pad0 2 (nat_str (y mod 100)))
      = [pad0 2 (nat_str d), month_name m, pad0 2 (nat_str (y mod 100))]"
proof -
  note p = padded_digits(1) [THEN digit_word] padded_digits(2)
  note a = parse_month_name(2) [OF m, THEN alpha_word] parse_month_name(3) [OF m]
  note c = parse_clock [OF t]
  let ?date = "pad0 2 (nat_str d) @ CHR ''-'' # month_name m @ CHR ''-'' # pad0 2 (nat_str (y mod 100))"
  have date: "list_all (\<lambda>c. \<not> is_ascii_whitespace c) ?date" using p a by (simp add: byte_class)
  have "after_comma (rfc850_date w y m d h mi s) = Some (?date @ CHR '' '' # clock h mi s @ CHR '' '' # ''GMT'')"
    using after_comma_weekday [of w] w alpha_word by (simp add: rfc850_date_def weekday_name_def)
  moreover have "split_ascii_whitespace ''GMT'' = [''GMT'']" by code_simp
  ultimately show "map_option split_ascii_whitespace (after_comma (rfc850_date w y m d h mi s))
      = Some [?date, clock h mi s, ''GMT'']"
    using words_append [OF date] c by (simp add: words_append p)
  show "split_by (\<lambda>c. c = CHR ''-'') ?date = [pad0 2 (nat_str d), month_name m, pad0 2 (nat_str (y mod 100))]"
    using p a by (simp add: split_by_append split_by_word)
qed

lemma asctime_words:
  assumes w: "weekday_name w" and m: "1 \<le> m" "m \<le> 12" and t: "h \<le> 23" "mi \<le> 59" "s \<le> 60"
  shows "split_ascii_whitespace (asctime_date w y m d h mi s)
      = [w, month_name m, nat_str d, clock h mi s, pad0 4 (nat_str y)]"
    and "after_comma (asctime_date w y m d h mi s) = None"
proof -
  note p = padded_digits(1) [THEN digit_word] padded_digits(2)
  note n = nat_str_digits [THEN digit_word]
  note a = parse_month_name(2) [OF m, THEN alpha_word] parse_month_name(3) [OF m]
  note c = parse_clock [OF t]
  have w': "list_all (\<lambda>c. \<not> is_ascii_whitespace c) w" "list_all (\<lambda>c. c \<noteq> CHR '','') w" "w \<noteq> []"
    using w alpha_word by (simp_all add: weekday_name_def)
  show "split_ascii_whitespace (asctime_date w y m d h mi s)
      = [w, month_name m, nat_str d, clock h mi s, pad0 4 (nat_str y)]"
    using p n a c w' words_append [of "[]"] by (simp add: asctime_date_def words_append words_word)
  show "after_comma (asctime_date w y m d h mi s) = None"
    using p n a c w' by (intro no_comma) (simp add: asctime_date_def)
qed

text \<open>
  C19. The dates HTTP allows are read as the instants they name. For every date of the Gregorian
  calendar from 1970 to 2069 and every time of day, the three forms that HTTP gives an instant are
  all read, and as the seconds from the epoch that the calendar's day count gives; a leap second is
  the second before it. The first form is read for the years before and after as well.
\<close>

theorem http_dates_denote:
  assumes "weekday_name w" and "valid_date (int y, int m, int d)" and "y \<le> 9999"
    and "h \<le> 23" and "mi \<le> 59" and "s \<le> 60"
  shows "let t = (day_count (int y, int m, int d) - day_count (1970, 1, 1)) * 86400
               + int h * 3600 + int mi * 60 + int (min s 59)
         in parse_http_date_unix_seconds (imf_fixdate w y m d h mi s) = Some (Some t)
            \<and> parse_http_date_unix_seconds (asctime_date w y m d h mi s) = Some (Some t)
            \<and> (1970 \<le> y \<and> y \<le> 2069
                \<longrightarrow> parse_http_date_unix_seconds (rfc850_date w y m d h mi s) = Some (Some t))"
proof -
  define t where "t = (day_count (int y, int m, int d) - day_count (1970, 1, 1)) * 86400
      + int h * 3600 + int mi * 60 + int (min s 59)"
  have m: "1 \<le> m" "m \<le> 12" and "d \<le> days_in_month (int y) m" using assms(2) by (auto simp: valid_date_bounds)
  then have d: "d \<le> u32_max" by (auto simp: days_in_month_def u32_max_def split: if_splits)
  have y: "i32_min \<le> int y" "int y \<le> i32_max" using assms(3) by (simp_all add: i32_min_def i32_max_def)
  have t: "unix_seconds_utc (int y) m d h mi s = Some t"
    unfolding t_def by (rule unix_seconds_utc_Some [OF assms(2) y assms(4-6)])
  note c = parse_clock [OF assms(4-6)] and mon = parse_month_name [OF m]
  note words = imf_words [OF assms(1) m assms(4-6)] rfc850_words [OF assms(1) m assms(4-6)]
    asctime_words [OF assms(1) m assms(4-6)]
  have imf: "parse_imf_fixdate (imf_fixdate w y m d h mi s) = Some t"
    using y d t by (simp add: parse_imf_fixdate_def words(1) seconds_at_def c mon parse_padded)
  have "parse_unsigned u32_max (nat_str d) = Some d"
    using parse_digits(1) [OF nat_str_digits, of d d u32_max] d by simp
  then have asc: "parse_asctime_date (asctime_date w y m d h mi s) = Some t"
    using y t by (simp add: parse_asctime_date_def words(4) seconds_at_def c mon parse_padded)
  have rfc: "parse_rfc850_date (rfc850_date w y m d h mi s) = Some (Some t)" if "1970 \<le> y \<and> y \<le> 2069"
  proof -
    have "century_year (y mod 100) = Some (Some (int y))"
    proof (cases "y < 2000")
      case True
      with that have "y mod 100 = y - 1900" by (simp add: mod_if)
      with True that show ?thesis by (simp add: century_year_def i32_max_def)
    next
      case False
      with that have "y mod 100 = y - 2000" by (simp add: mod_if)
      with False that show ?thesis by (simp add: century_year_def)
    qed
    moreover have "y mod 100 \<le> u32_max" by (rule order_trans [of _ 100]) (simp_all add: u32_max_def)
    ultimately show ?thesis
      using d t by (simp add: parse_rfc850_date_def words(2,3) seconds_at_def c mon parse_padded)
  qed
  have "parse_imf_fixdate (asctime_date w y m d h mi s) = None"
    "parse_rfc850_date (asctime_date w y m d h mi s) = Some None"
    by (simp_all add: parse_imf_fixdate_def parse_rfc850_date_def words(5))
  moreover have "parse_imf_fixdate (rfc850_date w y m d h mi s) = None"
    by (simp add: parse_imf_fixdate_def words(2))
  ultimately show ?thesis
    unfolding Let_def t_def [symmetric] by (simp add: parse_http_date_unix_seconds_def imf asc rfc)
qed

theorem http_dates_denote_witness:
  "parse_http_date_unix_seconds ''Sun, 06 Nov 1994 08:49:37 GMT'' = Some (Some 784111777)"
proof -
  have v: "valid_date (int 1994, int 11, int 6)" by (simp add: valid_date_def month_length_def)
  have d: "day_count (int 1994, int 11, int 6) - day_count (1970, 1, 1) = 9075"
    by (simp add: day_count_def days_before_year_def days_before_month_table leap_year_def)
  have w: "weekday_name ''Sun''" by (simp add: weekday_name_def byte_class)
  have "imf_fixdate ''Sun'' 1994 11 6 8 49 37 = ''Sun, 06 Nov 1994 08:49:37 GMT''" by code_simp
  with http_dates_denote [OF w v, of 8 49 37] d show ?thesis by (simp add: Let_def)
qed

text \<open>
  A server can make the reader overflow: the year of the RFC 850 form is any 32-bit number, and a
  century is added to it without a check, so that a header naming a large year stops a checked
  build.
\<close>

theorem rfc850_century_overflows:
  "parse_http_date_unix_seconds ''x, 01-Jan-2147483647 00:00:00 GMT'' = None
   \<and> retry_after_ms now [(''retry-after'', ''x, 01-Jan-2147483647 00:00:00 GMT'')] = None"
proof -
  let ?raw = "''x, 01-Jan-2147483647 00:00:00 GMT''"
  have "after_comma ?raw = Some ''01-Jan-2147483647 00:00:00 GMT''" by code_simp
  moreover have "split_ascii_whitespace ''01-Jan-2147483647 00:00:00 GMT'' = [''01-Jan-2147483647'', ''00:00:00'', ''GMT'']"
    by code_simp
  moreover have "split_by (\<lambda>c. c = CHR ''-'') ''01-Jan-2147483647'' = [''01'', ''Jan'', ''2147483647'']" by code_simp
  moreover have "digits_val ''2147483647'' = 2147483647" by (simp add: digits_val_def digit_val_def)
  then have "parse_unsigned u32_max ''2147483647'' = Some 2147483647"
    by (intro parse_digits(1)) (simp_all add: byte_class u32_max_def)
  moreover have "parse_unsigned u32_max ''01'' = Some 1" "parse_http_month ''Jan'' = Some 1"
    by (simp add: parse_digits(1) byte_class u32_max_def digits_val_def digit_val_def) code_simp
  moreover have "century_year 2147483647 = None" by (simp add: century_year_def i32_max_def)
  ultimately have p: "parse_http_date_unix_seconds ?raw = None"
    by (simp add: parse_http_date_unix_seconds_def parse_imf_fixdate_def parse_rfc850_date_def)
  have "response_header [(''retry-after'', ?raw)] ''Retry-After'' = Some ?raw" by code_simp
  moreover have "str_trim ?raw = ?raw" by code_simp
  moreover have "parse_unsigned u64_max ?raw = None" by (simp add: parse_unsigned_def parse_int_def starts_with_def byte_class)
  ultimately have "retry_after_ms now [(''retry-after'', ?raw)] = None"
    using p by (simp add: retry_after_ms_def retry_after_http_date_ms_def)
  with p show ?thesis by blast
qed

end
