(* ===== verification/HttpRetry.thy ===== *)
theory HttpRetry
  imports HttpRoute HttpDate
begin

text \<open>
  How the HTTP transport executes a request, \<^verbatim>\<open>crates/franken-snowflake-http/src/lib.rs\<close>: the retry policy
  with its backoff and jitter, the budget of an attempt, decoding of responses, and the loop of
  \<^verbatim>\<open>SnowflakeHttpClient::execute\<close>.

  What is not under \<^verbatim>\<open>src/\<close> is a parameter. The runtime's operations on budgets and the decompressors are
  the fields of \<open>Runtime\<close>. What the runtime answers in one pass of the loop, the
  checkpoints, the ambient budget, the clock, the answer of the HTTP client and how the sleep went, is
  a \<open>Pass\<close>; a run reads one per attempt. A pass holds one cancellation reason, because
  the first point that reads it ends the run. A run yields its events, the requests handed to the
  client and the sleeps, and an outcome; \<^term>\<open>None\<close> is the overflow panic of a \<^verbatim>\<open>Retry-After\<close> date in a
  checked build. Milliseconds and byte counts are natural numbers with the saturation of \<^verbatim>\<open>u64\<close> written
  out, attempts are 32-bit words.

  Lemmas: the loop stops within the attempts and the sleep budget of its policy, repeats one request
  and only a repeatable one, and survives transient failures.
\<close>

section \<open>Backoff\<close>

record RetryPolicy =
  rp_max_attempts :: "32 word"
  rp_base_delay_ms :: nat
  rp_max_delay_ms :: nat
  rp_total_budget_ms :: nat
  rp_respect_retry_after :: bool
  rp_deterministic_jitter :: bool

definition default_retry_policy :: RetryPolicy where
  "default_retry_policy =
     \<lparr>rp_max_attempts = 4, rp_base_delay_ms = 100, rp_max_delay_ms = 2000,
      rp_total_budget_ms = 10000, rp_respect_retry_after = True, rp_deterministic_jitter = True\<rparr>"

text \<open>\<^verbatim>\<open>2_u64.saturating_pow\<close> and \<^verbatim>\<open>u32::to_le_bytes\<close>.\<close>

definition sat_pow2 :: "nat \<Rightarrow> nat" where
  "sat_pow2 n = (if n < 64 then 2 ^ n else u64_max)"

definition to_le_bytes :: "32 word \<Rightarrow> string" where
  "to_le_bytes n = map (\<lambda>k. char_of (unat n div 256 ^ k mod 256)) [0, 1, 2, 3]"

definition deterministic_jitter_ms :: "string option \<Rightarrow> TransportRouteKind \<Rightarrow> 32 word \<Rightarrow> nat" where
  "deterministic_jitter_ms request_id route attempt =
     unat (foldl fnv_byte 0xcbf29ce484222325
       (case_option ''no-request-id'' id request_id @ route_kind_str route @ to_le_bytes attempt)) mod 31"

definition delay_for ::
  "RetryPolicy \<Rightarrow> string option \<Rightarrow> TransportRouteKind \<Rightarrow> 32 word \<Rightarrow> nat option \<Rightarrow> nat \<Rightarrow> nat option" where
  "delay_for policy request_id route attempt retry_after spent =
     (if attempt = 0 \<or> attempt \<ge> rp_max_attempts policy \<or> spent \<ge> rp_total_budget_ms policy then None
      else let from_header = (if rp_respect_retry_after policy then retry_after else None);
               exponential = min (sat_mul u64_max (rp_base_delay_ms policy) (sat_pow2 (unat attempt - 1)))
                               (rp_max_delay_ms policy);
               delay = (case from_header of Some d \<Rightarrow> d | None \<Rightarrow> exponential);
               delay = (if from_header = None \<and> rp_deterministic_jitter policy
                        then sat_add u64_max delay (deterministic_jitter_ms request_id route attempt)
                        else delay);
               remaining = rp_total_budget_ms policy - spent
           in if delay > remaining then None else Some delay)"

record RetryDecision =
  rd_delay :: nat
  rd_spent_after_ms :: nat

definition next_retry ::
  "RetryPolicy \<Rightarrow> string option \<Rightarrow> TransportRouteKind \<Rightarrow> 32 word \<Rightarrow> nat option \<Rightarrow> nat \<Rightarrow> RetryDecision option" where
  "next_retry policy request_id route attempt retry_after spent =
     map_option (\<lambda>delay. \<lparr>rd_delay = delay, rd_spent_after_ms = sat_add u64_max spent delay\<rparr>)
       (delay_for policy request_id route attempt retry_after spent)"

section \<open>Budgets\<close>

record Budget =
  bg_deadline :: "nat option"
  bg_poll_quota :: nat
  bg_cost_quota :: "nat option"

datatype ContentEncoding = Identity | Gzip

text \<open>
  The runtime: the meet of two budgets, the budget without limits, the budget that limits the polls
  alone, and decompression up to a size.
\<close>

record Runtime =
  rt_meet :: "Budget \<Rightarrow> Budget \<Rightarrow> Budget"
  rt_unlimited :: Budget
  rt_poll_quota :: "nat \<Rightarrow> Budget"
  rt_decompress :: "ContentEncoding \<Rightarrow> nat \<Rightarrow> string \<Rightarrow> string option"

definition attempt_budget :: "Runtime \<Rightarrow> RetryPolicy \<Rightarrow> Budget \<Rightarrow> Budget \<Rightarrow> 32 word \<Rightarrow> Budget" where
  "attempt_budget rt policy ambient route_budget attempt =
     (let remaining_attempts = max (unat (rp_max_attempts policy) - (unat attempt - 1)) 1
      in rt_meet rt (rt_meet rt ambient route_budget) (rt_poll_quota rt remaining_attempts))"

definition budget_timeout_at :: "Budget \<Rightarrow> nat \<Rightarrow> nat option" where
  "budget_timeout_at budget now = map_option (\<lambda>deadline. deadline - now) (bg_deadline budget)"

definition budget_exhaustion_reason_at :: "Budget \<Rightarrow> nat \<Rightarrow> CancelKind option" where
  "budget_exhaustion_reason_at budget now =
     (if budget_timeout_at budget now = Some 0 then Some Deadline
      else if bg_poll_quota budget = 0 then Some PollQuota
      else if bg_cost_quota budget = Some 0 then Some CostBudget
      else None)"

fun sooner :: "nat option \<Rightarrow> nat option \<Rightarrow> nat option" where
  "sooner (Some l) (Some r) = Some (min l r)"
| "sooner l None = l"
| "sooner None r = r"

record TransportConfig =
  tc_endpoint :: SnowflakeEndpoint
  tc_limits :: BodyLimits
  tc_retry :: RetryPolicy
  tc_attempt_timeout :: "nat option"
  tc_cancel_attempt_timeout :: "nat option"

definition DEFAULT_ATTEMPT_TIMEOUT :: nat where "DEFAULT_ATTEMPT_TIMEOUT = 300 * 10 ^ 9"
definition DEFAULT_CANCEL_ATTEMPT_TIMEOUT :: nat where "DEFAULT_CANCEL_ATTEMPT_TIMEOUT = 10 * 10 ^ 9"

definition new_transport_config :: "SnowflakeEndpoint \<Rightarrow> TransportConfig" where
  "new_transport_config endpoint =
     \<lparr>tc_endpoint = endpoint, tc_limits = default_body_limits, tc_retry = default_retry_policy,
      tc_attempt_timeout = Some DEFAULT_ATTEMPT_TIMEOUT,
      tc_cancel_attempt_timeout = Some DEFAULT_CANCEL_ATTEMPT_TIMEOUT\<rparr>"

fun attempt_timeout_for :: "TransportConfig \<Rightarrow> TransportRouteKind \<Rightarrow> nat option" where
  "attempt_timeout_for config KindCancel = sooner (tc_attempt_timeout config) (tc_cancel_attempt_timeout config)"
| "attempt_timeout_for config kind = tc_attempt_timeout config"

section \<open>Responses\<close>

record Response =
  rs_status :: nat
  rs_headers :: "(string \<times> string) list"
  rs_body :: string

definition content_encoding_parse :: "string option \<Rightarrow> TransportErrorCode + ContentEncoding" where
  "content_encoding_parse raw =
     (case raw of
        None \<Rightarrow> Inr Identity
      | Some v \<Rightarrow>
          (let v = str_trim v
           in if v = [] \<or> eq_ignore_ascii_case v ''identity'' then Inr Identity
              else if eq_ignore_ascii_case v ''gzip'' then Inr Gzip
              else Inl UnsupportedContentEncoding))"

record CompressionEvidence =
  ce_content_encoding :: ContentEncoding
  ce_compressed_bytes :: nat
  ce_uncompressed_bytes :: nat

record PartitionBody =
  pb_status :: StatusClass
  pb_body :: string
  pb_compression :: CompressionEvidence

definition decode_partition_response ::
  "Runtime \<Rightarrow> BodyLimits \<Rightarrow> Response \<Rightarrow> TransportErrorCode + PartitionBody" where
  "decode_partition_response rt limits response =
     (case content_encoding_parse (response_header (rs_headers response) ''Content-Encoding'') of
        Inl e \<Rightarrow> Inl e
      | Inr encoding \<Rightarrow>
          (let compressed = length (rs_body response)
           in case enforce_partition_sizes limits compressed 0 of
                Inl e \<Rightarrow> Inl e
              | Inr _ \<Rightarrow>
                  (case rt_decompress rt encoding (max_partition_uncompressed_bytes limits) (rs_body response) of
                     None \<Rightarrow> Inl (case encoding of Identity \<Rightarrow> BodyLimitExceeded | Gzip \<Rightarrow> GzipDecodeFailed)
                   | Some decoded \<Rightarrow>
                       map_sum id
                         (\<lambda>_. \<lparr>pb_status = classify_status (rs_status response), pb_body = decoded,
                               pb_compression = \<lparr>ce_content_encoding = encoding,
                                 ce_compressed_bytes = compressed, ce_uncompressed_bytes = length decoded\<rparr>\<rparr>)
                         (enforce_partition_sizes limits compressed (length decoded)))))"

text \<open>The body of a submit, poll or cancel response.\<close>

record HttpResponseBody =
  hb_status :: StatusClass
  hb_body :: string

definition from_response :: "BodyLimits \<Rightarrow> TransportRouteKind \<Rightarrow> Response \<Rightarrow> TransportErrorCode + HttpResponseBody" where
  "from_response limits kind response =
     map_sum id (\<lambda>_. \<lparr>hb_status = classify_status (rs_status response), hb_body = rs_body response\<rparr>)
       (enforce_response_size limits kind (length (rs_body response)))"

section \<open>Planned requests\<close>

record PlannedTransportRequest =
  pl_route :: TransportRoute
  pl_auth :: AuthorizationDescriptor
  pl_body :: string
  pl_retry_resubmit :: bool
  pl_request_id :: "string option"
  pl_budget :: Budget

record SubmitHttpRequest =
  sr_route :: TransportRoute
  sr_auth :: AuthorizationDescriptor
  sr_body :: string
  sr_retry_resubmit :: bool

fun planned_request_id :: "TransportRoute \<Rightarrow> string option" where
  "planned_request_id (SubmitRetry request_id) = Some request_id"
| "planned_request_id (SubmitWithQuery query) = map_of query ''requestId''"
| "planned_request_id route = None"

definition planned_submit :: "Runtime \<Rightarrow> SubmitHttpRequest \<Rightarrow> PlannedTransportRequest" where
  "planned_submit rt request =
     \<lparr>pl_route = sr_route request, pl_auth = sr_auth request, pl_body = sr_body request,
      pl_retry_resubmit = sr_retry_resubmit request,
      pl_request_id = planned_request_id (sr_route request), pl_budget = rt_unlimited rt\<rparr>"

text \<open>A request without a body: poll, partition and cancel.\<close>

definition planned_follow_up :: "AuthorizationDescriptor \<Rightarrow> TransportRoute \<Rightarrow> Budget \<Rightarrow> PlannedTransportRequest" where
  "planned_follow_up auth route budget =
     \<lparr>pl_route = route, pl_auth = auth, pl_body = [], pl_retry_resubmit = False,
      pl_request_id = None, pl_budget = budget\<rparr>"

section \<open>The loop\<close>

datatype 'a TransportOutcome = TOk 'a | TErr SnowflakeErrorCode | TCancelled CancelKind

text \<open>A transport error is mapped to the connector's registry before it is returned.\<close>

abbreviation transport_err :: "TransportErrorCode \<Rightarrow> 'a TransportOutcome" where
  "transport_err code \<equiv> TErr (into_snowflake_code code)"

datatype SendAnswer =
  SendResponse Response | SendCancelled | SendDeadlineExceeded | SendFailed

record Pass =
  ps_checkpoint :: bool
  ps_ambient :: Budget
  ps_now :: nat
  ps_answer :: SendAnswer
  ps_unix_now :: "int option"
  ps_before_sleep :: bool
  ps_slept :: bool
  ps_after_sleep :: bool
  ps_cancel_reason :: "CancelKind option"

datatype Event = Sent WireRequest "nat option" | Slept nat

datatype 'a Turn = Return "'a TransportOutcome" | Again nat | Overflow

definition cancel_reason_or :: "Pass \<Rightarrow> CancelKind \<Rightarrow> CancelKind" where
  "cancel_reason_or pass fallback = case_option fallback id (ps_cancel_reason pass)"

definition wait_retry_delay :: "Pass \<Rightarrow> nat \<Rightarrow> Event list \<times> (CancelKind + unit)" where
  "wait_retry_delay pass delay =
     (if \<not> ps_before_sleep pass then ([], Inl (cancel_reason_or pass ParentCancelled))
      else ([Slept delay],
            if \<not> ps_slept pass then Inl (cancel_reason_or pass Deadline)
            else if \<not> ps_after_sleep pass then Inl (cancel_reason_or pass ParentCancelled)
            else Inr ()))"

text \<open>The sleep before another attempt, or \<open>refused\<close> when the policy grants none.\<close>

definition retry_or ::
  "Pass \<Rightarrow> RetryDecision option \<Rightarrow> 'a TransportOutcome \<Rightarrow> Event list \<times> 'a Turn" where
  "retry_or pass retry refused =
     (case retry of
        None \<Rightarrow> ([], Return refused)
      | Some retry \<Rightarrow>
          (let (events, waited) = wait_retry_delay pass (rd_delay retry)
           in (events, case waited of Inl k \<Rightarrow> Return (TCancelled k)
                                    | Inr _ \<Rightarrow> Again (rd_spent_after_ms retry))))"

definition answer_turn ::
  "RetryPolicy \<Rightarrow> (Response \<Rightarrow> TransportErrorCode + 'a) \<Rightarrow> string option \<Rightarrow> TransportRouteKind
     \<Rightarrow> TransportRoute \<Rightarrow> 32 word \<Rightarrow> nat \<Rightarrow> Pass \<Rightarrow> Event list \<times> 'a Turn" where
  "answer_turn policy from_body request_id kind route attempt spent pass =
     (case ps_answer pass of
        SendResponse response \<Rightarrow>
          (case retry_after_ms (ps_unix_now pass) (rs_headers response) of
             None \<Rightarrow> ([], Overflow)
           | Some retry_after \<Rightarrow>
               if is_retryable_status (rs_status response) then
                 (if \<not> route_allows_automatic_retry route
                  then ([], Return (transport_err NonIdempotentSubmitRetryRefused))
                  else retry_or pass (next_retry policy request_id kind attempt retry_after spent)
                         (transport_err RetryBudgetExhausted))
               else ([], Return (case from_body response of Inr v \<Rightarrow> TOk v | Inl e \<Rightarrow> transport_err e)))
      | SendCancelled \<Rightarrow> ([], Return (TCancelled (cancel_reason_or pass ParentCancelled)))
      | SendDeadlineExceeded \<Rightarrow> ([], Return (TCancelled (cancel_reason_or pass Deadline)))
      | SendFailed \<Rightarrow>
          retry_or pass
            (if route_allows_automatic_retry route
             then next_retry policy request_id kind attempt None spent else None)
            (transport_err NetworkError))"

definition run_pass ::
  "Runtime \<Rightarrow> TransportConfig \<Rightarrow> (Response \<Rightarrow> TransportErrorCode + 'a) \<Rightarrow> PlannedTransportRequest
     \<Rightarrow> TransportRouteKind \<Rightarrow> WireRequest \<Rightarrow> 32 word \<Rightarrow> nat \<Rightarrow> Pass \<Rightarrow> Event list \<times> 'a Turn" where
  "run_pass rt config from_body planned kind wire attempt spent pass =
     (if \<not> ps_checkpoint pass then ([], Return (TCancelled (cancel_reason_or pass ParentCancelled)))
      else let budget = attempt_budget rt (tc_retry config) (ps_ambient pass) (pl_budget planned) attempt
           in case budget_exhaustion_reason_at budget (ps_now pass) of
                Some reason \<Rightarrow> ([], Return (TCancelled reason))
              | None \<Rightarrow>
                  (let timeout = sooner (budget_timeout_at budget (ps_now pass)) (attempt_timeout_for config kind);
                       (events, turn) = answer_turn (tc_retry config) from_body (pl_request_id planned) kind
                                          (wr_route wire) attempt spent pass
                   in (Sent wire timeout # events, turn)))"

definition sat_succ :: "32 word \<Rightarrow> 32 word" where
  "sat_succ attempt = (if attempt = - 1 then attempt else attempt + 1)"

text \<open>Another attempt is granted below the last one only, which is why the loop ends.\<close>

lemma next_retry_Some:
  "next_retry policy request_id kind attempt after spent = Some d \<Longrightarrow>
     0 < attempt \<and> attempt < rp_max_attempts policy
     \<and> spent + rd_delay d \<le> rp_total_budget_ms policy
     \<and> rd_spent_after_ms d = sat_add u64_max spent (rd_delay d)"
  by (auto simp: next_retry_def delay_for_def Let_def word_neq_0_conv split: if_splits)

lemma retry_or_Again:
  "retry_or pass retry refused = (events, Again spent') \<Longrightarrow>
     \<exists>d. retry = Some d \<and> events = [Slept (rd_delay d)] \<and> spent' = rd_spent_after_ms d"
  by (auto simp: retry_or_def wait_retry_delay_def split: option.splits sum.splits if_splits prod.splits)

lemma answer_turn_Again:
  "answer_turn policy from_body request_id kind route attempt spent pass = (events, Again spent') \<Longrightarrow>
     \<exists>after d. next_retry policy request_id kind attempt after spent = Some d
       \<and> events = [Slept (rd_delay d)] \<and> spent' = rd_spent_after_ms d \<and> route_allows_automatic_retry route"
  by (auto simp: answer_turn_def split: SendAnswer.splits option.splits if_splits sum.splits dest!: retry_or_Again)

lemma run_pass_Again:
  assumes "run_pass rt config from_body planned kind wire attempt spent pass = (events, Again spent')"
  shows "\<exists>timeout after d. next_retry (tc_retry config) (pl_request_id planned) kind attempt after spent = Some d
    \<and> events = [Sent wire timeout, Slept (rd_delay d)] \<and> spent' = rd_spent_after_ms d
    \<and> route_allows_automatic_retry (wr_route wire)"
  using assms
  by (auto simp: run_pass_def Let_def split: if_splits option.splits prod.splits dest!: answer_turn_Again)

lemma sat_succ_below:
  assumes "attempt < hi"
  shows "unat (sat_succ attempt) = Suc (unat attempt)"
proof -
  from assms word_n1_ge [of hi] have top: "attempt \<noteq> - 1" by auto
  then have "1 + attempt \<noteq> 0" by (metis add.commute add_eq_0_iff)
  with top unatSuc [of attempt] show ?thesis by (simp add: sat_succ_def add.commute)
qed

function send_loop ::
  "Runtime \<Rightarrow> TransportConfig \<Rightarrow> (Response \<Rightarrow> TransportErrorCode + 'a) \<Rightarrow> PlannedTransportRequest
     \<Rightarrow> TransportRouteKind \<Rightarrow> WireRequest \<Rightarrow> (32 word \<Rightarrow> Pass) \<Rightarrow> 32 word \<Rightarrow> nat
     \<Rightarrow> Event list \<times> 'a TransportOutcome option" where
  "send_loop rt config from_body planned kind wire passes attempt spent =
     (case run_pass rt config from_body planned kind wire attempt spent (passes attempt) of
        (events, Return outcome) \<Rightarrow> (events, Some outcome)
      | (events, Overflow) \<Rightarrow> (events, None)
      | (events, Again spent') \<Rightarrow>
          (let (more, outcome) = send_loop rt config from_body planned kind wire passes (sat_succ attempt) spent'
           in (events @ more, outcome)))"
  by pat_completeness auto

termination
proof (relation "measure (\<lambda>(rt, config, from_body, planned, kind, wire, passes, attempt, spent).
    unat (rp_max_attempts (tc_retry config)) - unat attempt)")
  show "((rt, config, from_body, planned, kind, wire, passes, sat_succ attempt, spent'),
         (rt, config, from_body, planned, kind, wire, passes, attempt, spent))
        \<in> measure (\<lambda>(rt, config, from_body, planned, kind, wire, passes, attempt, spent).
            unat (rp_max_attempts (tc_retry config)) - unat attempt)"
    if "(events, turn) = run_pass rt config from_body planned kind wire attempt spent (passes attempt)"
      "turn = Again spent'"
    for rt config and from_body :: "Response \<Rightarrow> TransportErrorCode + 'a"
      and planned kind wire passes attempt spent events turn spent'
  proof -
    from that run_pass_Again [of rt config from_body planned kind wire attempt spent "passes attempt" events spent']
    have "attempt < rp_max_attempts (tc_retry config)" by (auto dest!: next_retry_Some)
    moreover from this have "unat attempt < unat (rp_max_attempts (tc_retry config))"
      by (simp add: word_less_nat_alt)
    ultimately show ?thesis using sat_succ_below [of attempt "rp_max_attempts (tc_retry config)"] by simp
  qed
qed simp_all

declare send_loop.simps [simp del]

definition execute ::
  "Runtime \<Rightarrow> TransportConfig \<Rightarrow> string \<Rightarrow> (Response \<Rightarrow> TransportErrorCode + 'a) \<Rightarrow> PlannedTransportRequest
     \<Rightarrow> TransportRouteKind \<Rightarrow> (32 word \<Rightarrow> Pass) \<Rightarrow> Event list \<times> 'a TransportOutcome option" where
  "execute rt config user_agent from_body planned kind passes =
     (case wire_request user_agent (tc_endpoint config) (tc_limits config) (route_kind_method kind)
             (pl_route planned) (pl_body planned) (pl_auth planned) (pl_retry_resubmit planned) of
        Inl e \<Rightarrow> ([], Some (transport_err e))
      | Inr wire \<Rightarrow> send_loop rt config from_body planned kind wire passes 1 0)"

section \<open>The operations of the client\<close>

definition submit_statement where
  "submit_statement rt config user_agent request passes =
     execute rt config user_agent (from_response (tc_limits config) KindSubmit)
       (planned_submit rt request) KindSubmit passes"

definition poll_statement where
  "poll_statement rt config user_agent auth handle passes =
     execute rt config user_agent (from_response (tc_limits config) KindPoll)
       (planned_follow_up auth (Poll handle) (rt_unlimited rt)) KindPoll passes"

definition fetch_partition where
  "fetch_partition rt config user_agent auth handle n budget passes =
     execute rt config user_agent (decode_partition_response rt (tc_limits config))
       (planned_follow_up auth (Partition handle n) budget) KindPartition passes"

definition cancel_statement where
  "cancel_statement rt config user_agent auth handle passes =
     execute rt config user_agent (from_response (tc_limits config) KindCancel)
       (planned_follow_up auth (Cancel handle) (rt_unlimited rt)) KindCancel passes"

section \<open>What a run does\<close>

fun sends :: "Event list \<Rightarrow> nat" where
  "sends [] = 0"
| "sends (Sent wire timeout # events) = Suc (sends events)"
| "sends (Slept delay # events) = sends events"

fun slept :: "Event list \<Rightarrow> nat" where
  "slept [] = 0"
| "slept (Sent wire timeout # events) = slept events"
| "slept (Slept delay # events) = delay + slept events"

definition within :: "nat option \<Rightarrow> nat option \<Rightarrow> bool" where
  "within limit timeout \<longleftrightarrow> (\<forall>l. limit = Some l \<longrightarrow> (\<exists>t. timeout = Some t \<and> t \<le> l))"

text \<open>All requests of a run are \<open>wire\<close>, sent under the timeout of its kind.\<close>

definition sends_only :: "WireRequest \<Rightarrow> nat option \<Rightarrow> Event list \<Rightarrow> bool" where
  "sends_only wire limit events \<longleftrightarrow>
     list_all (\<lambda>e. case e of Sent w timeout \<Rightarrow> w = wire \<and> within limit timeout | Slept _ \<Rightarrow> True) events"

lemma sends_append [simp]: "sends (a @ b) = sends a + sends b"
  by (induction a rule: sends.induct) auto

lemma slept_append [simp]: "slept (a @ b) = slept a + slept b"
  by (induction a rule: slept.induct) auto

lemma sends_only_append [simp]: "sends_only w l (a @ b) \<longleftrightarrow> sends_only w l a \<and> sends_only w l b"
  by (simp add: sends_only_def)

lemma sends_only_Nil [simp]: "sends_only w l []"
  by (simp add: sends_only_def)

lemma sends_only_Cons [simp]:
  "sends_only w l (Sent v timeout # events) \<longleftrightarrow> v = w \<and> within l timeout \<and> sends_only w l events"
  "sends_only w l (Slept delay # events) \<longleftrightarrow> sends_only w l events"
  by (auto simp: sends_only_def)

lemma within_sooner: "within limit (sooner timeout limit)"
  by (cases timeout; cases limit) (auto simp: within_def)

lemma retry_or_events:
  assumes "retry_or pass retry refused = (events, turn)"
  shows "sends events = 0 \<and> sends_only w l events
    \<and> (events = [] \<or> (\<exists>d. retry = Some d \<and> slept events = rd_delay d))"
  using assms
  by (auto simp: retry_or_def wait_retry_delay_def sends_only_def split: option.splits if_splits)

lemma answer_turn_events:
  assumes "answer_turn policy from_body request_id kind route attempt spent pass = (events, turn)"
  shows "sends events = 0 \<and> sends_only w l events
    \<and> (events = [] \<or> route_allows_automatic_retry route \<and> spent + slept events \<le> rp_total_budget_ms policy)"
  using assms
  by (auto simp: answer_turn_def split: SendAnswer.splits option.splits if_splits
      dest!: next_retry_Some dest: retry_or_events [where w = w and l = l])

lemma run_pass_events:
  assumes "run_pass rt config from_body planned kind wire attempt spent pass = (events, turn)"
  shows "sends events \<le> 1" "sends_only wire (attempt_timeout_for config kind) events"
    "slept events = 0
     \<or> route_allows_automatic_retry (wr_route wire) \<and> spent + slept events \<le> rp_total_budget_ms (tc_retry config)"
proof -
  have ans: "sends es = 0 \<and> sends_only wire (attempt_timeout_for config kind) es
      \<and> (es = [] \<or> route_allows_automatic_retry (wr_route wire)
           \<and> spent + slept es \<le> rp_total_budget_ms (tc_retry config))"
    if "answer_turn (tc_retry config) from_body (pl_request_id planned) kind (wr_route wire) attempt spent pass
        = (es, t)" for es t
    using answer_turn_events [OF that] .
  have "events = [] \<or> (\<exists>b es t. events = Sent wire (sooner b (attempt_timeout_for config kind)) # es
      \<and> answer_turn (tc_retry config) from_body (pl_request_id planned) kind (wr_route wire) attempt spent pass = (es, t))"
    using assms by (auto simp: run_pass_def Let_def split: if_splits option.splits prod.splits)
  then show "sends events \<le> 1" "sends_only wire (attempt_timeout_for config kind) events"
    "slept events = 0
     \<or> route_allows_automatic_retry (wr_route wire) \<and> spent + slept events \<le> rp_total_budget_ms (tc_retry config)"
    by (auto simp: sends_only_def within_sooner dest!: ans)
qed

lemma send_loop_bounds:
  assumes "rp_total_budget_ms (tc_retry config) \<le> u64_max" and "spent \<le> rp_total_budget_ms (tc_retry config)"
    and "send_loop rt config from_body planned kind wire passes attempt spent = (events, outcome)"
  shows "sends events \<le> max 1 (Suc (unat (rp_max_attempts (tc_retry config))) - unat attempt)
    \<and> spent + slept events \<le> rp_total_budget_ms (tc_retry config)
    \<and> sends_only wire (attempt_timeout_for config kind) events
    \<and> (\<not> route_allows_automatic_retry (wr_route wire) \<longrightarrow> sends events \<le> 1 \<and> slept events = 0)"
  using assms
proof (induction rt config from_body planned kind wire passes attempt spent
    arbitrary: events outcome rule: send_loop.induct)
  case (1 rt config from_body planned kind wire passes attempt spent)
  let ?hi = "rp_max_attempts (tc_retry config)"
  obtain es turn where pass: "run_pass rt config from_body planned kind wire attempt spent (passes attempt) = (es, turn)"
    by fastforce
  note ev = run_pass_events [OF pass]
  show ?case
  proof (cases turn)
    case (Again spent')
    with pass run_pass_Again obtain timeout after d where retry:
      "next_retry (tc_retry config) (pl_request_id planned) kind attempt after spent = Some d"
      "es = [Sent wire timeout, Slept (rd_delay d)]" "spent' = rd_spent_after_ms d"
      "route_allows_automatic_retry (wr_route wire)"
      by (metis (no_types, lifting))
    note d = next_retry_Some [OF retry(1)]
    from d 1(2) have spent': "spent' = spent + rd_delay d" by (simp add: retry(3) sat_add_def)
    obtain more where more:
      "send_loop rt config from_body planned kind wire passes (sat_succ attempt) spent' = (more, outcome)"
      "events = es @ more"
      using 1(4) pass Again by (subst (asm) send_loop.simps) (auto split: prod.splits)
    have le: "spent' \<le> rp_total_budget_ms (tc_retry config)" using d spent' by simp
    from d have "unat attempt < unat ?hi" by (simp add: word_less_nat_alt)
    with 1(1) [OF pass [symmetric] Again [THEN trans, OF refl] 1(2) le more(1)] ev retry(2,4) spent'
      sat_succ_below [of attempt ?hi] d
    show ?thesis by (auto simp: more(2))
  next
    case (Return r)
    with 1(4) pass have "events = es" by (subst (asm) send_loop.simps) simp
    with ev 1(3) show ?thesis by auto
  next
    case Overflow
    with 1(4) pass have "events = es" by (subst (asm) send_loop.simps) simp
    with ev 1(3) show ?thesis by auto
  qed
qed

lemma execute_bounds:
  assumes "rp_total_budget_ms (tc_retry config) \<le> u64_max"
    and "execute rt config user_agent from_body planned kind passes = (events, outcome)"
  shows "events = [] \<or> (\<exists>wire.
      wire_request user_agent (tc_endpoint config) (tc_limits config) (route_kind_method kind)
        (pl_route planned) (pl_body planned) (pl_auth planned) (pl_retry_resubmit planned) = Inr wire
      \<and> wr_route wire = pl_route planned
      \<and> sends events \<le> max 1 (unat (rp_max_attempts (tc_retry config)))
      \<and> slept events \<le> rp_total_budget_ms (tc_retry config)
      \<and> sends_only wire (attempt_timeout_for config kind) events
      \<and> (\<not> route_allows_automatic_retry (pl_route planned) \<longrightarrow> sends events \<le> 1 \<and> slept events = 0))"
proof (cases "wire_request user_agent (tc_endpoint config) (tc_limits config) (route_kind_method kind)
        (pl_route planned) (pl_body planned) (pl_auth planned) (pl_retry_resubmit planned)")
  case (Inr wire)
  moreover from Inr have "wr_route wire = pl_route planned"
    by (auto simp: wire_request_def map_sum_Inr split: sum.splits if_splits)
  ultimately show ?thesis
    using send_loop_bounds [of config 0 rt from_body planned kind wire passes 1 events outcome] assms
    by (simp add: execute_def)
qed (use assms in \<open>simp add: execute_def\<close>)

section \<open>Transient failures\<close>

definition may_send :: "Runtime \<Rightarrow> TransportConfig \<Rightarrow> PlannedTransportRequest \<Rightarrow> 32 word \<Rightarrow> Pass \<Rightarrow> bool" where
  "may_send rt config planned attempt pass \<longleftrightarrow>
     ps_checkpoint pass
     \<and> budget_exhaustion_reason_at
          (attempt_budget rt (tc_retry config) (ps_ambient pass) (pl_budget planned) attempt) (ps_now pass) = None"

text \<open>A lost connection, an overload or a server error, without advice on when to come back.\<close>

definition transient_failure :: "Pass \<Rightarrow> bool" where
  "transient_failure pass \<longleftrightarrow>
     ps_before_sleep pass \<and> ps_slept pass \<and> ps_after_sleep pass
     \<and> (case ps_answer pass of
          SendFailed \<Rightarrow> True
        | SendResponse r \<Rightarrow> is_retryable_status (rs_status r) \<and> response_header (rs_headers r) ''Retry-After'' = None
        | _ \<Rightarrow> False)"

definition answered :: "(Response \<Rightarrow> TransportErrorCode + 'a) \<Rightarrow> Pass \<Rightarrow> 'a \<Rightarrow> bool" where
  "answered from_body pass v \<longleftrightarrow>
     (\<exists>r. ps_answer pass = SendResponse r \<and> \<not> is_retryable_status (rs_status r)
          \<and> response_header (rs_headers r) ''Retry-After'' = None \<and> from_body r = Inr v)"

lemma no_retry_after: "response_header headers ''Retry-After'' = None \<Longrightarrow> retry_after_ms now headers = Some None"
  by (simp add: retry_after_ms_def)

lemma run_pass_transient:
  assumes "may_send rt config planned attempt pass" and "transient_failure pass"
    and "route_allows_automatic_retry (wr_route wire)"
    and "next_retry (tc_retry config) (pl_request_id planned) kind attempt None spent = Some d"
  shows "\<exists>timeout. run_pass rt config from_body planned kind wire attempt spent pass
    = ([Sent wire timeout, Slept (rd_delay d)], Again (rd_spent_after_ms d))"
  using assms
  by (auto simp: run_pass_def may_send_def transient_failure_def answer_turn_def retry_or_def
      wait_retry_delay_def no_retry_after Let_def split: SendAnswer.splits)

lemma run_pass_answered:
  assumes "may_send rt config planned attempt pass" and "answered from_body pass v"
  shows "\<exists>timeout. run_pass rt config from_body planned kind wire attempt spent pass
    = ([Sent wire timeout], Return (TOk v))"
  using assms
  by (auto simp: run_pass_def may_send_def answered_def answer_turn_def no_retry_after Let_def)

lemma jitter_small: "deterministic_jitter_ms request_id kind attempt \<le> 30"
proof -
  have "deterministic_jitter_ms request_id kind attempt < 31" by (simp add: deterministic_jitter_ms_def)
  then show ?thesis by simp
qed

lemma default_delay:
  assumes "k < 3" and "spent \<le> 430 * k"
  shows "\<exists>d. next_retry default_retry_policy request_id kind (of_nat (Suc k)) None spent = Some d
    \<and> rd_delay d \<le> 430 \<and> rd_spent_after_ms d = spent + rd_delay d"
proof -
  from assms(1) have k: "k = 0 \<or> k = 1 \<or> k = 2" by auto
  obtain a :: "32 word" where a: "a = of_nat (Suc k)" by blast
  let ?j = "deterministic_jitter_ms request_id kind a"
  obtain e where e_def: "e = min (sat_mul u64_max 100 (sat_pow2 k)) 2000" by blast
  from k have e: "e \<le> 400" by (auto simp: e_def sat_mul_def sat_pow2_def)
  have big: "10000 \<le> u64_max" by (simp add: u64_max_def)
  from k have w: "unat a - 1 = k" "a \<noteq> 0" "\<not> 4 \<le> a" by (auto simp: a word_le_nat_alt)
  from jitter_small [of request_id kind a] e big
  have sum: "sat_add u64_max e ?j = e + ?j" "e + ?j \<le> 430" by (simp_all add: sat_add_def)
  from assms k have room: "spent \<le> 860" by auto
  have "delay_for default_retry_policy request_id kind a None spent = Some (e + ?j)"
    using w(2,3) sum room unfolding delay_for_def
    by (simp add: default_retry_policy_def w(1) [unfolded One_nat_def] e_def [symmetric] Let_def)
  moreover have "sat_add u64_max spent (e + ?j) = spent + (e + ?j)"
    using sum(2) room big by (simp add: sat_add_def)
  ultimately show ?thesis using sum(2) by (simp add: next_retry_def a)
qed

lemma send_loop_survives:
  assumes "tc_retry config = default_retry_policy" and "route_allows_automatic_retry (wr_route wire)" and "n < 4"
    and "\<And>k. k \<le> n \<Longrightarrow> may_send rt config planned (of_nat (Suc k)) (passes (of_nat (Suc k)))"
    and "\<And>k. k < n \<Longrightarrow> transient_failure (passes (of_nat (Suc k)))"
    and "answered from_body (passes (of_nat (Suc n))) v"
    and "k + m = n" and "spent \<le> 430 * k"
  shows "\<exists>events. send_loop rt config from_body planned kind wire passes (of_nat (Suc k)) spent = (events, Some (TOk v))
    \<and> sends events = Suc m"
  using assms(7,8)
proof (induction m arbitrary: k spent)
  case 0
  from 0 run_pass_answered [OF assms(4) [of n] assms(6), of kind wire spent] show ?case
    by (subst send_loop.simps) auto
next
  case (Suc m)
  from Suc.prems(1) assms(3) have k: "k < 3" "k < n" by auto
  from default_delay [OF k(1) Suc.prems(2)] assms(1) obtain d where d:
    "next_retry (tc_retry config) (pl_request_id planned) kind (of_nat (Suc k)) None spent = Some d"
    "rd_delay d \<le> 430" "rd_spent_after_ms d = spent + rd_delay d" by metis
  from run_pass_transient [OF assms(4) [of k] assms(5) [of k] assms(2) d(1)] k(2) obtain timeout where
    pass: "run_pass rt config from_body planned kind wire (of_nat (Suc k)) spent (passes (of_nat (Suc k)))
      = ([Sent wire timeout, Slept (rd_delay d)], Again (spent + rd_delay d))" using d(3) by auto
  from k(1) have "k = 0 \<or> k = 1 \<or> k = 2" by auto
  then have succ: "sat_succ (of_nat (Suc k)) = of_nat (Suc (Suc k))" by (auto simp: sat_succ_def)
  from Suc.IH [of "Suc k" "spent + rd_delay d"] Suc.prems d(2) obtain events where
    "send_loop rt config from_body planned kind wire passes (of_nat (Suc (Suc k))) (spent + rd_delay d)
      = (events, Some (TOk v))" "sends events = Suc m" by auto
  with pass show ?case by (subst send_loop.simps) (simp only: succ, simp)
qed

lemma execute_survives:
  assumes "tc_retry config = default_retry_policy" and "route_allows_automatic_retry (pl_route planned)"
    and "wire_request user_agent (tc_endpoint config) (tc_limits config) (route_kind_method kind)
        (pl_route planned) (pl_body planned) (pl_auth planned) (pl_retry_resubmit planned) = Inr wire"
    and "n < 4"
    and "\<And>k. k \<le> n \<Longrightarrow> may_send rt config planned (of_nat (Suc k)) (passes (of_nat (Suc k)))"
    and "\<And>k. k < n \<Longrightarrow> transient_failure (passes (of_nat (Suc k)))"
    and "answered from_body (passes (of_nat (Suc n))) v"
  shows "\<exists>events. execute rt config user_agent from_body planned kind passes = (events, Some (TOk v))
    \<and> sends events = Suc n"
proof -
  from assms(3) have "wr_route wire = pl_route planned"
    by (auto simp: wire_request_def map_sum_Inr split: sum.splits if_splits)
  with send_loop_survives [OF assms(1) _ assms(4-7), of wire 0 n 0 kind] assms(2,3) show ?thesis
    by (simp add: execute_def)
qed

section \<open>A run\<close>

text \<open>A runtime whose budgets meet field by field, a retried submit, and a server that is down twice.\<close>

definition sample_runtime :: Runtime where
  "sample_runtime =
     \<lparr>rt_meet = (\<lambda>a b. \<lparr>bg_deadline = sooner (bg_deadline a) (bg_deadline b),
                          bg_poll_quota = min (bg_poll_quota a) (bg_poll_quota b),
                          bg_cost_quota = sooner (bg_cost_quota a) (bg_cost_quota b)\<rparr>),
      rt_unlimited = \<lparr>bg_deadline = None, bg_poll_quota = 100, bg_cost_quota = None\<rparr>,
      rt_poll_quota = (\<lambda>n. \<lparr>bg_deadline = None, bg_poll_quota = n, bg_cost_quota = None\<rparr>),
      rt_decompress = (\<lambda>_ limit s. if length s \<le> limit then Some s else None)\<rparr>"

definition sample_config :: TransportConfig where
  "sample_config = new_transport_config
     \<lparr>ep_base_url = ''https://xy1.snowflakecomputing.com'', ep_host = ''xy1.snowflakecomputing.com''\<rparr>"

definition sample_request :: SubmitHttpRequest where
  "sample_request = \<lparr>sr_route = SubmitRetry ''r1'', sr_auth = sample_auth, sr_body = ''{}'', sr_retry_resubmit = False\<rparr>"

definition sample_response :: "nat \<Rightarrow> Response" where
  "sample_response status = \<lparr>rs_status = status, rs_headers = [], rs_body = ''{}''\<rparr>"

definition sample_pass :: "SendAnswer \<Rightarrow> Pass" where
  "sample_pass answer =
     \<lparr>ps_checkpoint = True, ps_ambient = rt_unlimited sample_runtime, ps_now = 0, ps_answer = answer,
      ps_unix_now = None, ps_before_sleep = True, ps_slept = True, ps_after_sleep = True,
      ps_cancel_reason = None\<rparr>"

definition sample_passes :: "32 word \<Rightarrow> Pass" where
  "sample_passes attempt =
     sample_pass (if attempt = 1 then SendFailed
                  else if attempt = 2 then SendResponse (sample_response 503)
                  else SendResponse (sample_response 200))"

abbreviation sample_planned :: PlannedTransportRequest where
  "sample_planned \<equiv> planned_submit sample_runtime sample_request"

abbreviation sample_decode :: "Response \<Rightarrow> TransportErrorCode + HttpResponseBody" where
  "sample_decode \<equiv> from_response (tc_limits sample_config) KindSubmit"

lemma sample_wire: "\<exists>wire. wire_request ''fs/1'' (tc_endpoint sample_config) (tc_limits sample_config)
  (route_kind_method KindSubmit) (pl_route sample_planned) (pl_body sample_planned) (pl_auth sample_planned)
  (pl_retry_resubmit sample_planned) = Inr wire"
proof -
  have "list_all (\<lambda>(name, v). is_header_name name \<and> is_header_value v)
      (wire_header_list ''fs/1'' sample_auth KindSubmit Post)" by code_simp
  then show ?thesis
    by (intro wire_request_total)
      (simp_all add: planned_submit_def sample_request_def sample_config_def new_transport_config_def
        enforce_def default_body_limits_def)
qed

lemma sample_facts:
  "tc_retry sample_config = default_retry_policy" "route_allows_automatic_retry (pl_route sample_planned)"
  "may_send sample_runtime sample_config sample_planned attempt (sample_passes attempt)"
  "k < 2 \<Longrightarrow> transient_failure (sample_passes (of_nat (Suc k)))"
  "answered sample_decode (sample_passes (of_nat (Suc 2))) \<lparr>hb_status = StatusCompleted, hb_body = ''{}''\<rparr>"
proof -
  show "tc_retry sample_config = default_retry_policy"
    by (simp add: sample_config_def new_transport_config_def)
  show "route_allows_automatic_retry (pl_route sample_planned)"
    by (simp add: planned_submit_def sample_request_def route_allows_automatic_retry_def)
  show "may_send sample_runtime sample_config sample_planned attempt (sample_passes attempt)"
    by (simp add: may_send_def sample_passes_def sample_pass_def planned_submit_def attempt_budget_def
        budget_exhaustion_reason_at_def budget_timeout_at_def sample_runtime_def Let_def)
  show "transient_failure (sample_passes (of_nat (Suc k)))" if "k < 2"
  proof -
    from that have "k = 0 \<or> k = 1" by auto
    then show ?thesis
      by (auto simp: transient_failure_def sample_passes_def sample_pass_def sample_response_def
          is_retryable_status_def classify_status_def response_header_def)
  qed
  show "answered sample_decode (sample_passes (of_nat (Suc 2))) \<lparr>hb_status = StatusCompleted, hb_body = ''{}''\<rparr>"
    by (simp add: answered_def sample_passes_def sample_pass_def sample_response_def is_retryable_status_def
        classify_status_def response_header_def from_response_def enforce_response_size_def
        sample_config_def new_transport_config_def default_body_limits_def)
qed

lemma sample_run:
  "\<exists>events. execute sample_runtime sample_config ''fs/1'' sample_decode sample_planned KindSubmit sample_passes
     = (events, Some (TOk \<lparr>hb_status = StatusCompleted, hb_body = ''{}''\<rparr>)) \<and> sends events = 3"
proof -
  from sample_wire obtain wire where wire: "wire_request ''fs/1'' (tc_endpoint sample_config) (tc_limits sample_config)
    (route_kind_method KindSubmit) (pl_route sample_planned) (pl_body sample_planned) (pl_auth sample_planned)
    (pl_retry_resubmit sample_planned) = Inr wire" ..
  show ?thesis using execute_survives [OF sample_facts(1,2) wire, of 2, OF _ sample_facts(3-5)] by simp
qed

lemma sample_budget: "rp_total_budget_ms (tc_retry sample_config) \<le> u64_max"
  by (simp add: sample_facts(1) default_retry_policy_def u64_max_def)

section \<open>The properties\<close>

text \<open>
  C22. An execution is bounded. Whatever the runtime and the server answer, it hands the client at most
  the attempts of its policy, one if the policy has none, each time the same request and under the
  timeout of its kind; the sleeps it asks for add up to no more than the total budget of the policy.
\<close>

theorem execution_is_bounded:
  assumes "rp_total_budget_ms (tc_retry config) \<le> u64_max"
    and "execute rt config user_agent from_body planned kind passes = (events, outcome)"
  shows "sends events \<le> max 1 (unat (rp_max_attempts (tc_retry config)))
    \<and> slept events \<le> rp_total_budget_ms (tc_retry config)
    \<and> (\<exists>wire. sends_only wire (attempt_timeout_for config kind) events)"
  using execute_bounds [OF assms] by auto

theorem execution_is_bounded_witness:
  "\<exists>events outcome. execute sample_runtime sample_config ''fs/1'' sample_decode sample_planned KindSubmit sample_passes
     = (events, outcome) \<and> sends events \<le> 4 \<and> slept events \<le> 10000"
proof -
  from sample_run obtain events outcome where run:
    "execute sample_runtime sample_config ''fs/1'' sample_decode sample_planned KindSubmit sample_passes
       = (events, outcome)" by blast
  with execution_is_bounded [OF sample_budget run] show ?thesis
    by (simp add: sample_facts(1) default_retry_policy_def)
qed

text \<open>
  C8. What is sent twice can be sent twice. If a run hands more than one request to the client, the
  request is a poll, a partition or a cancel, or its URL carries a request identifier and
  \<^verbatim>\<open>retry=true\<close>, read as the server reads it; a submit without them is sent once and never waits.
\<close>

theorem resent_requests_are_repeatable:
  assumes "rp_total_budget_ms (tc_retry config) \<le> u64_max"
    and "execute rt config user_agent from_body planned kind passes = (events, outcome)"
    and "1 < sends events \<or> 0 < slept events"
  shows "\<exists>wire target. sends_only wire (attempt_timeout_for config kind) events
    \<and> wr_url wire = ep_base_url (tc_endpoint config) @ target
    \<and> (route_kind (pl_route planned) \<noteq> KindSubmit
       \<or> (\<exists>request_id. (''requestId'', request_id) \<in> set (snd (read_target target))
            \<and> (''retry'', ''true'') \<in> set (snd (read_target target))))"
proof -
  from assms(3) have "events \<noteq> []" by auto
  with execute_bounds [OF assms(1,2)] obtain wire where wire:
    "wire_request user_agent (tc_endpoint config) (tc_limits config) (route_kind_method kind)
        (pl_route planned) (pl_body planned) (pl_auth planned) (pl_retry_resubmit planned) = Inr wire"
    "sends_only wire (attempt_timeout_for config kind) events"
    "\<not> route_allows_automatic_retry (pl_route planned) \<longrightarrow> sends events \<le> 1 \<and> slept events = 0"
    by blast
  from wire(3) assms(3) have allowed: "route_allows_automatic_retry (pl_route planned)" by auto
  have "route_kind (pl_route planned) \<noteq> KindSubmit
       \<or> (\<exists>request_id. (''requestId'', request_id) \<in> set (snd (route_target (pl_route planned)))
            \<and> (''retry'', ''true'') \<in> set (snd (route_target (pl_route planned))))"
    using allowed
    by (cases "pl_route planned")
      (auto simp: route_allows_automatic_retry_def submit_query_has_retry_contract_def list_ex_iff)
  moreover have "wr_url wire = ep_base_url (tc_endpoint config) @ path_and_query (pl_route planned)"
    using wire_request_Inr(1) [OF wire(1)] by (simp add: route_url_def)
  ultimately show ?thesis using wire(2) unfolding route_target_read [symmetric] by blast
qed

theorem resent_requests_are_repeatable_witness:
  "\<exists>target request_id. (''requestId'', request_id) \<in> set (snd (read_target target))
     \<and> (''retry'', ''true'') \<in> set (snd (read_target target))"
proof -
  from sample_run obtain events outcome where run:
    "execute sample_runtime sample_config ''fs/1'' sample_decode sample_planned KindSubmit sample_passes
       = (events, outcome)" "1 < sends events" by fastforce
  from resent_requests_are_repeatable [OF sample_budget run(1)] run(2) show ?thesis
    by (auto simp: planned_submit_def sample_request_def)
qed



lemma run_pass_ok:
  assumes "run_pass rt config from_body planned kind wire attempt spent pass = (events, Return (TOk v))"
  shows "sends events = 1" "\<exists>r. ps_answer pass = SendResponse r \<and> \<not> is_retryable_status (rs_status r) \<and> from_body r = Inr v"
  using assms
  by (auto simp: run_pass_def answer_turn_def retry_or_def wait_retry_delay_def Let_def
      split: if_splits option.splits prod.splits SendAnswer.splits sum.splits)

lemma run_pass_again_answer:
  assumes "run_pass rt config from_body planned kind wire attempt spent pass = (events, Again spent')"
  shows "ps_answer pass = SendFailed \<or> (\<exists>r. ps_answer pass = SendResponse r \<and> is_retryable_status (rs_status r))"
  using assms
  by (auto simp: run_pass_def answer_turn_def Let_def
      split: if_splits option.splits prod.splits SendAnswer.splits)

lemma send_loop_ok:
  assumes "send_loop rt config from_body planned kind wire passes attempt spent = (events, Some (TOk v))"
  shows "\<exists>n. sends events = Suc n
    \<and> (\<exists>r. ps_answer (passes (attempt + of_nat n)) = SendResponse r \<and> \<not> is_retryable_status (rs_status r)
            \<and> from_body r = Inr v)
    \<and> (\<forall>k < n. ps_answer (passes (attempt + of_nat k)) = SendFailed
         \<or> (\<exists>r. ps_answer (passes (attempt + of_nat k)) = SendResponse r \<and> is_retryable_status (rs_status r)))"
  using assms
proof (induction rt config from_body planned kind wire passes attempt spent
    arbitrary: events rule: send_loop.induct)
  case (1 rt config from_body planned kind wire passes attempt spent)
  obtain es turn where pass: "run_pass rt config from_body planned kind wire attempt spent (passes attempt) = (es, turn)"
    by fastforce
  show ?case
  proof (cases turn)
    case (Again spent')
    from run_pass_Again [OF pass [unfolded Again]] have es: "sends es = 1"
      and lt: "attempt < rp_max_attempts (tc_retry config)" by (auto dest: next_retry_Some)
    from 1(2) pass Again obtain more where more:
      "send_loop rt config from_body planned kind wire passes (sat_succ attempt) spent' = (more, Some (TOk v))"
      "events = es @ more"
      by (subst (asm) send_loop.simps) (auto split: prod.splits)
    have succ: "sat_succ attempt = attempt + 1"
      using sat_succ_below [OF lt] by (auto simp: sat_succ_def split: if_splits)
    from 1(1) [OF pass [symmetric] Again more(1)] obtain n where n: "sends more = Suc n"
      "\<exists>r. ps_answer (passes (attempt + 1 + of_nat n)) = SendResponse r \<and> \<not> is_retryable_status (rs_status r)
            \<and> from_body r = Inr v"
      "\<forall>k < n. ps_answer (passes (attempt + 1 + of_nat k)) = SendFailed
         \<or> (\<exists>r. ps_answer (passes (attempt + 1 + of_nat k)) = SendResponse r \<and> is_retryable_status (rs_status r))"
      unfolding succ by blast
    have "\<forall>k < Suc n. ps_answer (passes (attempt + of_nat k)) = SendFailed
         \<or> (\<exists>r. ps_answer (passes (attempt + of_nat k)) = SendResponse r \<and> is_retryable_status (rs_status r))"
      using n(3) run_pass_again_answer [OF pass [unfolded Again]]
      by (auto simp: less_Suc_eq_0_disj add.assoc)
    with n(1,2) es show ?thesis by (intro exI [of _ "Suc n"]) (simp add: more(2) add.assoc)
  next
    case (Return r)
    with 1(2) pass have "events = es" "r = TOk v" by (subst (asm) send_loop.simps; simp)+
    with run_pass_ok [of rt config from_body planned kind wire attempt spent "passes attempt" es v] pass Return
    show ?thesis by (intro exI [of _ 0]) simp
  next
    case Overflow
    with 1(2) pass show ?thesis by (subst (asm) send_loop.simps) simp
  qed
qed

text \<open>
  A value is the last answer. If an execution returns a value, that value is what the decoder makes
  of the response to its last request, a response whose status is not one to retry; every request
  before it failed on the way or was answered with a status to retry, and no other request was sent.
\<close>

theorem value_is_last_answer:
  assumes "execute rt config user_agent from_body planned kind passes = (events, Some (TOk v))"
  shows "\<exists>n. sends events = Suc n
    \<and> (\<exists>r. ps_answer (passes (of_nat (Suc n))) = SendResponse r \<and> \<not> is_retryable_status (rs_status r)
            \<and> from_body r = Inr v)
    \<and> (\<forall>k < n. ps_answer (passes (of_nat (Suc k))) = SendFailed
         \<or> (\<exists>r. ps_answer (passes (of_nat (Suc k))) = SendResponse r \<and> is_retryable_status (rs_status r)))"
proof -
  from assms obtain wire where
    "send_loop rt config from_body planned kind wire passes 1 0 = (events, Some (TOk v))"
    by (auto simp: execute_def split: sum.splits)
  from send_loop_ok [OF this] show ?thesis by simp
qed

theorem value_is_last_answer_witness:
  "ps_answer (sample_passes (of_nat (Suc 2))) = SendResponse (sample_response 200)
   \<and> (\<exists>events v. execute sample_runtime sample_config ''fs/1'' sample_decode sample_planned KindSubmit sample_passes
         = (events, Some (TOk v)) \<and> sends events = Suc 2 \<and> sample_decode (sample_response 200) = Inr v)"
proof -
  from sample_run obtain events v where run:
    "execute sample_runtime sample_config ''fs/1'' sample_decode sample_planned KindSubmit sample_passes
       = (events, Some (TOk v))" "sends events = 3" by blast
  have ans: "ps_answer (sample_passes (of_nat (Suc 2))) = SendResponse (sample_response 200)"
    by (simp add: sample_passes_def sample_pass_def)
  from value_is_last_answer [OF run(1)] run(2) ans have "sample_decode (sample_response 200) = Inr v" by auto
  with run ans show ?thesis by auto
qed

end
