(* ===== verification/Driver.thy ===== *)
theory Driver
  imports Lifecycle HttpStream WriteIntent
begin

text \<open>
  The statement driver, \<^verbatim>\<open>crates/franken-snowflake-sqlapi/src/driver.rs\<close>: it submits a statement, feeds
  the answers of the transport to the machine of \<open>Lifecycle\<close>, refreshes the credential once per
  step, hands rows to a sink, and cancels the statement on the server when it gives up on it.

  What happens around the driver is read from turns. A turn of the loop holds what the runtime, the
  credential provider, the transport and the sink answer while one \<^verbatim>\<open>Progress\<close> is handled; a turn of the
  submit loop does so for one submission. The transport is the trait the driver is written against;
  its production operations are those of \<open>HttpRetry\<close> and \<open>HttpStream\<close>. A list of turns that ends before
  the driver returns leaves the outcome \<^term>\<open>None\<close>. The trace records every request, delivery and cancel
  in order; \<open>Following h\<close> marks that the driver turned to a statement that still runs, \<open>Ended\<close> that the
  guard learnt it is over on the server. Times are nanoseconds. Progress events for an observer, the
  measured execution time and the texts of lifecycle errors are left out, as is the detached
  thread that sends the cancel of a dropped driver.

  Of two messages, the refusal of a statement under the credit cap and the empty partition window, the
  numbers are left out.

  Lemmas: no statement is left running, the loop ends, streamed rows are the announced ones, the gates
  of the read and write entry points.
\<close>

section \<open>Bounds of the execution\<close>

record ExecutionBounds =
  eb_started :: nat
  eb_deadline :: "nat option"
  eb_cost :: "nat option"
  eb_cost_quota :: "CostQuota option"
  eb_budget :: Budget
  eb_consumed :: nat

definition query_budget :: "nat option \<Rightarrow> nat \<Rightarrow> nat option \<Rightarrow> Budget" where
  "query_budget deadline quota cost =
     \<lparr>bg_deadline = deadline, bg_poll_quota = quota, bg_cost_quota = cost\<rparr>"

definition new_bounds :: "nat \<Rightarrow> PollPlan \<Rightarrow> ExecutionBounds" where
  "new_bounds started plan =
     (let deadline = map_option ((+) started) (execution_timeout plan)
      in \<lparr>eb_started = started, eb_deadline = deadline,
          eb_cost = map_option ((+) started) (Option.bind (cost_quota plan) time_bound),
          eb_cost_quota = cost_quota plan,
          eb_budget = query_budget deadline (max_polls plan) (map_option max_microcredits (cost_quota plan)),
          eb_consumed = 0\<rparr>)"

definition bound_reached :: "nat option \<Rightarrow> nat \<Rightarrow> bool" where
  "bound_reached bound now \<longleftrightarrow> (case bound of None \<Rightarrow> False | Some b \<Rightarrow> b \<le> now)"

text \<open>\<open>consume\<close> is the runtime's \<^verbatim>\<open>consume_cost\<close>; \<^term>\<open>None\<close> when the budget cannot pay.\<close>

definition bounds_passed ::
  "(Budget \<Rightarrow> nat \<Rightarrow> Budget option) \<Rightarrow> nat \<Rightarrow> ExecutionBounds \<Rightarrow> ExecutionBounds \<times> CancelKind option" where
  "bounds_passed consume now self =
     (let paid = (case eb_cost_quota self of
            None \<Rightarrow> Some self
          | Some quota \<Rightarrow>
              (let estimated = estimate quota (now - eb_started self);
                   target = (if bound_reached (eb_cost self) now
                             then max estimated (sat_add u64_max (max_microcredits quota) 1) else estimated);
                   delta = target - eb_consumed self
               in if delta > 0
                  then map_option (\<lambda>b. self\<lparr>eb_budget := b, eb_consumed := target\<rparr>) (consume (eb_budget self) delta)
                  else Some self))
      in case paid of
           None \<Rightarrow> (self, Some CostBudget)
         | Some self \<Rightarrow>
             (self, if bound_reached (eb_cost self) now then Some CostBudget
                    else if bound_reached (eb_deadline self) now then Some Deadline else None))"

definition bounds_cap :: "ExecutionBounds \<Rightarrow> nat \<Rightarrow> Duration \<Rightarrow> Duration" where
  "bounds_cap self now delay =
     foldl min delay (map (\<lambda>b. b - now) (concat (map (case_option [] (\<lambda>b. [b])) [eb_deadline self, eb_cost self])))"

text \<open>The wait between polls, in slices; \<open>slices k\<close> is the reason the \<open>k\<close>-th slice is cut short, if it is.\<close>

function wait_poll_interval :: "(nat \<Rightarrow> CancelKind option) \<Rightarrow> nat \<Rightarrow> Duration \<Rightarrow> CancelKind option" where
  "wait_poll_interval slices k remaining =
     (if remaining = 0 then None
      else case slices k of
          Some reason \<Rightarrow> Some reason
        | None \<Rightarrow> wait_poll_interval slices (Suc k) (remaining - min remaining MIN_POLL_INTERVAL))"
  by pat_completeness auto

termination
  by (relation "measure (\<lambda>(slices, k, remaining). remaining)")
    (auto simp: MIN_POLL_INTERVAL_def from_millis_def)

declare wait_poll_interval.simps [simp del]

section \<open>Turns and traces\<close>

record DriverTurn =
  dt_checkpoint :: "CancelKind option"
  dt_now :: nat
  dt_wait_from :: nat
  dt_slices :: "nat \<Rightarrow> CancelKind option"
  dt_woken :: nat
  dt_descriptor :: "SnowflakeError + AuthorizationDescriptor"
  dt_refresh :: "nat \<Rightarrow> SnowflakeError + bool"
  dt_refreshed :: "nat \<Rightarrow> SnowflakeError + AuthorizationDescriptor"
  dt_poll :: "HttpResponseBody SnowflakeOutcome"
  dt_sink :: "SnowflakeError option"
  dt_last_sink :: "SnowflakeError option"
  dt_fetch :: "nat \<Rightarrow> PartitionBody SnowflakeOutcome"
  dt_refetch :: "nat \<Rightarrow> PartitionBody SnowflakeOutcome"

datatype Action =
  Following string | Submitting SubmitHttpRequest | Polling AuthorizationDescriptor string
  | Fetching AuthorizationDescriptor string nat | Delivering "Row list" | Ended
  | LocalCancel AuthorizationDescriptor string CancelKind | OrphanCancel AuthorizationDescriptor string

datatype LeaseEnd = Committed | AbortedCancel | AbortedError

record DropGuard =
  dg_armed :: "(AuthorizationDescriptor \<times> string) option"
  dg_lease :: bool
  dg_resolved :: "LeaseEnd option"

record 'v Driver =
  dr_machine :: "'v StatementMachine"
  dr_auth :: AuthorizationDescriptor
  dr_reauth_left :: nat
  dr_bounds :: ExecutionBounds
  dr_poll_now :: bool
  dr_guard :: DropGuard
  dr_polls :: nat
  dr_fetched :: nat

datatype 'v Next = Stop "'v CompletedStatement SnowflakeOutcome" | Go "'v Progress"

type_synonym 'v turn = "Action list \<times> 'v Driver \<times> 'v Next"

definition after :: "Action list \<Rightarrow> 'v turn \<Rightarrow> 'v turn" where
  "after actions turn = (actions @ fst turn, snd turn)"

section \<open>The guard of a running statement\<close>

definition new_guard :: DropGuard where
  "new_guard = \<lparr>dg_armed = None, dg_lease = False, dg_resolved = None\<rparr>"

fun progress_live :: "'v Progress \<Rightarrow> string option" where
  "progress_live (PollAgain h) = Some h"
| "progress_live (FetchPartition h n) = Some h"
| "progress_live p = None"

text \<open>\<open>granted\<close>: whether the runtime registers the lease.\<close>

definition guard_arm :: "bool \<Rightarrow> AuthorizationDescriptor \<Rightarrow> 'v Progress \<Rightarrow> DropGuard \<Rightarrow> DropGuard" where
  "guard_arm granted auth p g =
     g\<lparr>dg_armed := map_option (Pair auth) (progress_live p),
       dg_lease := (if progress_live p = None then dg_lease g else granted)\<rparr>"

definition guard_track :: "AuthorizationDescriptor \<Rightarrow> DropGuard \<Rightarrow> DropGuard" where
  "guard_track auth g = g\<lparr>dg_armed := map_option (\<lambda>(_, h). (auth, h)) (dg_armed g)\<rparr>"

definition guard_resolve :: "LeaseEnd \<Rightarrow> DropGuard \<Rightarrow> DropGuard" where
  "guard_resolve how g =
     g\<lparr>dg_armed := None, dg_lease := False,
       dg_resolved := (if dg_lease g then Some how else dg_resolved g)\<rparr>"

definition guard_finish :: "DropGuard \<Rightarrow> DropGuard" where
  "guard_finish g = guard_resolve Committed g"

fun guard_settle :: "'a SnowflakeOutcome \<Rightarrow> DropGuard \<Rightarrow> DropGuard" where
  "guard_settle (Ok v) g = guard_resolve Committed g"
| "guard_settle (OutcomeCancelled k) g = guard_resolve AbortedCancel g"
| "guard_settle (Err e) g = guard_resolve AbortedError g"
| "guard_settle Panicked g = guard_resolve AbortedError g"


section \<open>Giving up\<close>

definition cancel_locally :: "'v Driver \<Rightarrow> string \<Rightarrow> CancelKind \<Rightarrow> 'v turn" where
  "cancel_locally st h reason = ([LocalCancel (dr_auth st) h reason], st, Stop (OutcomeCancelled reason))"

definition abandon_with_outcome :: "'v Driver \<Rightarrow> string \<Rightarrow> 'v CompletedStatement SnowflakeOutcome \<Rightarrow> 'v turn" where
  "abandon_with_outcome st h outcome = ([OrphanCancel (dr_auth st) h], st, Stop outcome)"

definition abandon_with_error :: "'v Driver \<Rightarrow> string \<Rightarrow> SnowflakeError \<Rightarrow> 'v turn" where
  "abandon_with_error st h e = abandon_with_outcome st h (Err e)"

fun answered_or_give_up :: "'v Driver \<Rightarrow> string \<Rightarrow> 'r SnowflakeOutcome \<Rightarrow> 'v turn + 'r" where
  "answered_or_give_up st h (Ok response) = Inr response"
| "answered_or_give_up st h (Err e) = Inl (abandon_with_error st h e)"
| "answered_or_give_up st h (OutcomeCancelled reason) = Inl (cancel_locally st h reason)"
| "answered_or_give_up st h Panicked = Inl (abandon_with_outcome st h Panicked)"

definition unauthorized_error :: "string \<Rightarrow> string \<Rightarrow> SnowflakeError" where
  "unauthorized_error step detail =
     new_error CredentialExpired (''SQL API returned 401 Unauthorized on '' @ step @ '': '' @ detail)"

definition rejected_again :: string where
  "rejected_again = ''the re-signed credential was rejected again; not retrying further''"

text \<open>The provider is asked to refresh, and then for the new descriptor.\<close>

definition refresh_after_unauthorized ::
  "SnowflakeError + bool \<Rightarrow> SnowflakeError + AuthorizationDescriptor \<Rightarrow> nat \<Rightarrow> string
     \<Rightarrow> nat \<times> (SnowflakeError + AuthorizationDescriptor)" where
  "refresh_after_unauthorized refresh refreshed reauth_left step =
     (if reauth_left = 0 then (reauth_left, Inl (unauthorized_error step rejected_again))
      else (reauth_left - 1,
            case refresh of
              Inl e \<Rightarrow> Inl e
            | Inr True \<Rightarrow> refreshed
            | Inr False \<Rightarrow> Inl (unauthorized_error step
                ''this credential lane cannot re-sign mid-flight; issue a fresh token and retry'')))"

fun response_class :: "StatusClass \<Rightarrow> ResponseClass" where
  "response_class StatusCompleted = ResponseClass.Completed"
| "response_class StatusRunning = ResponseClass.Running"
| "response_class StatusClass.StatementTimeout = ResponseClass.StatementTimeout"
| "response_class QueryFailure = ResponseClass.StatementFailed"
| "response_class StatusClass.RateLimited = ResponseClass.RateLimited"
| "response_class ServerErrorRetryable = ResponseClass.Other 503"
| "response_class StatusClass.Unauthorized = ResponseClass.Other 401"
| "response_class StatusUnexpected = ResponseClass.Other 0"

definition terminal_failure_error :: "SnowflakeErrorCode \<Rightarrow> QueryFailureStatus \<Rightarrow> SnowflakeError" where
  "terminal_failure_error code failure = new_error code (redact (qf_message failure))"

section \<open>One turn\<close>

definition track :: "AuthorizationDescriptor \<Rightarrow> 'v Driver \<Rightarrow> 'v Driver" where
  "track auth st = st\<lparr>dr_auth := auth, dr_guard := guard_track auth (dr_guard st)\<rparr>"

definition finished :: "'v Driver \<Rightarrow> 'v Driver" where
  "finished st = st\<lparr>dr_guard := guard_finish (dr_guard st)\<rparr>"

text \<open>The completed statement, its rows given to the sink if there is one.\<close>

definition hand_out :: "bool \<Rightarrow> SnowflakeError option \<Rightarrow> 'v Driver \<Rightarrow> 'v CompletedStatement \<Rightarrow> 'v turn" where
  "hand_out sink answer st completed =
     (if sink
      then ([Ended, Delivering (cs_rows completed)], finished st,
            Stop (case answer of
                    Some e \<Rightarrow> Err e
                  | None \<Rightarrow> Ok (completed\<lparr>cs_rows := [], cs_raw_partitions := []\<rparr>)))
      else ([Ended], finished st, Stop (Ok completed)))"

definition wait_and_check ::
  "(Budget \<Rightarrow> nat \<Rightarrow> Budget option) \<Rightarrow> PollPlan \<Rightarrow> DriverTurn \<Rightarrow> 'v Driver \<Rightarrow> 'v Driver \<times> CancelKind option" where
  "wait_and_check consume plan t st =
     (case dt_checkpoint t of
        Some reason \<Rightarrow> (st, Some reason)
      | None \<Rightarrow>
          (case bounds_passed consume (dt_now t) (dr_bounds st) of
             (bounds, Some reason) \<Rightarrow> (st\<lparr>dr_bounds := bounds\<rparr>, Some reason)
           | (bounds, None) \<Rightarrow>
               (let waited = (if dr_poll_now st then None
                              else wait_poll_interval (dt_slices t) 0
                                     (bounds_cap bounds (dt_wait_from t) (effective_poll_interval plan)));
                    st = st\<lparr>dr_bounds := bounds, dr_poll_now := False\<rparr>
                in case waited of
                     Some reason \<Rightarrow> (st, Some reason)
                   | None \<Rightarrow>
                       (let (bounds, reason) = bounds_passed consume (dt_woken t) bounds
                        in (st\<lparr>dr_bounds := bounds\<rparr>, reason)))))"

definition poll_turn ::
  "(Budget \<Rightarrow> nat \<Rightarrow> Budget option) \<Rightarrow> PollPlan \<Rightarrow> 'v Decoders \<Rightarrow> DriverTurn \<Rightarrow> string \<Rightarrow> 'v Driver \<Rightarrow> 'v turn" where
  "poll_turn consume plan D t h st =
     (case wait_and_check consume plan t st of
        (st, Some reason) \<Rightarrow> cancel_locally st h reason
      | (st, None) \<Rightarrow>
          (let st = st\<lparr>dr_polls := sat_add u32_max (dr_polls st) 1\<rparr>
           in case dt_descriptor t of
                Inl e \<Rightarrow> abandon_with_error st h e
              | Inr auth \<Rightarrow>
                  (let st = track auth st
                   in after [Polling auth h]
                        (case answered_or_give_up st h (dt_poll t) of
                           Inl turn \<Rightarrow> turn
                         | Inr response \<Rightarrow>
                             if hb_status response = StatusClass.Unauthorized then
                               (case refresh_after_unauthorized (dt_refresh t 0) (dt_refreshed t 0)
                                       (dr_reauth_left st) ''poll'' of
                                  (left, Inl e) \<Rightarrow> abandon_with_error (st\<lparr>dr_reauth_left := left\<rparr>) h e
                                | (left, Inr fresh) \<Rightarrow>
                                    ([], track fresh (st\<lparr>dr_reauth_left := left\<rparr>), Go (PollAgain h)))
                             else
                               (case on_poll D (response_class (hb_status response)) (hb_body response)
                                       (dr_machine st) of
                                  (r, m) \<Rightarrow>
                                    (let st = st\<lparr>dr_reauth_left := 1, dr_machine := m\<rparr>
                                     in case r of
                                          Inl e \<Rightarrow> abandon_with_error st h (into_snowflake_error e [])
                                        | Inr p \<Rightarrow> ([], st, Go p)))))))"

text \<open>A partition answered with 401: one refresh for the window, one refetch for the partition.\<close>

definition reauthorized ::
  "DriverTurn \<Rightarrow> string \<Rightarrow> AuthorizationDescriptor \<Rightarrow> nat \<Rightarrow> PartitionBody \<Rightarrow> 'v Driver
     \<Rightarrow> Action list \<times> 'v Driver \<times> ('v turn + PartitionBody)" where
  "reauthorized t h window_auth index response st =
     (if pb_status response \<noteq> StatusClass.Unauthorized then ([], st, Inr response)
      else
        let (st, fresh) =
              (if dr_auth st = window_auth then
                 (case refresh_after_unauthorized (dt_refresh t index) (dt_refreshed t index)
                         (dr_reauth_left st) ''partition fetch'' of
                    (left, Inl e) \<Rightarrow> (st\<lparr>dr_reauth_left := left\<rparr>, Some e)
                  | (left, Inr auth) \<Rightarrow> (track auth (st\<lparr>dr_reauth_left := left\<rparr>), None))
               else (st, None))
        in case fresh of
             Some e \<Rightarrow> ([], st, Inl (abandon_with_error st h e))
           | None \<Rightarrow>
               (let st = st\<lparr>dr_fetched := sat_add u32_max (dr_fetched st) 1\<rparr>
                in ([Fetching (dr_auth st) h index], st,
                    case answered_or_give_up st h (dt_refetch t index) of
                      Inl turn \<Rightarrow> Inl turn
                    | Inr again \<Rightarrow>
                        if pb_status again = StatusClass.Unauthorized
                        then Inl (abandon_with_error st h (unauthorized_error ''partition fetch'' rejected_again))
                        else Inr again)))"

fun window_turn ::
  "DriverTurn \<Rightarrow> string \<Rightarrow> AuthorizationDescriptor \<Rightarrow> nat list \<Rightarrow> 'v Progress option \<Rightarrow> 'v Driver \<Rightarrow> 'v turn" where
  "window_turn t h window_auth [] after_window st =
     (case after_window of
        Some p \<Rightarrow> ([], st, Go p)
      | None \<Rightarrow> abandon_with_error st h (new_error Internal ''empty partition window''))"
| "window_turn t h window_auth (index # indices) after_window st =
     (case answered_or_give_up st h (dt_fetch t index) of
        Inl turn \<Rightarrow> turn
      | Inr response \<Rightarrow>
          (case reauthorized t h window_auth index response st of
             (actions, st, Inl turn) \<Rightarrow> after actions turn
           | (actions, st, Inr response) \<Rightarrow>
               (case on_partition (response_class (pb_status response)) index (pb_body response) (dr_machine st) of
                  (r, m) \<Rightarrow>
                    (let st = st\<lparr>dr_reauth_left := 1, dr_machine := m\<rparr>
                     in after actions
                          (case r of
                             Inl e \<Rightarrow> abandon_with_error st h (into_snowflake_error e [])
                           | Inr p \<Rightarrow> window_turn t h window_auth indices (Some p) st)))))"

text \<open>Streaming: what is assembled goes to the sink before more is fetched.\<close>

definition hand_over :: "bool \<Rightarrow> DriverTurn \<Rightarrow> 'v Driver \<Rightarrow> Action list \<times> 'v Driver \<times> SnowflakeError option" where
  "hand_over sink t st =
     (if \<not> sink then ([], st, None)
      else
        let m = snd (drain_raw_partitions (dr_machine st));
            (rows, m) = drain_rows m;
            st = st\<lparr>dr_machine := m\<rparr>
        in if rows \<noteq> [] \<and> machine_result_set m \<noteq> None then ([Delivering rows], st, dt_sink t)
           else ([], st, None))"

definition fetch_turn ::
  "PollPlan \<Rightarrow> bool \<Rightarrow> DriverTurn \<Rightarrow> string \<Rightarrow> nat \<Rightarrow> 'v Driver \<Rightarrow> 'v turn" where
  "fetch_turn plan sink t h part st =
     (case dt_checkpoint t of
        Some reason \<Rightarrow> cancel_locally st h reason
      | None \<Rightarrow>
          (case hand_over sink t st of
             (actions, st, Some e) \<Rightarrow> after actions (abandon_with_error st h e)
           | (actions, st, None) \<Rightarrow>
               after actions
                 (let (upcoming, total) = (case assembling_window (dr_machine st) of
                         Some w \<Rightarrow> w | None \<Rightarrow> (part, sat_add u32_max part 1))
                  in if (case row_cap plan of None \<Rightarrow> False | Some cap \<Rightarrow> rows_assembled (dr_machine st) \<ge> cap) then
                       (case complete_early (dr_machine st) of
                          (Inl e, m) \<Rightarrow> abandon_with_error (st\<lparr>dr_machine := m\<rparr>) h (into_snowflake_error e [])
                        | (Inr done, m) \<Rightarrow> hand_out sink (dt_last_sink t) (st\<lparr>dr_machine := m\<rparr>) done)
                     else
                       (case dt_descriptor t of
                          Inl e \<Rightarrow> abandon_with_error st h e
                        | Inr auth \<Rightarrow>
                            (let st = track auth st;
                                 window_end = min (sat_add u32_max upcoming (effective_partition_concurrency plan)) total;
                                 indices = [upcoming ..< window_end];
                                 st = st\<lparr>dr_fetched := sat_add u32_max (dr_fetched st) (length indices)\<rparr>
                             in after (map (Fetching auth h) indices)
                                  (window_turn t h auth indices None st))))))"

definition drive_turn ::
  "(Budget \<Rightarrow> nat \<Rightarrow> Budget option) \<Rightarrow> PollPlan \<Rightarrow> 'v Decoders \<Rightarrow> bool \<Rightarrow> DriverTurn \<Rightarrow> 'v Progress \<Rightarrow> 'v Driver
     \<Rightarrow> 'v turn" where
  "drive_turn consume plan D sink t p st =
     (case p of
        Complete completed \<Rightarrow> hand_out sink (dt_sink t) st completed
      | TimedOut failure \<Rightarrow>
          ([Ended], finished st, Stop (Err (terminal_failure_error SnowflakeErrorCode.StatementTimeout failure)))
      | Failed failure \<Rightarrow>
          ([Ended], finished st, Stop (Err (terminal_failure_error SnowflakeErrorCode.StatementFailed failure)))
      | PollAgain h \<Rightarrow> after [Following h] (poll_turn consume plan D t h st)
      | FetchPartition h n \<Rightarrow> after [Following h] (fetch_turn plan sink t h n st))"

fun drive_loop ::
  "(Budget \<Rightarrow> nat \<Rightarrow> Budget option) \<Rightarrow> PollPlan \<Rightarrow> 'v Decoders \<Rightarrow> bool \<Rightarrow> DriverTurn list \<Rightarrow> 'v Progress \<Rightarrow> 'v Driver
     \<Rightarrow> Action list \<times> 'v Driver \<times> 'v CompletedStatement SnowflakeOutcome option" where
  "drive_loop consume plan D sink [] p st = ([], st, None)"
| "drive_loop consume plan D sink (t # ts) p st =
     (case drive_turn consume plan D sink t p st of
        (actions, st, Stop outcome) \<Rightarrow> (actions, st, Some outcome)
      | (actions, st, Go p) \<Rightarrow>
          (let (more, st, outcome) = drive_loop consume plan D sink ts p st
           in (actions @ more, st, outcome)))"

section \<open>Submitting\<close>

record SubmitQueryParams =
  sq_request_id :: "string option"
  sq_retry :: bool
  sq_asynchronous :: bool
  sq_nullable :: "bool option"

definition bool_str :: "bool \<Rightarrow> string" where
  "bool_str b = (if b then ''true'' else ''false'')"

definition to_query_pairs :: "SubmitQueryParams \<Rightarrow> (string \<times> string) list" where
  "to_query_pairs self =
     (case sq_request_id self of None \<Rightarrow> [] | Some rid \<Rightarrow> [(''requestId'', rid)])
     @ (if sq_retry self then [(''retry'', ''true'')] else [])
     @ (if sq_asynchronous self then [(''async'', ''true'')] else [])
     @ (case sq_nullable self of None \<Rightarrow> [] | Some n \<Rightarrow> [(''nullable'', bool_str n)])"

definition submit_route :: "SubmitQueryParams \<Rightarrow> TransportRoute" where
  "submit_route params =
     (let query = to_query_pairs params
      in if query = [] then TransportRoute.Submit else SubmitWithQuery query)"

text \<open>
  A submit turn: the reason if the caller gave up before it, whether the caller gave up while a read
  waited for its answer, the answer, and the reason if the caller has given up by the end of it.
\<close>

record SubmitTurn =
  su_checkpoint :: "CancelKind option"
  su_gave_up :: bool
  su_answer :: "HttpResponseBody SnowflakeOutcome"
  su_refresh :: "SnowflakeError + bool"
  su_refreshed :: "SnowflakeError + AuthorizationDescriptor"
  su_cancelled :: "CancelKind option"

text \<open>The statement and its serialised body.\<close>

record SubmitStatementRequest =
  sq_statement :: string
  sq_body :: string

definition failed_submit_outcome :: "SubmitTurn \<Rightarrow> bool \<Rightarrow> 'a SnowflakeOutcome \<Rightarrow> 'a SnowflakeOutcome" where
  "failed_submit_outcome t learn_handle failure =
     (case su_cancelled t of
        Some reason \<Rightarrow> if learn_handle then OutcomeCancelled reason else failure
      | None \<Rightarrow> failure)"

definition answers_early :: "SubmitStatementRequest \<Rightarrow> SubmitQueryParams \<Rightarrow> bool" where
  "answers_early request params \<longleftrightarrow>
     \<not> sq_asynchronous params \<and> sq_retry params \<and> sq_request_id params \<noteq> None
     \<and> is_side_effect_free_read (sq_statement request)"

fun submit ::
  "'v Decoders \<Rightarrow> SubmitStatementRequest \<Rightarrow> SubmitQueryParams \<Rightarrow> SubmitTurn list \<Rightarrow> bool \<Rightarrow> 'v Driver
     \<Rightarrow> Action list \<times> 'v Driver \<times> 'v Progress SnowflakeOutcome option" where
  "submit D request params [] learn_handle st = ([], st, None)"
| "submit D request params (t # ts) learn_handle st =
     (let sent = Submitting
            \<lparr>sr_route = submit_route (if learn_handle then params\<lparr>sq_asynchronous := True\<rparr> else params),
             sr_auth = dr_auth st, sr_body = sq_body request, sr_retry_resubmit = sq_retry params\<rparr>;
          failed = (\<lambda>failure. Some (failed_submit_outcome t learn_handle failure));
          next_submission = (\<lambda>learn st. let (more, st, outcome) = submit D request params ts learn st
                                 in (sent # more, st, outcome))
      in if \<not> learn_handle \<and> su_checkpoint t \<noteq> None
         then ([], st, map_option OutcomeCancelled (su_checkpoint t))
         else if answers_early request params \<and> \<not> learn_handle \<and> su_gave_up t then next_submission True st
         else case su_answer t of
             Ok response \<Rightarrow>
               if hb_status response = StatusClass.Unauthorized then
                 (case refresh_after_unauthorized (su_refresh t) (su_refreshed t) (dr_reauth_left st) ''submit'' of
                    (left, Inr fresh) \<Rightarrow>
                      next_submission learn_handle (st\<lparr>dr_reauth_left := left, dr_auth := fresh\<rparr>)
                  | (left, Inl e) \<Rightarrow> ([sent], st\<lparr>dr_reauth_left := left\<rparr>, failed (Err e)))
               else
                 (case on_submit D (response_class (hb_status response)) (hb_body response) (dr_machine st) of
                    (r, m) \<Rightarrow>
                      ([sent], st\<lparr>dr_reauth_left := 1, dr_machine := m\<rparr>,
                       case r of Inr p \<Rightarrow> Some (Ok p) | Inl e \<Rightarrow> failed (Err (into_snowflake_error e []))))
           | Err e \<Rightarrow> ([sent], st, failed (Err e))
           | OutcomeCancelled reason \<Rightarrow> ([sent], st, failed (OutcomeCancelled reason))
           | Panicked \<Rightarrow> ([sent], st, failed Panicked))"

section \<open>Driving a statement\<close>

datatype Start = StartSubmit SubmitStatementRequest SubmitQueryParams | StartHandle string

text \<open>
  The rest of what a run reads: the first descriptor, the clock at the start, whether the lease is
  granted, and the turns.
\<close>

record RunWorld =
  rw_descriptor :: "SnowflakeError + AuthorizationDescriptor"
  rw_started :: nat
  rw_lease :: bool
  rw_submits :: "SubmitTurn list"
  rw_turns :: "DriverTurn list"

definition new_driver :: "AuthorizationDescriptor \<Rightarrow> nat \<Rightarrow> PollPlan \<Rightarrow> bool \<Rightarrow> 'v Driver" where
  "new_driver auth started plan poll_now =
     \<lparr>dr_machine = new_machine plan, dr_auth = auth, dr_reauth_left = 1,
      dr_bounds = new_bounds started plan, dr_poll_now = poll_now, dr_guard = new_guard,
      dr_polls = 0, dr_fetched = 0\<rparr>"

definition armed :: "bool \<Rightarrow> 'v Progress \<Rightarrow> 'v Driver \<Rightarrow> 'v Driver" where
  "armed granted p st = st\<lparr>dr_guard := guard_arm granted (dr_auth st) p (dr_guard st)\<rparr>"

definition drive_guarded ::
  "(Budget \<Rightarrow> nat \<Rightarrow> Budget option) \<Rightarrow> PollPlan \<Rightarrow> 'v Decoders \<Rightarrow> bool \<Rightarrow> Start \<Rightarrow> RunWorld
     \<Rightarrow> Action list \<times> 'v Driver option \<times> 'v CompletedStatement SnowflakeOutcome option" where
  "drive_guarded consume plan D sink start world =
     (case rw_descriptor world of
        Inl e \<Rightarrow> ([], None, Some (Err e))
      | Inr auth \<Rightarrow>
          (case start of
             StartHandle h \<Rightarrow>
               (let st = armed (rw_lease world) (PollAgain h) (new_driver auth (rw_started world) plan True);
                    (actions, st, outcome) = drive_loop consume plan D sink (rw_turns world) (PollAgain h) st
                in (actions, Some st, outcome))
           | StartSubmit request params \<Rightarrow>
               (if (case cost_quota plan of None \<Rightarrow> False | Some quota \<Rightarrow> below_resume_minimum quota)
                then ([], None, Some (Err (new_error SnowflakeErrorCode.SafetyLimitExceeded ''not submitted'')))
                else
                  case submit D request params (rw_submits world) False
                         (new_driver auth (rw_started world) plan False) of
                    (actions, st, Some (Ok p)) \<Rightarrow>
                      (let (more, st, outcome) =
                             drive_loop consume plan D sink (rw_turns world) p (armed (rw_lease world) p st)
                       in (actions @ more, Some st, outcome))
                  | (actions, st, None) \<Rightarrow> (actions, Some st, None)
                  | (actions, st, Some (Err e)) \<Rightarrow> (actions, Some st, Some (Err e))
                  | (actions, st, Some (OutcomeCancelled reason)) \<Rightarrow>
                      (actions, Some st, Some (OutcomeCancelled reason))
                  | (actions, st, Some Panicked) \<Rightarrow> (actions, Some st, Some Panicked))))"

text \<open>The guard is settled when the driver returns, and dropped when it does not.\<close>

definition drive_statement ::
  "(Budget \<Rightarrow> nat \<Rightarrow> Budget option) \<Rightarrow> PollPlan \<Rightarrow> 'v Decoders \<Rightarrow> bool \<Rightarrow> Start \<Rightarrow> RunWorld
     \<Rightarrow> Action list \<times> DropGuard \<times> 'v CompletedStatement SnowflakeOutcome option" where
  "drive_statement consume plan D sink start world =
     (case drive_guarded consume plan D sink start world of
        (actions, st, Some outcome) \<Rightarrow>
          (actions, guard_settle outcome (case_option new_guard dr_guard st), Some outcome)
      | (actions, st, None) \<Rightarrow> (actions, case_option new_guard dr_guard st, None))"

text \<open>The entry points: any statement, a read, and a write under a grant.\<close>

definition run_statement_hooked where
  "run_statement_hooked consume plan D sink request params world =
     drive_statement consume plan D sink (StartSubmit request params) world"

definition mutation_refused :: "string \<Rightarrow> SnowflakeError" where
  "mutation_refused message = new_error SnowflakeErrorCode.MutationRefused message"

text \<open>\<open>masked\<close>: whether the runtime yields the narrowed context.\<close>

definition run_read_statement_with_transport_cx where
  "run_read_statement_with_transport_cx consume plan D sink masked request params world =
     (if \<not> is_side_effect_free_read (sq_statement request)
      then ([], new_guard, Some (Err (mutation_refused ''mutating SQL is refused on a read-only TransportCx'')))
      else if \<not> masked then ([], new_guard, Some (OutcomeCancelled Shutdown))
      else run_statement_hooked consume plan D sink request params world)"

definition run_write_statement_with_write_cx where
  "run_write_statement_with_write_cx consume plan D sink masked grant request params world =
     (if \<not> covers grant (sq_statement request)
      then ([], new_guard, Some (Err (mutation_refused
             ''write authorization grant does not cover the submitted SQL statement'')))
      else if \<not> masked then ([], new_guard, Some (OutcomeCancelled Shutdown))
      else run_statement_hooked consume plan D sink request params world)"

section \<open>Several statements in one request\<close>

definition map_outcome :: "('a \<Rightarrow> 'b) \<Rightarrow> 'a SnowflakeOutcome \<Rightarrow> 'b SnowflakeOutcome" where
  "map_outcome f outcome = map_SnowflakeOutcome f outcome"

text \<open>Each statement by its handle, with a world of its own; the first that does not succeed ends it.\<close>

fun follow_handles ::
  "(Budget \<Rightarrow> nat \<Rightarrow> Budget option) \<Rightarrow> PollPlan \<Rightarrow> 'v Decoders \<Rightarrow> string list \<Rightarrow> RunWorld list
     \<Rightarrow> Action list \<times> 'v CompletedStatement list SnowflakeOutcome option" where
  "follow_handles consume plan D [] worlds = ([], Some (Ok []))"
| "follow_handles consume plan D (h # hs) [] = ([], None)"
| "follow_handles consume plan D (h # hs) (world # worlds) =
     (case drive_statement consume plan D False (StartHandle h) world of
        (actions, g, None) \<Rightarrow> (actions, None)
      | (actions, g, Some (Ok done)) \<Rightarrow>
          (let (more, rest) = follow_handles consume plan D hs worlds
           in (actions @ more, map_option (map_outcome (\<lambda>statements. done # statements)) rest))
      | (actions, g, Some outcome) \<Rightarrow> (actions, Some (map_outcome (\<lambda>_. []) outcome)))"

record 'v MultiStatementResult =
  ms_parent :: "'v CompletedStatement"
  ms_statements :: "'v CompletedStatement list"

definition run_multi_statement_hooked ::
  "(Budget \<Rightarrow> nat \<Rightarrow> Budget option) \<Rightarrow> PollPlan \<Rightarrow> 'v Decoders \<Rightarrow> SubmitStatementRequest \<Rightarrow> SubmitQueryParams
     \<Rightarrow> RunWorld \<Rightarrow> RunWorld list \<Rightarrow> Action list \<times> 'v MultiStatementResult SnowflakeOutcome option" where
  "run_multi_statement_hooked consume plan D request params world worlds =
     (case drive_statement consume plan D False (StartSubmit request params) world of
        (actions, g, None) \<Rightarrow> (actions, None)
      | (actions, g, Some (Ok parent)) \<Rightarrow>
          (case case_option [] id (statement_handles (cs_result_set parent)) of
             [] \<Rightarrow> (actions, Some (Err (new_error SnowflakeErrorCode.UpstreamError
                      ''the SQL API answered a multi-statement request without statementHandles'')))
           | handles \<Rightarrow>
               (let (more, rest) = follow_handles consume plan D handles worlds
                in (actions @ more,
                    map_option (map_outcome (\<lambda>statements. \<lparr>ms_parent = parent, ms_statements = statements\<rparr>)) rest)))
      | (actions, g, Some (Err e)) \<Rightarrow> (actions, Some (Err e))
      | (actions, g, Some (OutcomeCancelled reason)) \<Rightarrow> (actions, Some (OutcomeCancelled reason))
      | (actions, g, Some Panicked) \<Rightarrow> (actions, Some Panicked))"

section \<open>No statement is left running\<close>

definition quiet :: "Action list \<Rightarrow> bool" where
  "quiet actions \<longleftrightarrow> list_all (\<lambda>a. case a of
     Following _ \<Rightarrow> False | Ended \<Rightarrow> False | LocalCancel _ _ _ \<Rightarrow> False | OrphanCancel _ _ \<Rightarrow> False | _ \<Rightarrow> True) actions"

text \<open>The driver gave up: its last action, and its only cancel, names the statement it followed.\<close>

definition gave_up :: "string \<Rightarrow> Action list \<Rightarrow> 'a SnowflakeOutcome \<Rightarrow> bool" where
  "gave_up h actions outcome \<longleftrightarrow>
     (\<exists>pre auth. quiet pre
        \<and> ((\<exists>reason. actions = pre @ [LocalCancel auth h reason] \<and> outcome = OutcomeCancelled reason)
           \<or> actions = pre @ [OrphanCancel auth h] \<and> (outcome = Panicked \<or> (\<exists>e. outcome = Err e))))"

definition saw_end :: "Action list \<Rightarrow> bool" where
  "saw_end actions \<longleftrightarrow> (\<exists>pre post. quiet pre \<and> quiet post \<and> actions = pre @ Ended # post)"

text \<open>A turn after \<open>h\<close> was followed: it goes on quietly, or sees the end, or gives up on \<open>h\<close>.\<close>

definition turn_ok :: "string \<Rightarrow> 'v turn \<Rightarrow> bool" where
  "turn_ok h turn \<longleftrightarrow>
     (case turn of (actions, st, next_step) \<Rightarrow>
        (case next_step of Go p \<Rightarrow> quiet actions
         | Stop outcome \<Rightarrow> saw_end actions \<or> gave_up h actions outcome))"

named_theorems quietly

lemma quiet_simps [simp, quietly]:
  "quiet []" "quiet (a @ b) \<longleftrightarrow> quiet a \<and> quiet b"
  "quiet (Submitting r # acts) \<longleftrightarrow> quiet acts" "quiet (Polling auth h # acts) \<longleftrightarrow> quiet acts"
  "quiet (Fetching auth h n # acts) \<longleftrightarrow> quiet acts" "quiet (Delivering rows # acts) \<longleftrightarrow> quiet acts"
  by (simp_all add: quiet_def)

lemma quiet_fetching [simp, quietly]: "quiet (map (Fetching auth h) ns)"
  by (induction ns) auto

lemma turn_ok_after [quietly]: "quiet actions \<Longrightarrow> turn_ok h turn \<Longrightarrow> turn_ok h (after actions turn)"
proof -
  assume q: "quiet actions" and t: "turn_ok h turn"
  obtain acts st nx where turn: "turn = (acts, st, nx)" by (cases turn) auto
  show "turn_ok h (after actions turn)"
  proof (cases nx)
    case (Stop outcome)
    with t turn consider "saw_end acts" | "gave_up h acts outcome" by (auto simp: turn_ok_def)
    then show ?thesis
    proof cases
      case 1
      then obtain pre post where "quiet pre" "quiet post" "acts = pre @ Ended # post" by (auto simp: saw_end_def)
      with q have "quiet (actions @ pre)" "actions @ acts = (actions @ pre) @ Ended # post" by simp_all
      with \<open>quiet post\<close> have "saw_end (actions @ acts)" unfolding saw_end_def by blast
      with Stop turn show ?thesis by (simp add: turn_ok_def after_def)
    next
      case 2
      then obtain pre auth where g: "quiet pre" "(\<exists>reason. acts = pre @ [LocalCancel auth h reason] \<and> outcome = OutcomeCancelled reason)
           \<or> acts = pre @ [OrphanCancel auth h] \<and> (outcome = Panicked \<or> (\<exists>e. outcome = Err e))"
        by (auto simp: gave_up_def)
      with q have "gave_up h (actions @ acts) outcome"
        unfolding gave_up_def by (intro exI [of _ "actions @ pre"] exI [of _ auth]) auto
      with Stop turn show ?thesis by (simp add: turn_ok_def after_def)
    qed
  qed (use q t turn in \<open>simp add: turn_ok_def after_def\<close>)
qed

lemma turn_ok_go [quietly]: "turn_ok h ([], st, Go p)"
  by (simp add: turn_ok_def)

lemma giving_up_ok [quietly]:
  "turn_ok h (cancel_locally st h reason)"
  "turn_ok h (abandon_with_error st h e)"
  "turn_ok h (abandon_with_outcome st h Panicked)"
  by (auto simp: turn_ok_def cancel_locally_def abandon_with_error_def abandon_with_outcome_def gave_up_def
      intro!: exI [of _ "[]"])

lemma answered_ok [quietly]: "answered_or_give_up st h outcome = Inl turn \<Longrightarrow> turn_ok h turn"
  by (cases outcome) (auto simp: giving_up_ok)

lemma abandon_eq: "abandon_with_error st h e = turn \<Longrightarrow> turn_ok h turn"
  using giving_up_ok(2) by blast

lemma saw_end_now: "quiet post \<Longrightarrow> saw_end (Ended # post)"
  unfolding saw_end_def by (intro exI [of _ "[]"] exI [of _ post]) simp

lemma hand_out_ok [quietly]: "turn_ok h (hand_out sink answer st completed)"
  by (simp add: turn_ok_def hand_out_def saw_end_now)

lemma poll_turn_ok [quietly]: "turn_ok h (poll_turn consume plan D t h st)"
  by (auto simp: poll_turn_def Let_def quietly split: prod.splits option.splits sum.splits if_splits
      intro!: turn_ok_after dest: answered_ok)

lemma reauthorized_quiet:
  assumes "reauthorized t h window_auth index response st = (actions, st', r)"
  shows "quiet actions \<and> (\<forall>turn. r = Inl turn \<longrightarrow> turn_ok h turn)"
  using assms
  by (auto simp: reauthorized_def Let_def quietly split: if_splits prod.splits option.splits sum.splits
      dest: answered_ok abandon_eq)

lemma window_turn_ok [quietly]: "turn_ok h (window_turn t h window_auth indices after_window st)"
proof (induction indices arbitrary: after_window st)
  case (Cons index indices)
  then show ?case
    by (auto simp: Let_def quietly split: prod.splits option.splits sum.splits
        dest: answered_ok dest!: reauthorized_quiet intro!: turn_ok_after)
qed (auto simp: quietly split: option.splits)

lemma hand_over_quiet: "hand_over sink t st = (actions, st', e) \<Longrightarrow> quiet actions"
  by (auto simp: hand_over_def Let_def split: if_splits prod.splits)

lemma fetch_turn_ok [quietly]: "turn_ok h (fetch_turn plan sink t h part st)"
  by (auto simp: fetch_turn_def Let_def quietly split: prod.splits option.splits sum.splits
      dest: hand_over_quiet intro!: turn_ok_after)

fun cancelled_statement :: "Action \<Rightarrow> string list" where
  "cancelled_statement (LocalCancel auth h reason) = [h]"
| "cancelled_statement (OrphanCancel auth h) = [h]"
| "cancelled_statement a = []"

fun followed_statement :: "Action \<Rightarrow> string list" where
  "followed_statement (Following h) = [h]"
| "followed_statement a = []"

definition cancelled :: "Action list \<Rightarrow> string list" where
  "cancelled actions = concat (map cancelled_statement actions)"

definition followed :: "Action list \<Rightarrow> string list" where
  "followed actions = concat (map followed_statement actions)"

lemma trace_append [simp]:
  "cancelled (a @ b) = cancelled a @ cancelled b" "followed (a @ b) = followed a @ followed b"
  "cancelled (x # b) = cancelled_statement x @ cancelled b" "followed (x # b) = followed_statement x @ followed b"
  "cancelled [] = []" "followed [] = []"
  by (simp_all add: cancelled_def followed_def)

lemma quiet_trace: "quiet actions \<Longrightarrow> cancelled actions = [] \<and> followed actions = [] \<and> Ended \<notin> set actions"
proof (induction actions)
  case (Cons a actions)
  then show ?case by (cases a) (auto simp: quiet_def)
qed simp

text \<open>
  What a finished run shows: the end of the statement and no cancel, or one cancel, at the end, of
  the statement followed last.
\<close>

definition resolved :: "Action list \<Rightarrow> 'a SnowflakeOutcome \<Rightarrow> bool" where
  "resolved actions outcome \<longleftrightarrow>
     Ended \<in> set actions \<and> cancelled actions = []
     \<or> Ended \<notin> set actions \<and> followed actions \<noteq> [] \<and> cancelled actions = [last (followed actions)]
       \<and> cancelled_statement (last actions) = cancelled actions
       \<and> (case outcome of Ok v \<Rightarrow> False
          | OutcomeCancelled reason \<Rightarrow> \<exists>auth h. last actions = LocalCancel auth h reason
          | _ \<Rightarrow> \<exists>auth h. last actions = OrphanCancel auth h)"

lemma drive_turn_cases:
  assumes "drive_turn consume plan D sink t p st = (actions, st', next_step)"
  shows "(\<exists>h rest. progress_live p = Some h \<and> actions = Following h # rest \<and> turn_ok h (rest, st', next_step))
    \<or> progress_live p = None \<and> (\<exists>outcome. next_step = Stop outcome) \<and> Ended \<in> set actions \<and> quiet (tl actions) \<and> hd actions = Ended"
proof (cases p)
  case (PollAgain h)
  with poll_turn_ok [of h consume plan D t st] assms show ?thesis
    by (cases "poll_turn consume plan D t h st") (auto simp: drive_turn_def after_def)
next
  case (FetchPartition h n)
  with fetch_turn_ok [of h plan sink t n st] assms show ?thesis
    by (cases "fetch_turn plan sink t h n st") (auto simp: drive_turn_def after_def)
qed (use assms in \<open>auto simp: drive_turn_def hand_out_def split: if_splits\<close>)

lemma gave_up_resolved:
  assumes "gave_up h rest outcome" shows "resolved (Following h # rest) outcome"
  using assms quiet_trace by (fastforce simp: gave_up_def resolved_def)

lemma drive_loop_resolved:
  assumes "drive_loop consume plan D sink ts p st = (actions, st', out)"
  shows "case out of
      None \<Rightarrow> cancelled actions = [] \<and> Ended \<notin> set actions \<and> (actions = [] \<or> followed actions \<noteq> [])
    | Some outcome \<Rightarrow> resolved actions outcome"
  using assms
proof (induction ts arbitrary: p st actions st' out)
  case (Cons t ts)
  obtain acts st1 nx where turn: "drive_turn consume plan D sink t p st = (acts, st1, nx)"
    by (cases "drive_turn consume plan D sink t p st") auto
  show ?case
  proof (cases nx)
    case (Stop outcome)
    with Cons.prems turn have out: "actions = acts" "out = Some outcome" by auto
    from drive_turn_cases [OF turn] show ?thesis
    proof (elim disjE exE conjE)
      fix h rest assume "acts = Following h # rest" "turn_ok h (rest, st1, nx)"
      with Stop out gave_up_resolved [of h rest outcome] quiet_trace show ?thesis
        by (fastforce simp: turn_ok_def saw_end_def resolved_def)
    next
      assume "Ended \<in> set acts" "quiet (tl acts)" "hd acts = Ended"
      with out quiet_trace [of "tl acts"] show ?thesis by (cases acts) (auto simp: resolved_def)
    qed
  next
    case (Go p')
    obtain more st2 where rec: "drive_loop consume plan D sink ts p' st1 = (more, st2, out)" "actions = acts @ more"
      using Cons.prems turn Go by (auto split: prod.splits)
    from drive_turn_cases [OF turn] Go obtain h rest where "acts = Following h # rest" "quiet rest"
      by (auto simp: turn_ok_def)
    with Cons.IH [OF rec(1)] rec(2) quiet_trace [of rest] show ?thesis
      by (cases "more = []") (auto simp: resolved_def split: option.splits SnowflakeOutcome.splits)
  qed
qed simp

lemma submit_quiet: "submit D request params ts learn_handle st = (actions, st', out) \<Longrightarrow> quiet actions"
proof (induction ts arbitrary: learn_handle st actions st' out)
  case (Cons t ts)
  then show ?case
    by (auto simp: Let_def split: if_splits prod.splits sum.splits SnowflakeOutcome.splits)
qed simp

lemma guard_settled: "dg_armed (guard_settle outcome g) = None \<and> \<not> dg_lease (guard_settle outcome g)"
  by (cases outcome) (simp_all add: guard_resolve_def)

text \<open>The statement a guard would cancel.\<close>

definition guarded :: "'v Driver \<Rightarrow> string option" where
  "guarded st = map_option snd (dg_armed (dr_guard st))"

lemma guarded_track [simp]: "guarded (track auth st) = guarded st"
  by (cases "dg_armed (dr_guard st)") (auto simp: guarded_def track_def guard_track_def)

lemma guarded_update [simp]:
  "guarded (st\<lparr>dr_machine := m\<rparr>) = guarded st" "guarded (st\<lparr>dr_reauth_left := n\<rparr>) = guarded st"
  "guarded (st\<lparr>dr_bounds := b\<rparr>) = guarded st" "guarded (st\<lparr>dr_poll_now := c\<rparr>) = guarded st"
  "guarded (st\<lparr>dr_polls := n\<rparr>) = guarded st" "guarded (st\<lparr>dr_fetched := n\<rparr>) = guarded st"
  by (simp_all add: guarded_def)

lemma after_eq: "after acts turn = (actions, st, nx) \<longleftrightarrow> (\<exists>rest. turn = (rest, st, nx) \<and> actions = acts @ rest)"
  by (cases turn) (auto simp: after_def)











lemma drive_guarded_cases:
  assumes "drive_guarded consume plan D sink start world = (actions, st, out)"
  shows "quiet actions \<and> (\<forall>v. out \<noteq> Some (Ok v))
    \<or> (\<exists>pre rest p st0 st'. quiet pre \<and> actions = pre @ rest \<and> st = Some st'
         \<and> drive_loop consume plan D sink (rw_turns world) p (armed (rw_lease world) p st0) = (rest, st', out))"
proof (cases "rw_descriptor world")
  case (Inr auth)
  show ?thesis
  proof (cases start)
    case (StartHandle h)
    with assms Inr have "drive_loop consume plan D sink (rw_turns world) (PollAgain h)
        (armed (rw_lease world) (PollAgain h) (new_driver auth (rw_started world) plan True)) = (actions, the st, out)"
      "st = Some (the st)" by (auto simp: drive_guarded_def split: prod.splits)
    moreover have "quiet ([] :: Action list)" "actions = [] @ actions" by simp_all
    ultimately show ?thesis by blast
  next
    case (StartSubmit request params)
    show ?thesis
    proof (cases "case cost_quota plan of None \<Rightarrow> False | Some quota \<Rightarrow> below_resume_minimum quota")
      case False
      obtain acts st1 first where sub: "submit D request params (rw_submits world) False
          (new_driver auth (rw_started world) plan False) = (acts, st1, first)"
        by (cases "submit D request params (rw_submits world) False
          (new_driver auth (rw_started world) plan False)") auto
      note quiet = submit_quiet [OF sub]
      show ?thesis
      proof (cases "\<exists>p. first = Some (Ok p)")
        case True
        with assms Inr StartSubmit False sub quiet show ?thesis
          by (fastforce simp: drive_guarded_def split: prod.splits)
      next
        case none: False
        with assms Inr StartSubmit False sub quiet show ?thesis
          by (cases first) (auto simp: drive_guarded_def split: SnowflakeOutcome.splits)
      qed
    qed (use assms Inr StartSubmit in \<open>auto simp: drive_guarded_def\<close>)
  qed
qed (use assms in \<open>auto simp: drive_guarded_def\<close>)


lemma resolved_after_quiet: "quiet pre \<Longrightarrow> resolved rest outcome \<Longrightarrow> resolved (pre @ rest) outcome"
  using quiet_trace [of pre] by (cases "rest = []") (auto simp: resolved_def split: SnowflakeOutcome.splits)

text \<open>
  C5. No statement is left running. When the driver returns, whatever the server, the runtime, the
  credential provider and the sink did, either it never had a handle and does not report success; or
  the server said the statement is over, and no cancel was sent; or exactly one cancel was sent, it
  was the last thing the driver did, it names the statement followed last, and the outcome is the
  cancellation with its reason, or the error or panic that made it give up. The guard is left without
  a statement and without a lease.
\<close>

theorem no_statement_is_orphaned:
  assumes "drive_statement consume plan D sink start world = (actions, g, Some outcome)"
  shows "(resolved actions outcome
      \<or> followed actions = [] \<and> cancelled actions = [] \<and> (\<forall>v. outcome \<noteq> Ok v))
    \<and> dg_armed g = None \<and> \<not> dg_lease g"
proof -
  obtain st where run: "drive_guarded consume plan D sink start world = (actions, st, Some outcome)"
    and g: "g = guard_settle outcome (case_option new_guard dr_guard st)"
    using assms by (auto simp: drive_statement_def split: prod.splits option.splits)
  from drive_guarded_cases [OF run] have "resolved actions outcome
      \<or> followed actions = [] \<and> cancelled actions = [] \<and> (\<forall>v. outcome \<noteq> Ok v)"
  proof (elim disjE conjE exE)
    fix pre rest p st0 st'
    assume "quiet pre" "actions = pre @ rest"
      "drive_loop consume plan D sink (rw_turns world) p (armed (rw_lease world) p st0) = (rest, st', Some outcome)"
    with drive_loop_resolved [of consume plan D sink "rw_turns world" p "armed (rw_lease world) p st0" rest st' "Some outcome"]
      resolved_after_quiet show ?thesis by auto
  qed (use quiet_trace in auto)
  with guard_settled [of outcome "case_option new_guard dr_guard st"] show ?thesis unfolding g by blast
qed


section \<open>Streamed rows\<close>

fun delivered_rows :: "Action \<Rightarrow> nat" where
  "delivered_rows (Delivering rows) = length rows"
| "delivered_rows a = 0"

definition delivered :: "Action list \<Rightarrow> nat" where
  "delivered actions = sum_list (map delivered_rows actions)"

lemma delivered_simps [simp]:
  "delivered [] = 0" "delivered (a # b) = delivered_rows a + delivered b" "delivered (x @ y) = delivered x + delivered y"
  "delivered (map (Fetching auth h) ns) = 0"
  by (simp_all add: delivered_def comp_def)

text \<open>A completed result and \<open>n\<close> rows handed out before it make up what the server announced.\<close>

definition whole_with :: "nat \<Rightarrow> 'v CompletedStatement \<Rightarrow> bool" where
  "whole_with n cs \<longleftrightarrow>
     is_multi_statement (cs_result_set cs)
     \<or> int (n + length (cs_rows cs)) = num_rows (meta_data (cs_result_set cs))"

definition counts :: "nat \<Rightarrow> 'v StatementMachine \<Rightarrow> bool" where
  "counts n m \<longleftrightarrow> machine_ok m \<and> (\<forall>a. phase m = Assembling a \<longrightarrow> drained_rows m = min usize_max n)"

definition in_step :: "PollPlan \<Rightarrow> nat \<Rightarrow> 'v Progress \<Rightarrow> 'v StatementMachine \<Rightarrow> bool" where
  "in_step plan n p m \<longleftrightarrow>
     counts n m \<and> poll_plan m = plan
     \<and> (case p of
          PollAgain h \<Rightarrow> phase m = Pending \<and> n = 0 \<and> polls_done m \<le> max_polls plan
        | FetchPartition h k \<Rightarrow> (\<exists>a. phase m = Assembling a \<and> as_next a = k)
        | Complete cs \<Rightarrow> whole_with n cs
        | _ \<Rightarrow> True)"

lemma partition_complete_small:
  assumes "on_partition c p b m = (Inr (Complete cs), m')"
  shows "num_rows (meta_data (cs_result_set cs)) \<le> i64_max"
  using assms total_count_ok
  by (cases rule: on_partition_cases [of c p b m]) (auto dest: total_count_ok)

lemma on_partition_in_step:
  assumes "on_partition c k b m = (r, m')" and "counts n m" and "poll_plan m = plan"
  shows "counts n m' \<and> poll_plan m' = plan \<and> (\<forall>p. r = Inr p \<longrightarrow> in_step plan n p m')"
proof -
  have "machine_ok m'" using on_partition_ok [of m c k b] assms(1,2) by (simp add: counts_def)
  moreover have "drained_rows m' = drained_rows m \<and> poll_plan m' = plan
      \<and> (\<forall>a'. phase m' = Assembling a' \<longrightarrow> (\<exists>a. phase m = Assembling a))
      \<and> (\<forall>p. r = Inr p \<longrightarrow> (\<exists>a. phase m = Assembling a)
           \<and> (case p of FetchPartition h k \<Rightarrow> (\<exists>a. phase m' = Assembling a \<and> as_next a = k) | Complete cs \<Rightarrow> True | _ \<Rightarrow> False))"
    using assms(1,3) by (cases rule: on_partition_cases [of c k b m]) auto
  moreover have "whole_with n cs" if "r = Inr (Complete cs)" for cs
  proof -
    from assms(1) that have e: "on_partition c k b m = (Inr (Complete cs), m')" by simp
    from partition_complete [OF e] assms(2)
    have rows: "int (drained_rows m + length (cs_rows cs)) = num_rows (meta_data (cs_result_set cs))"
      by (simp add: counts_def)
    from calculation that assms(2) have "drained_rows m = min usize_max n" by (auto simp: counts_def)
    with rows partition_complete_small [OF e] have "drained_rows m = n"
      by (auto simp: usize_max_def i64_max_def min_def split: if_splits)
    with rows show ?thesis by (simp add: whole_with_def)
  qed
  ultimately show ?thesis using assms(2)
    by (auto simp: counts_def in_step_def split: Progress.splits)
qed

lemma terminal_result_in_step:
  assumes "enter_terminal_result rs raw m = (r, m')" and "counts 0 m" and "phase m = Pending" and "poll_plan m = plan"
  shows "counts 0 m' \<and> poll_plan m' = plan \<and> (\<forall>p. r = Inr p \<longrightarrow> in_step plan 0 p m')"
proof -
  have "machine_ok m'" using terminal_result_ok [of m rs raw] assms(1-3) by (simp add: counts_def machine_ok_def)
  moreover have "drained_rows m' = 0" "poll_plan m' = plan"
    using terminal_result_fields(2,3) [of rs raw m] assms by (auto simp: counts_def machine_ok_def)
  moreover have "case r of Inr (PollAgain h) \<Rightarrow> False
      | Inr (FetchPartition h k) \<Rightarrow> (\<exists>a. phase m' = Assembling a \<and> as_next a = k) | _ \<Rightarrow> True"
    using assms(1) by (cases rule: enter_terminal_result_cases [of rs raw m]) auto
  moreover have "whole_with 0 cs" if "r = Inr (Complete cs)" for cs
    using terminal_result_complete [of rs raw m cs] that assms(1) by (auto simp: whole_with_def)
  ultimately show ?thesis by (auto simp: counts_def in_step_def split: Progress.splits)
qed

text \<open>A turn that ends the run without rows and without success.\<close>

definition fails :: "'v turn \<Rightarrow> bool" where
  "fails turn \<longleftrightarrow> (\<exists>actions st outcome. turn = (actions, st, Stop outcome) \<and> delivered actions = 0 \<and> (\<forall>cs. outcome \<noteq> Ok cs))"

lemma failsI [simp, intro]:
  "fails (cancel_locally st h reason)" "fails (abandon_with_error st h e)" "fails (abandon_with_outcome st h Panicked)"
  by (auto simp: fails_def cancel_locally_def abandon_with_error_def abandon_with_outcome_def)

lemma answered_fails: "answered_or_give_up st h outcome = Inl turn \<Longrightarrow> fails turn"
  by (cases outcome) auto

lemma fails_after: "fails turn \<Longrightarrow> delivered actions = 0 \<Longrightarrow> fails (after actions turn)"
  by (auto simp: fails_def after_def)

lemma reauthorized_machine:
  assumes "reauthorized t h window_auth index response st = (actions, st', r)"
  shows "dr_machine st' = dr_machine st" "delivered actions = 0" "r = Inl turn \<Longrightarrow> fails turn"
  using assms
  by (auto simp: reauthorized_def Let_def track_def split: if_splits prod.splits option.splits sum.splits
      dest: answered_fails intro: failsI)

text \<open>The partitions still to come.\<close>

definition remaining :: "'v StatementMachine \<Rightarrow> nat" where
  "remaining m = (case phase m of Assembling a \<Rightarrow> as_total a - as_next a | _ \<Rightarrow> 0)"

lemma on_partition_remaining:
  assumes "on_partition c k b m = (Inr p, m')" and "machine_ok m"
  shows "remaining m' < remaining m"
  using assms(1)
proof (cases rule: on_partition_cases [of c k b m])
  case (completed a raw new cs)
  with assms show ?thesis by (auto simp: remaining_def machine_ok_def assembly_ok_def)
next
  case (continued a raw new)
  with assms show ?thesis by (auto simp: remaining_def machine_ok_def assembly_ok_def sat_add_def partition_total_def)
qed auto

lemma on_partition_not_poll: "on_partition c k b m \<noteq> (Inr (PollAgain h), m')"
  by (cases rule: on_partition_cases [of c k b m]) auto

lemma window_turn_in_step:
  assumes "window_turn t h window_auth indices after_window st = (actions, st', next_step)"
    and "counts n (dr_machine st)" and "poll_plan (dr_machine st) = plan"
    and "\<And>p. after_window = Some p \<Longrightarrow> in_step plan n p (dr_machine st)"
  shows "fails (actions, st', next_step)
    \<or> (\<exists>p. next_step = Go p \<and> delivered actions = 0 \<and> in_step plan n p (dr_machine st')
        \<and> (\<forall>h. p = PollAgain h \<longrightarrow> after_window = Some p)
        \<and> (if indices = [] then remaining (dr_machine st') = remaining (dr_machine st)
           else remaining (dr_machine st') < remaining (dr_machine st)))"
  using assms
proof (induction indices arbitrary: after_window st actions)
  case Nil
  show ?case
  proof (cases after_window)
    case None
    with Nil(1) have "fails (actions, st', next_step)" by (metis failsI(2) option.simps(4) window_turn.simps(1))
    then show ?thesis ..
  next
    case (Some p)
    with Nil(1,4) show ?thesis by auto
  qed
next
  case (Cons index indices)
  show ?case
  proof (cases "answered_or_give_up st h (dt_fetch t index)")
    case (Inl turn)
    with Cons.prems(1) answered_fails [OF Inl] show ?thesis by simp
  next
    case (Inr response)
    obtain acts st1 r where re: "reauthorized t h window_auth index response st = (acts, st1, r)"
      by (cases "reauthorized t h window_auth index response st") auto
    note m1 = reauthorized_machine [OF re]
    show ?thesis
    proof (cases r)
      case (Inl turn)
      with Cons.prems(1) Inr re have "(actions, st', next_step) = after acts turn" by simp
      with m1(2) m1(3) [OF Inl] fails_after show ?thesis by metis
    next
      case body: (Inr response2)
      obtain r2 m where part: "on_partition (response_class (pb_status response2)) index (pb_body response2) (dr_machine st1) = (r2, m)"
        by fastforce
      note step = on_partition_in_step [OF part, of n plan, unfolded m1(1), OF Cons.prems(2,3)]
      let ?st = "st1\<lparr>dr_reauth_left := 1, dr_machine := m\<rparr>"
      show ?thesis
      proof (cases r2)
        case (Inl e)
        with Cons.prems(1) Inr re body part
        have "(actions, st', next_step) = after acts (abandon_with_error ?st h (into_snowflake_error e []))" by simp
        with m1(2) show ?thesis by (metis failsI(2) fails_after)
      next
        case go: (Inr p)
        have less: "remaining m < remaining (dr_machine st)"
          using on_partition_remaining [of _ _ _ "dr_machine st1" p m] part go Cons.prems(2) m1(1) by (simp add: counts_def)
        from Cons.prems(1) Inr re body part go obtain rest where rest:
          "window_turn t h window_auth indices (Some p) ?st = (rest, st', next_step)" "actions = acts @ rest"
          by (auto simp: after_eq)
        from on_partition_not_poll part go have "\<forall>h. p \<noteq> PollAgain h" by blast
        with Cons.IH [OF rest(1)] step go have
          "fails (rest, st', next_step)
           \<or> (\<exists>p. next_step = Go p \<and> delivered rest = 0 \<and> in_step plan n p (dr_machine st')
              \<and> (\<forall>h. p \<noteq> PollAgain h)
              \<and> (if indices = [] then remaining (dr_machine st') = remaining m
                 else remaining (dr_machine st') < remaining m))" by auto
        with less m1(2) rest(2) show ?thesis by (auto simp: fails_def split: if_splits)
      qed
    qed
  qed
qed

lemma on_poll_in_step:
  assumes "on_poll D c b m = (Inr p, m')" and "in_step plan 0 (PollAgain h) m" and "max_polls plan < u32_max"
  shows "in_step plan 0 p m' \<and> (\<forall>h'. p = PollAgain h' \<longrightarrow> polls_done m' = Suc (polls_done m))"
proof -
  let ?m = "m\<lparr>polls_done := sat_add u32_max (polls_done m) 1\<rparr>"
  from assms(2) have m: "counts 0 m" "poll_plan m = plan" "phase m = Pending" "polls_done m \<le> max_polls plan"
    by (simp_all add: in_step_def)
  from m have m1: "counts 0 ?m" "phase ?m = Pending" by (simp_all add: counts_def machine_ok_def)
  have succ: "polls_done ?m = Suc (polls_done m)" using m(4) assms(3) by (simp add: sat_add_def)
  consider rs where "enter_terminal_result rs (inline_raw b) ?m = (Inr p, m')"
    | f where "p = TimedOut f \<or> p = Failed f" "m' = ?m\<lparr>phase := Done\<rparr>"
    | h' where "p = PollAgain h'" "m' = ?m" "polls_done ?m \<le> max_polls plan"
    using assms(1) m(2,3)
    by (cases c) (auto simp: on_poll_def Let_def enter_terminal_timeout_def enter_terminal_failure_def
        split: if_splits option.splits)
  then show ?thesis
  proof cases
    case (1 rs)
    have "\<not> asks_again (Inr p :: LifecycleErrorCode + 'a Progress)"
      using terminal_result_fields(4) [of rs "inline_raw b" ?m] 1 by simp
    with terminal_result_in_step [OF 1 m1, of plan] m(2) show ?thesis by (auto simp: asks_again_def)
  next
    case (2 f)
    with m(2) show ?thesis by (auto simp: in_step_def counts_def machine_ok_def)
  next
    case (3 h')
    with m m1 succ show ?thesis by (auto simp: in_step_def)
  qed
qed

lemma wait_and_check_machine:
  "wait_and_check consume plan t st = (st', r) \<Longrightarrow> dr_machine st' = dr_machine st \<and> dr_reauth_left st' = dr_reauth_left st"
  by (auto simp: wait_and_check_def Let_def split: option.splits prod.splits)

lemma track_fields [simp]:
  "dr_machine (track auth st) = dr_machine st" "dr_reauth_left (track auth st) = dr_reauth_left st"
  by (simp_all add: track_def)

text \<open>How many more turns a progress can take.\<close>

definition weight :: "PollPlan \<Rightarrow> 'v Progress \<Rightarrow> 'v Driver \<Rightarrow> nat" where
  "weight plan p st =
     (case p of
        PollAgain h \<Rightarrow> u32_max + 3 + 2 * (max_polls plan - polls_done (dr_machine st)) + dr_reauth_left st
      | FetchPartition h k \<Rightarrow> Suc (remaining (dr_machine st))
      | _ \<Rightarrow> 0)"

lemma remaining_small: "machine_ok m \<Longrightarrow> remaining m \<le> u32_max"
  by (auto simp: remaining_def machine_ok_def assembly_ok_def partition_total_def split: Phase.splits)

definition good_turn :: "PollPlan \<Rightarrow> nat \<Rightarrow> 'v Progress \<Rightarrow> 'v Driver \<Rightarrow> 'v turn \<Rightarrow> bool" where
  "good_turn plan n p st turn \<longleftrightarrow>
     (case turn of
        (actions, st', Go p') \<Rightarrow>
          in_step plan (n + delivered actions) p' (dr_machine st') \<and> weight plan p' st' < weight plan p st
          \<and> (\<forall>h. p' = PollAgain h \<longrightarrow> dr_reauth_left st' \<le> 1)
      | (actions, st', Stop (Ok cs)) \<Rightarrow> is_partial cs \<or> whole_with (n + delivered actions) cs
      | _ \<Rightarrow> True)"

lemma fails_good: "fails turn \<Longrightarrow> good_turn plan n p st turn"
  by (auto simp: fails_def good_turn_def split: SnowflakeOutcome.splits)

lemma refresh_left:
  "refresh_after_unauthorized refresh refreshed left step = (left', Inr auth) \<Longrightarrow> left = Suc left'"
  by (auto simp: refresh_after_unauthorized_def split: if_splits)

lemma good_after:
  "good_turn plan n p st (after actions turn) \<longleftrightarrow> good_turn plan (n + delivered actions) p st turn"
  by (cases turn) (auto simp: good_turn_def after_def add.assoc split: Next.splits SnowflakeOutcome.splits)

lemma poll_turn_good:
  assumes "in_step plan n (PollAgain h) (dr_machine st)" and "max_polls plan < u32_max" and "dr_reauth_left st \<le> 1"
  shows "good_turn plan n (PollAgain h) st (poll_turn consume plan D t h st)"
proof -
  obtain st1 r where w: "wait_and_check consume plan t st = (st1, r)" by fastforce
  note m1 = wait_and_check_machine [OF w]
  show ?thesis
  proof (cases r)
    case None
    show ?thesis
    proof (cases "dt_descriptor t")
      case (Inr auth)
      let ?st = "track auth (st1\<lparr>dr_polls := sat_add u32_max (dr_polls st1) 1\<rparr>)"
      show ?thesis
      proof (cases "answered_or_give_up ?st h (dt_poll t)")
        case (Inl turn)
        with w None Inr answered_fails [OF Inl] show ?thesis
          by (simp add: poll_turn_def Let_def good_after fails_good)
      next
        case ans: (Inr response)
        show ?thesis
        proof (cases "hb_status response = StatusClass.Unauthorized")
          case True
          obtain left f where refresh:
            "refresh_after_unauthorized (dt_refresh t 0) (dt_refreshed t 0) (dr_reauth_left ?st) ''poll'' = (left, f)"
            by fastforce
          show ?thesis
          proof (cases f)
            case (Inl e)
            with w None Inr ans True m1 refresh show ?thesis
              by (simp add: poll_turn_def Let_def good_after fails_good)
          next
            case fresh: (Inr auth2)
            with refresh refresh_left have "dr_reauth_left ?st = Suc left" by blast
            with w None Inr ans True m1 refresh fresh assms show ?thesis
              by (simp add: poll_turn_def Let_def after_def good_turn_def weight_def)
          qed
        next
          case False
          obtain r2 m where poll: "on_poll D (response_class (hb_status response)) (hb_body response) (dr_machine ?st) = (r2, m)"
            by fastforce
          show ?thesis
          proof (cases r2)
            case (Inl e)
            with w None Inr ans False poll show ?thesis
              by (simp add: poll_turn_def Let_def good_after fails_good)
          next
            case go: (Inr p)
            from assms(1) have n: "n = 0" by (simp add: in_step_def)
            have step: "in_step plan 0 p m \<and> (\<forall>h'. p = PollAgain h' \<longrightarrow> polls_done m = Suc (polls_done (dr_machine st)))"
              using on_poll_in_step [of D _ _ "dr_machine st" p m plan h] poll go m1 assms(1,2) n by simp
            then have "machine_ok m" by (simp add: in_step_def counts_def)
            from remaining_small [OF this] step
            have "weight plan p (?st\<lparr>dr_reauth_left := 1, dr_machine := m\<rparr>) < weight plan (PollAgain h) st"
              by (auto simp: weight_def in_step_def split: Progress.splits)
            with w None Inr ans False poll go step n show ?thesis
              by (simp add: poll_turn_def Let_def after_def good_turn_def)
          qed
        qed
      qed
    qed (use w None in \<open>simp add: poll_turn_def Let_def fails_good\<close>)
  qed (use w in \<open>simp add: poll_turn_def fails_good\<close>)
qed

lemma hand_over_in_step:
  assumes "hand_over sink t st = (actions, st', e)" and "in_step plan n (FetchPartition h k) (dr_machine st)"
  shows "in_step plan (n + delivered actions) (FetchPartition h k) (dr_machine st')
    \<and> remaining (dr_machine st') = remaining (dr_machine st)"
proof (cases sink)
  case True
  from assms(2) obtain a where a: "phase (dr_machine st) = Assembling a" "as_next a = k"
    "machine_ok (dr_machine st)" "drained_rows (dr_machine st) = min usize_max n" "poll_plan (dr_machine st) = plan"
    by (auto simp: in_step_def counts_def)
  let ?m1 = "snd (drain_raw_partitions (dr_machine st))"
  have ok: "machine_ok (snd (drain_rows ?m1))" using drain_raw_ok drain_rows_ok a(3) by blast
  have m: "phase (snd (drain_rows ?m1)) = Assembling (a\<lparr>as_rows := [], as_raw_partitions := []\<rparr>)"
    "drained_rows (snd (drain_rows ?m1)) = sat_add usize_max (min usize_max n) (length (as_rows a))"
    "poll_plan (snd (drain_rows ?m1)) = plan" "fst (drain_rows ?m1) = as_rows a"
    using a by (simp_all add: drain_raw_partitions_def drain_rows_def)
  have "delivered actions = length (as_rows a)" "dr_machine st' = snd (drain_rows ?m1)"
    using assms(1) True m by (auto simp: hand_over_def Let_def machine_result_set_def split: prod.splits if_splits)
  with ok m a show ?thesis
    by (auto simp: in_step_def counts_def remaining_def sat_add_def)
qed (use assms in \<open>simp add: hand_over_def\<close>)

lemma complete_early_partial:
  assumes "complete_early m = (Inr done, m')" and "machine_ok m"
  shows "is_partial done"
  using assms by (auto simp: complete_early_def is_partial_def machine_ok_def assembly_ok_def split: Phase.splits)

lemma hand_out_good:
  assumes "is_partial completed \<or> whole_with n completed"
  shows "good_turn plan n p st (hand_out sink answer st' completed)"
  using assms by (auto simp: good_turn_def hand_out_def whole_with_def is_partial_def split: option.splits)

lemma fetch_turn_good:
  assumes "in_step plan n (FetchPartition h k) (dr_machine st)"
  shows "good_turn plan n (FetchPartition h k) st (fetch_turn plan sink t h k st)"
proof (cases "dt_checkpoint t")
  case None
  obtain acts st1 e where over: "hand_over sink t st = (acts, st1, e)"
    by (cases "hand_over sink t st") auto
  note step = hand_over_in_step [OF over assms]
  let ?n = "n + delivered acts"
  show ?thesis
  proof (cases e)
    case (Some err)
    with None over show ?thesis by (simp add: fetch_turn_def good_after fails_good)
  next
    case no_error: None
    from step obtain a where a: "phase (dr_machine st1) = Assembling a" "as_next a = k"
      and counts: "counts ?n (dr_machine st1)" "poll_plan (dr_machine st1) = plan"
      by (auto simp: in_step_def)
    note fetch = fetch_turn_def Let_def None over no_error assembling_window_def a(1)
    show ?thesis
    proof (cases "case row_cap plan of None \<Rightarrow> False | Some cap \<Rightarrow> rows_assembled (dr_machine st1) \<ge> cap")
      case True
      show ?thesis
      proof (cases "complete_early (dr_machine st1)")
        case (Pair early m)
        with True counts complete_early_partial [of "dr_machine st1"] show ?thesis
          by (cases early) (auto simp: fetch good_after counts_def intro!: fails_good hand_out_good)
      qed
    next
      case False
      show ?thesis
      proof (cases "dt_descriptor t")
        case (Inl err)
        with False show ?thesis by (simp add: fetch good_after fails_good)
      next
        case (Inr auth)
        obtain indices where indices: "indices
            = [as_next a ..< min (sat_add u32_max (as_next a) (effective_partition_concurrency plan)) (as_total a)]"
          by blast
        have some: "indices \<noteq> []"
          using a(1) counts(1)
          by (auto simp: indices counts_def machine_ok_def assembly_ok_def sat_add_def partition_total_def
              effective_partition_concurrency_def clamp_def MAX_PARTITION_CONCURRENCY_def)
        let ?st = "track auth st1\<lparr>dr_fetched := sat_add u32_max (dr_fetched (track auth st1)) (length indices)\<rparr>"
        obtain rest st2 nx where window: "window_turn t h auth indices None ?st = (rest, st2, nx)"
          by (cases "window_turn t h auth indices None ?st") auto
        from window_turn_in_step [OF window, of ?n plan] counts some
        have cases: "fails (rest, st2, nx) \<or> (\<exists>p. nx = Go p \<and> delivered rest = 0 \<and> in_step plan ?n p (dr_machine st2)
          \<and> (\<forall>h. p \<noteq> PollAgain h) \<and> remaining (dr_machine st2) < remaining (dr_machine st1))" by auto
        have run: "fetch_turn plan sink t h k st = after acts (after (map (Fetching auth h) indices) (rest, st2, nx))"
          using False Inr window by (simp add: fetch indices)
        from cases show ?thesis
        proof (elim disjE exE conjE)
          fix p
          assume p: "nx = Go p" "delivered rest = 0" "in_step plan ?n p (dr_machine st2)"
            "\<forall>h. p \<noteq> PollAgain h" "remaining (dr_machine st2) < remaining (dr_machine st1)"
          with step show ?thesis unfolding run good_after
            by (auto simp: good_turn_def weight_def split: Progress.splits)
        qed (simp add: run good_after fails_good)
      qed
    qed
  qed
qed (simp add: fetch_turn_def fails_good)

lemma drive_turn_good:
  assumes "in_step plan n p (dr_machine st)" and "max_polls plan < u32_max"
    and "\<And>h. p = PollAgain h \<Longrightarrow> dr_reauth_left st \<le> 1"
  shows "good_turn plan n p st (drive_turn consume plan D sink t p st)"
proof (cases p)
  case (PollAgain h)
  with poll_turn_good [of plan n h st] assms show ?thesis by (simp add: drive_turn_def good_after)
next
  case (FetchPartition h k)
  with fetch_turn_good [of plan n h k st] assms show ?thesis by (simp add: drive_turn_def good_after)
next
  case (Complete cs)
  with assms(1) show ?thesis by (simp add: drive_turn_def in_step_def hand_out_good)
qed (simp_all add: drive_turn_def good_turn_def)

lemma drive_loop_good:
  assumes "drive_loop consume plan D sink ts p st = (actions, st', out)"
    and "in_step plan n p (dr_machine st)" and "max_polls plan < u32_max"
    and "\<And>h. p = PollAgain h \<Longrightarrow> dr_reauth_left st \<le> 1"
  shows "(\<forall>cs. out = Some (Ok cs) \<longrightarrow> is_partial cs \<or> whole_with (n + delivered actions) cs)
    \<and> (weight plan p st < length ts \<longrightarrow> out \<noteq> None)"
  using assms
proof (induction ts arbitrary: p st n actions st' out)
  case (Cons t ts)
  obtain acts st1 nx where turn: "drive_turn consume plan D sink t p st = (acts, st1, nx)"
    by (cases "drive_turn consume plan D sink t p st") auto
  have "good_turn plan n p st (drive_turn consume plan D sink t p st)"
    by (rule drive_turn_good) (use Cons.prems in auto)
  with turn have good: "good_turn plan n p st (acts, st1, nx)" by simp
  show ?case
  proof (cases nx)
    case (Stop outcome)
    with Cons.prems(1) turn good show ?thesis by (auto simp: good_turn_def)
  next
    case (Go p')
    with Cons.prems(1) turn obtain more st2 where rec:
      "drive_loop consume plan D sink ts p' st1 = (more, st2, out)" "actions = acts @ more"
      by (auto split: prod.splits)
    from good Go have step: "in_step plan (n + delivered acts) p' (dr_machine st1)"
      "weight plan p' st1 < weight plan p st" "\<And>h. p' = PollAgain h \<Longrightarrow> dr_reauth_left st1 \<le> 1"
      by (auto simp: good_turn_def)
    from Cons.IH [OF rec(1) step(1) Cons.prems(3) step(3)] step(2) rec(2) show ?thesis
      by (auto simp: add.assoc)
  qed
qed simp

lemma new_machine_in_step: "in_step plan 0 (PollAgain h) (new_machine plan)"
  by (simp add: in_step_def counts_def new_machine_def machine_ok_def)

lemma on_submit_in_step:
  assumes "on_submit D c b (new_machine plan) = (Inr p, m')"
  shows "in_step plan 0 p m'"
proof -
  let ?m = "new_machine plan"
  have m: "counts 0 ?m" "phase ?m = Pending" "poll_plan ?m = plan" "polls_done ?m = 0" "drained_rows ?m = 0"
    by (simp_all add: counts_def new_machine_def machine_ok_def)
  consider rs where "enter_terminal_result rs (inline_raw b) ?m = (Inr p, m')"
    | f where "p = TimedOut f \<or> p = Failed f" "m' = ?m\<lparr>phase := Done\<rparr>"
    | h' where "p = PollAgain h'" "m' = ?m"
    using assms m(2)
    by (cases c) (auto simp: on_submit_def enter_terminal_timeout_def enter_terminal_failure_def
        split: if_splits option.splits)
  then show ?thesis
  proof cases
    case (1 rs)
    from terminal_result_in_step [OF this m(1,2,3)] show ?thesis by blast
  next
    case (2 f)
    with m show ?thesis by (auto simp: in_step_def counts_def machine_ok_def)
  next
    case (3 h')
    with new_machine_in_step show ?thesis by simp
  qed
qed

lemma failed_submit_not_ok: "failed_submit_outcome t learn_handle (Err e) \<noteq> Ok v"
  "failed_submit_outcome t learn_handle (OutcomeCancelled k) \<noteq> Ok v"
  "failed_submit_outcome t learn_handle Panicked \<noteq> Ok v"
  by (auto simp: failed_submit_outcome_def split: option.splits)

lemma submit_in_step:
  assumes "submit D request params ts learn_handle st = (actions, st', out)" and "dr_machine st = new_machine plan"
    and "dr_reauth_left st \<le> 1"
  shows "delivered actions = 0
    \<and> (\<forall>p. out = Some (Ok p) \<longrightarrow> in_step plan 0 p (dr_machine st') \<and> dr_reauth_left st' \<le> 1)
    \<and> (dr_reauth_left st + (if learn_handle then 0 else 1) < length ts \<longrightarrow> out \<noteq> None)"
  using assms
proof (induction ts arbitrary: learn_handle st actions st' out)
  case (Cons t ts)
  show ?case
  proof (cases "\<not> learn_handle \<and> su_checkpoint t \<noteq> None")
    case True
    with Cons.prems show ?thesis by (auto simp: Let_def)
  next
    case check: False
    show ?thesis
    proof (cases "answers_early request params \<and> \<not> learn_handle \<and> su_gave_up t")
      case True
      with check Cons.prems obtain more where
        "submit D request params ts True st = (more, st', out)" "delivered actions = delivered more"
        by (auto simp: Let_def split: prod.splits)
      with Cons.IH [of True st more st' out] Cons.prems True show ?thesis by auto
    next
      case no_early: False
      show ?thesis
      proof (cases "\<exists>response. su_answer t = Ok response \<and> hb_status response = StatusClass.Unauthorized")
        case True
        obtain left f where refresh: "refresh_after_unauthorized (su_refresh t) (su_refreshed t) (dr_reauth_left st) ''submit'' = (left, f)"
          by fastforce
        show ?thesis
        proof (cases f)
          case (Inl e)
          with check no_early True refresh Cons.prems show ?thesis
            by (auto simp: Let_def failed_submit_not_ok)
        next
          case (Inr fresh)
          with refresh refresh_left have left: "dr_reauth_left st = Suc left" by blast
          from Inr check no_early True refresh Cons.prems obtain more where
            "submit D request params ts learn_handle (st\<lparr>dr_reauth_left := left, dr_auth := fresh\<rparr>) = (more, st', out)"
            "delivered actions = delivered more"
            by (auto simp: Let_def split: prod.splits)
          with Cons.IH [of learn_handle "st\<lparr>dr_reauth_left := left, dr_auth := fresh\<rparr>" more st' out] Cons.prems left
          show ?thesis by auto
        qed
      next
        case False
        with check no_early Cons.prems on_submit_in_step [of D _ _ plan] show ?thesis
          by (auto simp: Let_def failed_submit_not_ok split: SnowflakeOutcome.splits prod.splits sum.splits)
      qed
    qed
  qed
qed simp

lemma armed_fields [simp]:
  "dr_machine (armed granted p st) = dr_machine st" "dr_reauth_left (armed granted p st) = dr_reauth_left st"
  by (simp_all add: armed_def)

lemma drive_guarded_in_step:
  assumes "drive_guarded consume plan D sink start world = (actions, st, out)"
  shows "(\<forall>v. out \<noteq> Some (Ok v)) \<and> (2 < length (rw_submits world) \<longrightarrow> out \<noteq> None)
    \<or> (\<exists>pre rest p st0 st'. actions = pre @ rest \<and> delivered pre = 0
         \<and> in_step plan 0 p (dr_machine st0) \<and> dr_reauth_left st0 \<le> 1
         \<and> drive_loop consume plan D sink (rw_turns world) p (armed (rw_lease world) p st0) = (rest, st', out))"
proof (cases "rw_descriptor world")
  case (Inr auth)
  show ?thesis
  proof (cases start)
    case (StartHandle h)
    let ?st = "new_driver auth (rw_started world) plan True :: 'a Driver"
    from StartHandle assms Inr have "drive_loop consume plan D sink (rw_turns world) (PollAgain h)
        (armed (rw_lease world) (PollAgain h) ?st) = (actions, the st, out)"
      by (auto simp: drive_guarded_def split: prod.splits)
    moreover have "in_step plan 0 (PollAgain h) (dr_machine ?st)" "dr_reauth_left ?st \<le> 1"
      by (simp_all add: new_driver_def new_machine_in_step)
    moreover have "actions = [] @ actions" "delivered [] = 0" by simp_all
    ultimately show ?thesis by blast
  next
    case (StartSubmit request params)
    show ?thesis
    proof (cases "case cost_quota plan of None \<Rightarrow> False | Some quota \<Rightarrow> below_resume_minimum quota")
      case False
      let ?st = "new_driver auth (rw_started world) plan False :: 'a Driver"
      obtain acts st1 first where sub: "submit D request params (rw_submits world) False ?st = (acts, st1, first)"
        by (cases "submit D request params (rw_submits world) False ?st") auto
      have "dr_machine ?st = new_machine plan" "dr_reauth_left ?st = 1" by (simp_all add: new_driver_def)
      with submit_in_step [OF sub, of plan] have step: "delivered acts = 0"
        "\<And>p. first = Some (Ok p) \<Longrightarrow> in_step plan 0 p (dr_machine st1) \<and> dr_reauth_left st1 \<le> 1"
        "2 < length (rw_submits world) \<Longrightarrow> first \<noteq> None" by auto
      show ?thesis
      proof (cases "\<exists>p. first = Some (Ok p)")
        case True
        then obtain p where p: "first = Some (Ok p)" by blast
        obtain rest st2 out2 where "drive_loop consume plan D sink (rw_turns world) p (armed (rw_lease world) p st1) = (rest, st2, out2)"
          by (cases "drive_loop consume plan D sink (rw_turns world) p (armed (rw_lease world) p st1)") auto
        moreover from this assms Inr StartSubmit False sub p have "actions = acts @ rest" "out = out2"
          by (auto simp: drive_guarded_def)
        ultimately show ?thesis using step(1) step(2) [OF p] by blast
      next
        case none: False
        with assms Inr StartSubmit False sub step(3) show ?thesis
          by (cases first) (auto simp: drive_guarded_def split: SnowflakeOutcome.splits)
      qed
    qed (use assms Inr StartSubmit in \<open>auto simp: drive_guarded_def\<close>)
  qed
qed (use assms in \<open>auto simp: drive_guarded_def\<close>)


text \<open>
  C6. The driver returns. With a poll quota below the largest 32-bit count it needs at most three
  submissions and then two turns for each poll of the quota, one for each partition and a few more:
  given that many turns of the runtime it has returned, whatever they hold.
\<close>

theorem driver_returns:
  assumes "max_polls plan < u32_max" and "2 < length (rw_submits world)"
    and "2 * max_polls plan + u32_max + 4 < length (rw_turns world)"
    and "drive_statement consume plan D sink start world = (actions, g, out)"
  shows "out \<noteq> None"
proof -
  from assms(4) obtain st where "drive_guarded consume plan D sink start world = (actions, st, out)"
    by (auto simp: drive_statement_def split: prod.splits option.splits)
  from drive_guarded_in_step [OF this] assms(2) consider "out \<noteq> None"
    | rest p st0 st' where "in_step plan 0 p (dr_machine st0)" "dr_reauth_left st0 \<le> 1"
      "drive_loop consume plan D sink (rw_turns world) p (armed (rw_lease world) p st0) = (rest, st', out)"
    by blast
  then show ?thesis
  proof cases
    case (2 rest p st0 st')
    from 2(1) have "machine_ok (dr_machine st0)" by (simp add: in_step_def counts_def)
    from remaining_small [OF this] 2(2) have "weight plan p (armed (rw_lease world) p st0) \<le> 2 * max_polls plan + u32_max + 4"
      by (auto simp: weight_def split: Progress.splits)
    with drive_loop_good [OF 2(3) _ assms(1), of 0] 2(1,2) assms(3) show ?thesis by auto
  qed
qed

section \<open>Submissions\<close>

definition submission :: "SubmitStatementRequest \<Rightarrow> SubmitQueryParams \<Rightarrow> bool \<Rightarrow> Action \<Rightarrow> bool" where
  "submission request params early action \<longleftrightarrow>
     (\<exists>auth asynchronous. action = Submitting \<lparr>sr_route = submit_route (params\<lparr>sq_asynchronous := asynchronous\<rparr>),
          sr_auth = auth, sr_body = sq_body request, sr_retry_resubmit = sq_retry params\<rparr>
        \<and> (early \<or> asynchronous = sq_asynchronous params))"

definition refused_login :: "SubmitTurn \<Rightarrow> bool" where
  "refused_login t \<longleftrightarrow> (\<exists>response. su_answer t = Ok response \<and> hb_status response = StatusClass.Unauthorized)"

lemma submit_submissions:
  assumes "submit D request params ts learn_handle st = (actions, st', out)" and "dr_reauth_left st \<le> 1"
    and "learn_handle \<Longrightarrow> answers_early request params"
  shows "list_all (submission request params (answers_early request params)) actions
    \<and> length actions \<le> 1 + dr_reauth_left st + (if answers_early request params \<and> \<not> learn_handle then 1 else 0)
    \<and> (\<forall>k. Suc k < length actions \<longrightarrow> \<not> answers_early request params \<longrightarrow> k < length ts \<and> refused_login (ts ! k))"
  using assms
proof (induction ts arbitrary: learn_handle st actions st' out)
  case (Cons t ts)
  let ?sent = "Submitting \<lparr>sr_route = submit_route (if learn_handle then params\<lparr>sq_asynchronous := True\<rparr> else params),
             sr_auth = dr_auth st, sr_body = sq_body request, sr_retry_resubmit = sq_retry params\<rparr>"
  have "params\<lparr>sq_asynchronous := sq_asynchronous params\<rparr> = params" by simp
  then have sent: "submission request params (answers_early request params) ?sent"
    using Cons.prems(3) unfolding submission_def
    by (intro exI [of _ "dr_auth st"] exI [of _ "if learn_handle then True else sq_asynchronous params"]) simp
  consider "actions = []" | "actions = [?sent]"
    | more where "actions = ?sent # more" "answers_early request params" "\<not> learn_handle"
        "submit D request params ts True st = (more, st', out)"
    | more left fresh where "actions = ?sent # more" "refused_login t" "dr_reauth_left st = Suc left"
        "submit D request params ts learn_handle (st\<lparr>dr_reauth_left := left, dr_auth := fresh\<rparr>) = (more, st', out)"
    using Cons.prems(1)
    by (auto simp: Let_def refused_login_def split: if_splits SnowflakeOutcome.splits prod.splits sum.splits
        dest: refresh_left)
  then show ?case
  proof cases
    case (3 more)
    with Cons.IH [OF 3(4) Cons.prems(2)] sent show ?thesis by auto
  next
    case (4 more left fresh)
    from Cons.IH [OF 4(4)] 4(3) Cons.prems(2,3) have
      "list_all (submission request params (answers_early request params)) more"
      "length more \<le> 1 + left + (if answers_early request params \<and> \<not> learn_handle then 1 else 0)"
      "\<And>k. Suc k < length more \<Longrightarrow> \<not> answers_early request params \<Longrightarrow> k < length ts \<and> refused_login (ts ! k)"
      by auto
    moreover have "Suc k < length more \<or> k = 0" if "Suc (Suc k) < Suc (length more) \<or> k = 0" for k using that by auto
    ultimately show ?thesis using 4(1-3) sent
      by (auto simp: nth_Cons split: nat.splits)
  qed (use sent in auto)
qed simp

text \<open>
  C23. What may run twice is not submitted twice. A statement is submitted at most three times, always
  with the same body and, but for the flag that asks for the handle alone, the same query; unless it
  is a side-effect-free read with a request identifier and \<^verbatim>\<open>retry=true\<close>, at most twice, with the same
  query, and the second time only because the first was answered 401.
\<close>

theorem submissions_are_safe:
  assumes "submit D request params ts False (new_driver auth started plan poll_now) = (actions, st', out)"
  shows "list_all (submission request params (answers_early request params)) actions \<and> length actions \<le> 3
    \<and> (\<not> answers_early request params \<longrightarrow> length actions \<le> 2 \<and> (length actions = 2 \<longrightarrow> refused_login (hd ts)))"
proof -
  let ?early = "answers_early request params"
  have one: "dr_reauth_left (new_driver auth started plan poll_now :: 'a Driver) = 1" by (simp add: new_driver_def)
  with submit_submissions [OF assms] have all: "list_all (submission request params ?early) actions"
    "length actions \<le> 2 + (if ?early then 1 else 0)"
    "\<And>k. Suc k < length actions \<Longrightarrow> \<not> ?early \<Longrightarrow> k < length ts \<and> refused_login (ts ! k)"
    by auto
  from all(3) [of 0] have "refused_login (hd ts)" if "\<not> ?early" "length actions = 2"
    using that by (cases ts) auto
  with all(1,2) show ?thesis by (cases ?early) auto
qed

section \<open>Runs\<close>

definition one_row :: "unit ResultSet" where
  "one_row =
     \<lparr>meta_data = \<lparr>num_rows = 1, rs_format = ''jsonv2'', row_type = [],
                    partition_info = [\<lparr>row_count = 1, compressed_size = None, uncompressed_size = None\<rparr>]\<rparr>,
      rs_data = [[Some ''x'']], rs_code = ''090001'', rs_statement_handle = ''h1'',
      rs_statement_status_url = None, statement_handles = None, rs_sql_state = None, rs_message = None,
      rs_request_id = None, created_on = None, rs_stats = None\<rparr>"

definition one_row_decoders :: "unit Decoders" where
  "one_row_decoders =
     \<lparr>result_set_of = (\<lambda>_. Some one_row), query_status_of = (\<lambda>_. None), failure_of = (\<lambda>_. None)\<rparr>"

text \<open>A runtime that lets everything pass, and a server that answers a poll with \<open>status\<close>.\<close>

definition sample_turn :: "StatusClass \<Rightarrow> DriverTurn" where
  "sample_turn status =
     \<lparr>dt_checkpoint = None, dt_now = 0, dt_wait_from = 0, dt_slices = (\<lambda>_. None), dt_woken = 0,
      dt_descriptor = Inr sample_auth, dt_refresh = (\<lambda>_. Inr True), dt_refreshed = (\<lambda>_. Inr sample_auth),
      dt_poll = Ok \<lparr>hb_status = status, hb_body = []\<rparr>, dt_sink = None, dt_last_sink = None,
      dt_fetch = (\<lambda>_. Panicked), dt_refetch = (\<lambda>_. Panicked)\<rparr>"

definition sample_run_world :: "DriverTurn list \<Rightarrow> RunWorld" where
  "sample_run_world turns =
     \<lparr>rw_descriptor = Inr sample_auth, rw_started = 0, rw_lease = True, rw_submits = [], rw_turns = turns\<rparr>"

abbreviation sample_drive :: "bool \<Rightarrow> DriverTurn list \<Rightarrow> Action list \<times> DropGuard \<times> unit CompletedStatement SnowflakeOutcome option" where
  "sample_drive sink turns \<equiv>
     drive_statement (\<lambda>b n. Some b) default_poll_plan one_row_decoders sink (StartHandle ''h1'') (sample_run_world turns)"

text \<open>A submission that is answered 401, and a statement that is not repeatable.\<close>

definition refused_turn :: SubmitTurn where
  "refused_turn =
     \<lparr>su_checkpoint = None, su_gave_up = False, su_answer = Ok \<lparr>hb_status = StatusClass.Unauthorized, hb_body = []\<rparr>,
      su_refresh = Inr True, su_refreshed = Inr sample_auth, su_cancelled = None\<rparr>"

definition plain_write :: SubmitStatementRequest where
  "plain_write = \<lparr>sq_statement = ''INSERT INTO t VALUES (1)'', sq_body = ''{}''\<rparr>"

definition plain_params :: SubmitQueryParams where
  "plain_params = \<lparr>sq_request_id = None, sq_retry = False, sq_asynchronous = False, sq_nullable = None\<rparr>"

lemmas drive_defs = drive_statement_def drive_guarded_def sample_run_world_def drive_turn_def poll_turn_def
  wait_and_check_def sample_turn_def new_driver_def armed_def new_bounds_def bounds_passed_def bound_reached_def
  default_poll_plan_def cancel_locally_def after_def track_def refresh_after_unauthorized_def Let_def

theorem no_statement_is_orphaned_witness:
  "\<exists>g. sample_drive False [(sample_turn StatusRunning)\<lparr>dt_checkpoint := Some User\<rparr>]
     = ([Following ''h1'', LocalCancel sample_auth ''h1'' User], g, Some (OutcomeCancelled User))
     \<and> dg_armed g = None"
proof -
  obtain g where run: "sample_drive False [(sample_turn StatusRunning)\<lparr>dt_checkpoint := Some User\<rparr>]
     = ([Following ''h1'', LocalCancel sample_auth ''h1'' User], g, Some (OutcomeCancelled User))"
    by (simp add: drive_defs)
  with no_statement_is_orphaned [OF run] show ?thesis by blast
qed



theorem driver_returns_witness:
  "\<exists>actions g out. drive_statement (\<lambda>b n. Some b) default_poll_plan one_row_decoders False
       (StartHandle ''h1'')
       ((sample_run_world (replicate (u32_max + 300) (sample_turn StatusRunning)))\<lparr>rw_submits := replicate 3 refused_turn\<rparr>)
     = (actions, g, out) \<and> out \<noteq> None"
proof -
  let ?world = "(sample_run_world (replicate (u32_max + 300) (sample_turn StatusRunning)))\<lparr>rw_submits := replicate 3 refused_turn\<rparr>"
  have "max_polls default_poll_plan < u32_max" "2 < length (rw_submits ?world)"
    "2 * max_polls default_poll_plan + u32_max + 4 < length (rw_turns ?world)"
    by (simp_all add: default_poll_plan_def u32_max_def sample_run_world_def)
  moreover obtain actions g out where
    run: "drive_statement (\<lambda>b n. Some b) default_poll_plan one_row_decoders False (StartHandle ''h1'') ?world = (actions, g, out)"
    by (rule prod_cases3)
  ultimately have "out \<noteq> None" by (rule driver_returns)
  with run show ?thesis by blast
qed

theorem submissions_are_safe_witness:
  "\<exists>actions st out. submit one_row_decoders plain_write plain_params [refused_turn, refused_turn] False
       (new_driver sample_auth 0 default_poll_plan False) = (actions, st, out)
     \<and> \<not> answers_early plain_write plain_params \<and> length actions = 2"
proof -
  obtain actions st out where run: "submit one_row_decoders plain_write plain_params [refused_turn, refused_turn] False
       (new_driver sample_auth 0 default_poll_plan False) = (actions, st, out)" and two: "length actions = 2"
    by (simp add: drive_defs refused_turn_def)
  have "\<not> answers_early plain_write plain_params" by (simp add: answers_early_def plain_params_def)
  with submissions_are_safe [OF run] run two show ?thesis by blast
qed

end
