(* ===== verification/Bfs.thy ===== *)
theory Bfs
  imports Main
begin

text \<open>
  Breadth-first search with a queue, as the searches of \<open>Graph\<close> do it: the inner loop they share, and a
  locale with what holds of the queue and the depths of the keys seen so far. Its facts give the keys
  reached and their distances when the queue is empty or has got to a depth.
\<close>

text \<open>
  The inner loop of every search: of the candidates whose key is unseen, the first per key, and what
  has been seen then.
\<close>

fun fresh :: "('e \<Rightarrow> 'k) \<Rightarrow> 'e list \<Rightarrow> 'k set \<Rightarrow> 'e list \<times> 'k set" where
  "fresh key [] seen = ([], seen)"
| "fresh key (e # es) seen =
     (if key e \<in> seen then fresh key es seen
      else let (new, seen) = fresh key es (insert (key e) seen) in (e # new, seen))"

lemma fresh_facts:
  "fresh key es seen = (new, seen') \<Longrightarrow>
     distinct (map key new) \<and> key ` set new = key ` set es - seen \<and> seen' = seen \<union> key ` set es
     \<and> set new \<subseteq> set es"
proof (induction key es seen arbitrary: new seen' rule: fresh.induct)
  case (2 key e es seen)
  show ?case
  proof (cases "key e \<in> seen")
    case True
    with 2 show ?thesis by auto
  next
    case False
    with 2(3) obtain rest where rest: "fresh key es (insert (key e) seen) = (rest, seen')" "new = e # rest"
      by (auto split: prod.splits)
    from 2(2) [OF False rest(1)] have IH: "distinct (map key rest)" "seen' = insert (key e) seen \<union> key ` set es"
      "key ` set rest = key ` set es - insert (key e) seen" "set rest \<subseteq> set es" by auto
    then have "key e \<notin> key ` set rest" by simp
    with IH False rest(2) show ?thesis by auto
  qed
qed simp

text \<open>
  What a queue that starts at \<open>root\<close> with depth 0 satisfies, whatever is recorded on the way. \<open>D\<close> gives
  the depth of each key seen so far.
\<close>

locale bfs =
  fixes succ :: "'k \<Rightarrow> 'k set" and univ :: "'k set" and root :: 'k
  assumes finite_univ: "finite univ" and succ_univ: "succ x \<subseteq> univ"
begin

definition arcs :: "('k \<times> 'k) set" where
  "arcs = {(x, y). y \<in> succ x}"

definition at :: "nat \<Rightarrow> 'k \<Rightarrow> bool" where
  "at d x \<longleftrightarrow> (root, x) \<in> arcs ^^ d \<and> (\<forall>c < d. (root, x) \<notin> arcs ^^ c)"

definition search_inv :: "('k \<times> nat) list \<Rightarrow> ('k \<rightharpoonup> nat) \<Rightarrow> bool" where
  "search_inv queue D \<longleftrightarrow>
     (\<forall>x d. D x = Some d \<longrightarrow> at d x)
     \<and> D root \<noteq> None
     \<and> (\<forall>(x, d) \<in> set queue. D x = Some d)
     \<and> sorted (map snd queue)
     \<and> (\<forall>(x, d) \<in> set queue. d \<le> Suc (snd (hd queue)))
     \<and> (\<forall>x. D x \<noteq> None \<longrightarrow> x \<in> fst ` set queue \<or> succ x \<subseteq> dom D)
     \<and> (queue \<noteq> [] \<longrightarrow> (\<forall>d \<le> snd (hd queue). \<forall>x. at d x \<longrightarrow> D x = Some d))"

lemma at_unique: "at c x \<Longrightarrow> at d x \<Longrightarrow> c = d"
  unfolding at_def by (metis linorder_neqE_nat)

lemma at_zero: "at 0 x \<longleftrightarrow> x = root"
  by (auto simp: at_def)

lemma at_least: "(root, x) \<in> arcs ^^ d \<Longrightarrow> \<exists>c \<le> d. at c x"
proof -
  assume path: "(root, x) \<in> arcs ^^ d"
  let ?c = "LEAST c. (root, x) \<in> arcs ^^ c"
  have "at ?c x" unfolding at_def using LeastI [where P = "\<lambda>c. (root, x) \<in> arcs ^^ c", OF path] not_less_Least by blast
  moreover have "?c \<le> d" by (rule Least_le [where P = "\<lambda>c. (root, x) \<in> arcs ^^ c", OF path])
  ultimately show ?thesis by blast
qed

lemma at_Suc: "at (Suc d) y \<Longrightarrow> \<exists>x. at d x \<and> y \<in> succ x"
proof -
  assume y: "at (Suc d) y"
  then obtain x where x: "(root, x) \<in> arcs ^^ d" "(x, y) \<in> arcs" by (auto simp: at_def)
  from at_least [OF x(1)] obtain c where c: "c \<le> d" "at c x" by blast
  have "c = d"
  proof (rule ccontr)
    assume "c \<noteq> d"
    with c have "Suc c < Suc d" by simp
    moreover have "(root, y) \<in> arcs ^^ Suc c" using c(2) x(2) by (auto simp: at_def)
    ultimately show False using y unfolding at_def by blast
  qed
  with c x(2) show ?thesis by (auto simp: arcs_def)
qed

lemma at_succ: "at d x \<Longrightarrow> y \<in> succ x \<Longrightarrow> \<exists>c \<le> Suc d. at c y"
  using at_least [of y "Suc d"] by (auto simp: at_def arcs_def)

lemma search_invI:
  assumes "\<And>x d. D x = Some d \<Longrightarrow> at d x" and "D root \<noteq> None"
    and "\<And>x d. (x, d) \<in> set queue \<Longrightarrow> D x = Some d" and "sorted (map snd queue)"
    and "\<And>x d. (x, d) \<in> set queue \<Longrightarrow> d \<le> Suc (snd (hd queue))"
    and "\<And>x. D x \<noteq> None \<Longrightarrow> x \<in> fst ` set queue \<or> succ x \<subseteq> dom D"
    and "\<And>d x. queue \<noteq> [] \<Longrightarrow> d \<le> snd (hd queue) \<Longrightarrow> at d x \<Longrightarrow> D x = Some d"
  shows "search_inv queue D"
  unfolding search_inv_def using assms by blast

lemma search_invD:
  assumes "search_inv queue D"
  shows "D x = Some d \<Longrightarrow> at d x" and "D root \<noteq> None"
    and "(x, d) \<in> set queue \<Longrightarrow> D x = Some d" and "sorted (map snd queue)"
    and "(x, d) \<in> set queue \<Longrightarrow> d \<le> Suc (snd (hd queue))"
    and "D x \<noteq> None \<Longrightarrow> x \<in> fst ` set queue \<or> succ x \<subseteq> dom D"
    and "queue \<noteq> [] \<Longrightarrow> d \<le> snd (hd queue) \<Longrightarrow> at d x \<Longrightarrow> D x = Some d"
  using assms unfolding search_inv_def by blast+

lemma search_inv_start: "search_inv [(root, 0)] [root \<mapsto> 0]"
  by (rule search_invI) (auto simp: at_zero split: if_splits)

text \<open>Popping the head and appending its unseen successors one level deeper.\<close>

lemma search_inv_step:
  assumes inv: "search_inv ((x, d) # queue) D"
    and new: "set new = succ x - dom D"
  defines "D' \<equiv> (\<lambda>y. if y \<in> set new then Some (Suc d) else D y)"
  shows "search_inv (queue @ map (\<lambda>y. (y, Suc d)) new) D'"
proof -
  have depth: "at c y" if "D y = Some c" for y c using search_invD(1) [OF inv that] .
  have low: "D y = Some c" if "at c y" "c \<le> d" for y c
    using search_invD(7) [OF inv, of c y] that by simp
  have queued: "D y = Some c" "d \<le> c" "c \<le> Suc d" if "(y, c) \<in> set queue" for y c
    using search_invD(3,5) [OF inv, of y c] search_invD(4) [OF inv] that by auto
  have x: "D x = Some d" using search_invD(3) [OF inv, of x d] by simp
  have closed: "y = x \<or> y \<in> fst ` set queue \<or> succ y \<subseteq> dom D" if "D y \<noteq> None" for y
    using search_invD(6) [OF inv that] by auto
  have fresh: "at (Suc d) y" if "y \<in> set new" for y
  proof -
    from that new have y: "y \<in> succ x" "D y = None" by auto
    from at_succ [OF depth [OF x] y(1)] obtain c where c: "c \<le> Suc d" "at c y" by blast
    with low [of c y] y(2) have "c = Suc d" by (cases "c \<le> d") auto
    with c show ?thesis by simp
  qed
  let ?Q = "queue @ map (\<lambda>y. (y, Suc d)) new"
  have D'_old: "D' y = D y" if "D y \<noteq> None" for y using that new by (auto simp: D'_def)
  have all: "D' y = Some c" if "(y, c) \<in> set ?Q" for y c
  proof -
    from that have "(y, c) \<in> set queue \<or> y \<in> set new \<and> c = Suc d" by auto
    then show ?thesis using queued(1) [of y c] D'_old [of y] by (auto simp: D'_def)
  qed
  have "sorted (map snd ?Q)"
    using search_invD(4) [OF inv] queued by (auto simp: sorted_append comp_def sorted_map)
  moreover have "c \<le> Suc (snd (hd ?Q))" if "(y, c) \<in> set ?Q" for y c
  proof -
    have "d \<le> snd (hd ?Q)"
    proof (cases queue)
      case (Cons a list)
      then show ?thesis using queued(2) [of "fst a" "snd a"] by simp
    next
      case Nil
      with that show ?thesis by (cases new) auto
    qed
    moreover have "c \<le> Suc d" using that queued(3) [of y c] by auto
    ultimately show ?thesis by linarith
  qed
  moreover have "y \<in> fst ` set ?Q \<or> succ y \<subseteq> dom D'" if y: "D' y \<noteq> None" for y
  proof (cases "y \<in> set new")
    case False
    with y have "D y \<noteq> None" by (simp add: D'_def)
    with closed [of y] new show ?thesis by (auto simp: D'_def dom_def)
  qed force
  moreover have "D' y = Some c" if "?Q \<noteq> []" "c \<le> snd (hd ?Q)" "at c y" for y c
  proof (cases "c \<le> d")
    case True
    with low [OF that(3)] D'_old [of y] show ?thesis by simp
  next
    case False
    have "snd (hd ?Q) \<le> Suc d"
      using that(1) queued(3) by (cases queue; cases new; force)
    with False that(2) have c: "c = Suc d" "snd (hd ?Q) = Suc d" by auto
    with at_Suc that(3) obtain z where z: "at d z" "y \<in> succ z" by blast
    have "(z, d) \<notin> set queue"
    proof
      assume mem: "(z, d) \<in> set queue"
      then obtain a rest where "queue = a # rest" by (cases queue) auto
      moreover have "sorted (map snd queue)" using search_invD(4) [OF inv] by simp
      ultimately show False using c(2) mem by (auto dest!: bspec)
    qed
    with closed [of z] low [OF z(1)] have "z = x \<or> succ z \<subseteq> dom D"
      using queued(1) by fastforce
    then show ?thesis
    proof
      assume "z = x"
      then show ?thesis
      proof (cases "y \<in> set new")
        case True
        then show ?thesis by (simp add: D'_def c(1))
      next
        case False
        with z(2) \<open>z = x\<close> new obtain e where "D y = Some e" by auto
        with depth [of y e] at_unique [OF that(3)] D'_old [of y] show ?thesis by simp
      qed
    next
      assume "succ z \<subseteq> dom D"
      with z(2) obtain e where "D y = Some e" by auto
      with depth [of y e] at_unique [OF that(3)] D'_old [of y] show ?thesis by simp
    qed
  qed
  moreover have "at c y" if "D' y = Some c" for y c
    using that depth fresh by (auto simp: D'_def split: if_splits)
  moreover have "D' root \<noteq> None" using search_invD(2) [OF inv] D'_old [of root] by simp
  ultimately show ?thesis using all by (intro search_invI) blast+
qed

lemma search_inv_fresh:
  assumes "search_inv ((x, d) # queue) D" and "fresh key es (dom D) = (new, seen)" and "key ` set es = succ x"
  defines "D' \<equiv> (\<lambda>y. if y \<in> key ` set new then Some (Suc d) else D y)"
  shows "search_inv (queue @ map (\<lambda>e. (key e, Suc d)) new) D' \<and> dom D' = seen
    \<and> distinct (map key new) \<and> key ` set new \<inter> dom D = {} \<and> set new \<subseteq> set es"
proof -
  from fresh_facts [OF assms(2)] assms(3) have new: "distinct (map key new)" "key ` set new = succ x - dom D"
    "seen = dom D \<union> succ x" "set new \<subseteq> set es" by auto
  from search_inv_step [OF assms(1), of "map key new"] new(2)
  have "search_inv (queue @ map (\<lambda>e. (key e, Suc d)) new) D'" by (simp add: D'_def comp_def)
  moreover have "dom D' = seen" using new(2,3) by (auto simp: D'_def)
  ultimately show ?thesis using new by auto
qed

text \<open>What is known at a depth, and at the end.\<close>

lemma search_inv_low: "search_inv ((x, d) # queue) D \<Longrightarrow> at c y \<Longrightarrow> c \<le> d \<Longrightarrow> D y = Some c"
  using search_invD(7) [of "(x, d) # queue" D c y] by simp

lemma search_inv_end: "search_inv [] D \<Longrightarrow> D y = Some d \<longleftrightarrow> at d y"
proof
  assume inv: "search_inv [] D"
  then have closed: "succ x \<subseteq> dom D" if "D x \<noteq> None" for x
    using search_invD(6) [OF inv that] by simp
  assume y: "at d y"
  have "(root, y) \<in> arcs\<^sup>*" using y relpow_imp_rtrancl by (auto simp: at_def)
  then have "D y \<noteq> None"
  proof induction
    case base
    from search_invD(2) [OF inv] show ?case .
  next
    case (step y z)
    with closed [of y] show ?case by (auto simp: arcs_def)
  qed
  then obtain c where "D y = Some c" by auto
  with search_invD(1) [OF inv, of y c] at_unique [OF y, of c] show "D y = Some d" by simp
qed (rule search_invD(1))

lemma reachable_at: "(root, x) \<in> arcs\<^sup>* \<longleftrightarrow> (\<exists>d. at d x)"
proof
  assume "(root, x) \<in> arcs\<^sup>*"
  then obtain d where "(root, x) \<in> arcs ^^ d" using rtrancl_imp_relpow by blast
  from at_least [OF this] show "\<exists>d. at d x" by blast
next
  assume "\<exists>d. at d x"
  then show "(root, x) \<in> arcs\<^sup>*" unfolding at_def using relpow_imp_rtrancl by blast
qed

definition within :: "nat \<Rightarrow> 'k \<rightharpoonup> nat" where
  "within n y = (if \<exists>d \<le> n. at d y then Some (THE d. at d y) else None)"

lemma within_iff: "within n y = Some d \<longleftrightarrow> at d y \<and> d \<le> n"
  unfolding within_def by (auto intro!: the_equality dest: at_unique) (metis at_unique the_equality)+

lemma withinI:
  assumes "\<And>y d. D y = Some d \<Longrightarrow> at d y \<and> d \<le> n" and "\<And>y d. at d y \<Longrightarrow> d \<le> n \<Longrightarrow> D y = Some d"
  shows "D = within n"
proof
  fix y
  show "D y = within n y"
  proof (cases "D y")
    case None
    then have "within n y \<noteq> Some d" for d using assms(2) [of d y] within_iff [of n y d] by force
    with None show ?thesis by (cases "within n y") auto
  next
    case (Some d)
    with assms(1) [OF Some] within_iff [of n y d] show ?thesis by simp
  qed
qed

text \<open>A depth is at most the number of keys.\<close>

lemma at_bounded: "at d x \<Longrightarrow> d \<le> card univ"
proof -
  assume x: "at d x"
  have "\<exists>y. at c y" if "c \<le> d" for c
    using x that
  proof (induction d arbitrary: x)
    case (Suc d)
    with at_Suc [OF Suc.prems(1)] show ?case by (cases "c = Suc d") auto
  qed auto
  then obtain f where f: "\<And>c. c \<le> d \<Longrightarrow> at c (f c)" by metis
  have "f c \<in> univ" if c: "0 < c" "c \<le> d" for c
  proof -
    from c obtain b where "c = Suc b" by (cases c) auto
    with at_Suc f [OF c(2)] succ_univ show ?thesis by blast
  qed
  then have "f ` {0 <.. d} \<subseteq> univ" by auto
  moreover have "inj_on f {0 <.. d}" by (rule inj_onI) (metis at_unique f greaterThanAtMost_iff)
  ultimately have "card {0 <.. d} \<le> card univ" using card_inj_on_le finite_univ by blast
  then show ?thesis by simp
qed

end

end
