(* ===== verification/Graph.thy ===== *)
theory Graph
  imports Catalog BTreeMap Bfs "HOL-Library.Product_Lexorder" "HOL-Library.Option_ord"
begin

text \<open>
  The relation graph of the catalog, \<^verbatim>\<open>crates/franken-snowflake-graph/src/lib.rs\<close>: a directed
  multigraph of typed nodes and edges with two adjacency indexes, its operations, and the searches
  over it (ancestors, descendants, lineage, neighbourhood).

  A \<^verbatim>\<open>BTreeMap\<close> is the ordered list of \<open>BTreeMap\<close>, a \<^verbatim>\<open>BTreeSet\<close> of indexes or keys that is iterated is
  an ascending list kept by \<^term>\<open>insort_insert\<close>, one that is only asked for membership is a set. The mirror
  in a third-party graph library and the cycles it enumerates are not modelled.

  Lemmas: the indexes describe the edges, a breadth-first search visits what is reachable at its
  distance, once.
\<close>

section \<open>Nodes and edges\<close>

datatype CatalogNodeKind =
  ProfileNode | DatabaseNode | SchemaNode | ObjectNode | ColumnNode | StageNode | FileFormatNode
  | DatasetNode | TagNode

fun node_kind_str :: "CatalogNodeKind \<Rightarrow> string" where
  "node_kind_str ProfileNode = ''profile''"
| "node_kind_str DatabaseNode = ''database''"
| "node_kind_str SchemaNode = ''schema''"
| "node_kind_str ObjectNode = ''object''"
| "node_kind_str ColumnNode = ''column''"
| "node_kind_str StageNode = ''stage''"
| "node_kind_str FileFormatNode = ''file_format''"
| "node_kind_str DatasetNode = ''dataset''"
| "node_kind_str TagNode = ''tag''"

datatype CatalogEdgeKind =
  Contains | DatasetObject | FieldColumn | EdgeForeignKey | EdgeViewDependsOn | LineageReads
  | EdgeUsesStage | EdgeUsesFileFormat | Tagged

fun edge_kind_str :: "CatalogEdgeKind \<Rightarrow> string" where
  "edge_kind_str Contains = ''contains''"
| "edge_kind_str DatasetObject = ''dataset_object''"
| "edge_kind_str FieldColumn = ''field_column''"
| "edge_kind_str EdgeForeignKey = ''foreign_key''"
| "edge_kind_str EdgeViewDependsOn = ''view_depends_on''"
| "edge_kind_str LineageReads = ''lineage_reads''"
| "edge_kind_str EdgeUsesStage = ''uses_stage''"
| "edge_kind_str EdgeUsesFileFormat = ''uses_file_format''"
| "edge_kind_str Tagged = ''tagged''"

definition is_dependency :: "CatalogEdgeKind \<Rightarrow> bool" where
  "is_dependency kind \<longleftrightarrow> kind \<noteq> Contains \<and> kind \<noteq> Tagged"

text \<open>The order a derived \<^verbatim>\<open>Ord\<close> gives: that of the declaration.\<close>

fun edge_kind_rank :: "CatalogEdgeKind \<Rightarrow> nat" where
  "edge_kind_rank Contains = 0"
| "edge_kind_rank DatasetObject = 1"
| "edge_kind_rank FieldColumn = 2"
| "edge_kind_rank EdgeForeignKey = 3"
| "edge_kind_rank EdgeViewDependsOn = 4"
| "edge_kind_rank LineageReads = 5"
| "edge_kind_rank EdgeUsesStage = 6"
| "edge_kind_rank EdgeUsesFileFormat = 7"
| "edge_kind_rank Tagged = 8"

lemma edge_kind_rank_inj: "edge_kind_rank a = edge_kind_rank b \<Longrightarrow> a = b"
  by (cases a; cases b; simp)

instantiation CatalogEdgeKind :: linorder
begin

definition less_eq_CatalogEdgeKind :: "CatalogEdgeKind \<Rightarrow> CatalogEdgeKind \<Rightarrow> bool" where
  "less_eq_CatalogEdgeKind a b \<longleftrightarrow> edge_kind_rank a \<le> edge_kind_rank b"

definition less_CatalogEdgeKind :: "CatalogEdgeKind \<Rightarrow> CatalogEdgeKind \<Rightarrow> bool" where
  "less_CatalogEdgeKind a b \<longleftrightarrow> edge_kind_rank a < edge_kind_rank b"

instance
  by standard (auto simp: less_eq_CatalogEdgeKind_def less_CatalogEdgeKind_def edge_kind_rank_inj)

end

record CatalogNode =
  cn_key :: string
  cn_kind :: CatalogNodeKind
  cn_label :: string
  cn_qualified_name :: "string option"
  cn_provenance :: Provenance
  cn_redactions_applied :: "string list"

record CatalogEdge =
  ce_source :: string
  ce_target :: string
  ce_kind :: CatalogEdgeKind
  ce_detail :: "string option"
  ce_provenance :: Provenance
  ce_redactions_applied :: "string list"

type_synonym EdgeKey = "string \<times> CatalogEdgeKind \<times> string \<times> string option"

record CatalogGraph =
  gr_nodes :: "(string, CatalogNode) btree"
  gr_edges :: "CatalogEdge list"
  gr_outgoing :: "(string, nat list) btree"
  gr_incoming :: "(string, nat list) btree"
  gr_edge_keys :: "EdgeKey set"

definition edge_key :: "CatalogEdge \<Rightarrow> EdgeKey" where
  "edge_key e = (ce_source e, ce_kind e, ce_target e, ce_detail e)"

section \<open>Building a graph\<close>

definition new_graph :: CatalogGraph where
  "new_graph = \<lparr>gr_nodes = [], gr_edges = [], gr_outgoing = [], gr_incoming = [], gr_edge_keys = {}\<rparr>"

text \<open>\<^verbatim>\<open>entry(k).or_default()\<close>, and an insertion into the set there.\<close>

definition ensure_row :: "string \<Rightarrow> (string, nat list) btree \<Rightarrow> (string, nat list) btree" where
  "ensure_row k = bt_update (case_option [] id) k"

definition index_row :: "string \<Rightarrow> nat \<Rightarrow> (string, nat list) btree \<Rightarrow> (string, nat list) btree" where
  "index_row k i = bt_update (\<lambda>row. insort_insert i (case_option [] id row)) k"

definition add_node :: "CatalogNode \<Rightarrow> CatalogGraph \<Rightarrow> CatalogGraph" where
  "add_node node g =
     g\<lparr>gr_outgoing := ensure_row (cn_key node) (gr_outgoing g),
       gr_incoming := ensure_row (cn_key node) (gr_incoming g),
       gr_nodes := bt_insert (cn_key node) node (gr_nodes g)\<rparr>"

definition add_edge :: "CatalogEdge \<Rightarrow> CatalogGraph \<Rightarrow> CatalogGraph" where
  "add_edge edge g =
     (if edge_key edge \<in> gr_edge_keys g then g
      else g\<lparr>gr_edge_keys := insert (edge_key edge) (gr_edge_keys g),
             gr_outgoing := index_row (ce_source edge) (length (gr_edges g)) (gr_outgoing g),
             gr_incoming := index_row (ce_target edge) (length (gr_edges g)) (gr_incoming g),
             gr_edges := gr_edges g @ [edge]\<rparr>)"

text \<open>Reading a serialised graph: the nodes and the edges are given, the indexes are rebuilt.\<close>

definition rebuild_indexes :: "CatalogGraph \<Rightarrow> CatalogGraph" where
  "rebuild_indexes g =
     foldl (\<lambda>g edge. add_edge edge g)
       \<lparr>gr_nodes = gr_nodes g, gr_edges = [],
        gr_outgoing = fold (ensure_row \<circ> fst) (gr_nodes g) [],
        gr_incoming = fold (ensure_row \<circ> fst) (gr_nodes g) [], gr_edge_keys = {}\<rparr>
       (gr_edges g)"

definition graph_of_wire :: "(string, CatalogNode) btree \<Rightarrow> CatalogEdge list \<Rightarrow> CatalogGraph" where
  "graph_of_wire nodes edges = rebuild_indexes (new_graph\<lparr>gr_nodes := nodes, gr_edges := edges\<rparr>)"

definition has_node :: "CatalogGraph \<Rightarrow> string \<Rightarrow> bool" where
  "has_node g k \<longleftrightarrow> map_of (gr_nodes g) k \<noteq> None"

section \<open>Searching\<close>

datatype Direction = Incoming | Outgoing

text \<open>The edges an index row names.\<close>

definition row_edges :: "CatalogGraph \<Rightarrow> Direction \<Rightarrow> string \<Rightarrow> CatalogEdge list" where
  "row_edges g direction k =
     List.map_filter (\<lambda>i. if i < length (gr_edges g) then Some (gr_edges g ! i) else None)
       (case_option [] id (map_of (case direction of Outgoing \<Rightarrow> gr_outgoing g | Incoming \<Rightarrow> gr_incoming g) k))"

definition far_end :: "Direction \<Rightarrow> CatalogEdge \<Rightarrow> string" where
  "far_end direction e = (case direction of Outgoing \<Rightarrow> ce_target e | Incoming \<Rightarrow> ce_source e)"

definition neighbors :: "CatalogGraph \<Rightarrow> Direction \<Rightarrow> string \<Rightarrow> string list" where
  "neighbors g direction k = map (far_end direction) (row_edges g direction k)"

definition endpoints :: "CatalogGraph \<Rightarrow> string set" where
  "endpoints g = ce_source ` set (gr_edges g) \<union> ce_target ` set (gr_edges g)"

lemma row_edges_sub: "set (row_edges g direction k) \<subseteq> set (gr_edges g)"
  by (auto simp: row_edges_def map_filter_def split: if_splits)

lemma far_endpoints: "e \<in> set (gr_edges g) \<Longrightarrow> far_end direction e \<in> endpoints g"
  by (auto simp: endpoints_def far_end_def split: Direction.split)

interpretation search: bfs "\<lambda>k. far_end direction ` {e \<in> set (row_edges g direction k). follow (ce_kind e)}" "endpoints g" root
  for g direction follow root
proof
  show "finite (endpoints g)" by (simp add: endpoints_def)
  show "far_end direction ` {e \<in> set (row_edges g direction k). follow (ce_kind e)} \<subseteq> endpoints g" for k
    using row_edges_sub [of g direction k] far_endpoints [of _ g direction] by blast
qed

text \<open>Every search makes progress.\<close>

lemma fresh_shrinks:
  assumes "fresh key es seen = (new, seen')" "key ` set es \<subseteq> endpoints g"
  shows "card (endpoints g - seen') + length new \<le> card (endpoints g - seen)"
proof -
  from fresh_facts [OF assms(1)] have new: "distinct (map key new)"
    "key ` set new = key ` set es - seen" "seen' = seen \<union> key ` set es" by auto
  have fin: "finite (endpoints g)" by (simp add: endpoints_def)
  have "endpoints g - seen' = endpoints g - seen - set (map key new)" using new(2,3) by auto
  moreover have sub: "set (map key new) \<subseteq> endpoints g - seen" using new(2) assms(2) by auto
  ultimately have "card (endpoints g - seen') = card (endpoints g - seen) - length new"
    using card_Diff_subset [OF _ sub] distinct_card [OF new(1)] by simp
  moreover have "length new \<le> card (endpoints g - seen)"
    using card_mono [OF _ sub] fin distinct_card [OF new(1)] by simp
  ultimately show ?thesis by simp
qed

lemma neighbors_endpoints: "set (neighbors g direction k) \<subseteq> endpoints g"
  using row_edges_sub [of g direction k] far_endpoints [of _ g direction] by (auto simp: neighbors_def)

function walk_loop :: "CatalogGraph \<Rightarrow> Direction \<Rightarrow> string list \<Rightarrow> string set \<Rightarrow> string list \<Rightarrow> string list" where
  "walk_loop g direction [] seen result = result"
| "walk_loop g direction (current # queue) seen result =
     (let (new, seen) = fresh id (neighbors g direction current) seen
      in walk_loop g direction (queue @ new) seen (fold insort_insert new result))"
  by pat_completeness auto

termination
proof (relation "measure (\<lambda>(g, direction, queue, seen, result). card (endpoints g - seen) + length queue)")
  fix g direction current queue seen result p new seen'
  assume "p = fresh id (neighbors g direction current) seen" "(new, seen') = p"
  then have "fresh id (neighbors g direction current) seen = (new, seen')" by simp
  from fresh_shrinks [OF this, of g] neighbors_endpoints [of g direction current]
  show "((g, direction, queue @ new, seen', fold insort_insert new result), g, direction, current # queue, seen, result)
    \<in> measure (\<lambda>(g, direction, queue, seen, result). card (endpoints g - seen) + length queue)"
    by simp
qed simp

definition walk :: "CatalogGraph \<Rightarrow> string \<Rightarrow> Direction \<Rightarrow> string list" where
  "walk g node direction = (if has_node g node then walk_loop g direction [node] {node} [] else [])"

definition ancestors :: "CatalogGraph \<Rightarrow> string \<Rightarrow> string list" where
  "ancestors g node = walk g node Incoming"

definition descendants :: "CatalogGraph \<Rightarrow> string \<Rightarrow> string list" where
  "descendants g node = walk g node Outgoing"

definition reachable :: "CatalogGraph \<Rightarrow> string \<Rightarrow> string \<Rightarrow> bool" where
  "reachable g from to \<longleftrightarrow> from = to \<or> to \<in> set (descendants g from)"


datatype LineageDirection = Upstream | Downstream

record LineageStep =
  ls_node :: string
  ls_depth :: nat
  ls_via :: CatalogEdgeKind
  ls_from :: string

fun lineage_side :: "LineageDirection \<Rightarrow> Direction" where
  "lineage_side Upstream = Outgoing"
| "lineage_side Downstream = Incoming"

definition next_edges :: "CatalogGraph \<Rightarrow> LineageDirection \<Rightarrow> string \<Rightarrow> CatalogEdge list" where
  "next_edges g direction k =
     sort_key (\<lambda>e. (ce_kind e, ce_source e, ce_target e))
       (filter (\<lambda>e. is_dependency (ce_kind e)) (row_edges g (lineage_side direction) k))"

lemma next_edges_far: "far_end side ` set (next_edges g direction k) \<subseteq> endpoints g"
  using row_edges_sub [of g "lineage_side direction" k] far_endpoints [of _ g side]
  by (auto simp: next_edges_def)

function lineage_loop ::
  "CatalogGraph \<Rightarrow> LineageDirection \<Rightarrow> (string \<times> nat) list \<Rightarrow> string set \<Rightarrow> LineageStep list \<Rightarrow> LineageStep list" where
  "lineage_loop g direction [] seen steps = steps"
| "lineage_loop g direction ((current, depth) # queue) seen steps =
     (let far = far_end (lineage_side direction);
          (new, seen) = fresh far (next_edges g direction current) seen;
          depth = sat_add usize_max depth 1
      in lineage_loop g direction (queue @ map (\<lambda>e. (far e, depth)) new) seen
           (steps @ map (\<lambda>e. \<lparr>ls_node = far e, ls_depth = depth, ls_via = ce_kind e, ls_from = current\<rparr>) new))"
  by pat_completeness auto

termination
proof (relation "measure (\<lambda>(g, direction, queue, seen, steps). card (endpoints g - seen) + length queue)")
  fix g direction current and depth :: nat and queue seen steps far p new seen' and depth' :: nat
  assume "far = far_end (lineage_side direction)" "p = fresh far (next_edges g direction current) seen" "(new, seen') = p"
  then have "fresh far (next_edges g direction current) seen = (new, seen')" by simp
  from fresh_shrinks [OF this, of g] next_edges_far [of "lineage_side direction" g direction current]
    \<open>far = far_end (lineage_side direction)\<close>
  show "((g, direction, queue @ map (\<lambda>e. (far e, depth')) new, seen',
       steps @ map (\<lambda>e. \<lparr>ls_node = far e, ls_depth = depth', ls_via = ce_kind e, ls_from = current\<rparr>) new),
     g, direction, (current, depth) # queue, seen, steps)
    \<in> measure (\<lambda>(g, direction, queue, seen, steps). card (endpoints g - seen) + length queue)"
    by simp
qed simp

definition lineage :: "CatalogGraph \<Rightarrow> string \<Rightarrow> LineageDirection \<Rightarrow> LineageStep list" where
  "lineage g node direction =
     (if has_node g node then lineage_loop g direction [(node, 0)] {node} [] else [])"

record RelatedNode =
  rn_node :: string
  rn_depth :: nat
  rn_incoming :: bool
  rn_outgoing :: bool

definition neighbors_both :: "CatalogGraph \<Rightarrow> string \<Rightarrow> (string \<times> bool) list" where
  "neighbors_both g k =
     sort (map (\<lambda>n. (n, True)) (neighbors g Incoming k) @ map (\<lambda>n. (n, False)) (neighbors g Outgoing k))"

definition note_related :: "nat \<Rightarrow> string \<times> bool \<Rightarrow> (string, RelatedNode) btree \<Rightarrow> (string, RelatedNode) btree" where
  "note_related depth candidate related =
     (case candidate of (k, incoming) \<Rightarrow>
        bt_update
          (\<lambda>old. let found = (case old of
                     Some found \<Rightarrow> found
                   | None \<Rightarrow> \<lparr>rn_node = k, rn_depth = depth, rn_incoming = incoming, rn_outgoing = \<not> incoming\<rparr>)
                 in found\<lparr>rn_depth := min (rn_depth found) depth,
                          rn_incoming := rn_incoming found \<or> incoming,
                          rn_outgoing := rn_outgoing found \<or> \<not> incoming\<rparr>)
          k related)"

lemma neighbors_both_endpoints: "fst ` set (neighbors_both g k) \<subseteq> endpoints g"
  using neighbors_endpoints [of g Incoming k] neighbors_endpoints [of g Outgoing k]
  by (auto simp: neighbors_both_def)

function related_loop ::
  "CatalogGraph \<Rightarrow> string \<Rightarrow> nat \<Rightarrow> (string \<times> nat) list \<Rightarrow> string set \<Rightarrow> (string, RelatedNode) btree
     \<Rightarrow> (string, RelatedNode) btree" where
  "related_loop g node depth [] seen related = related"
| "related_loop g node depth ((current, current_depth) # queue) seen related =
     (if current_depth \<ge> depth then related_loop g node depth queue seen related
      else
        let candidates = filter (\<lambda>(k, incoming). k \<noteq> node) (neighbors_both g current);
            next_depth = sat_add usize_max current_depth 1;
            (new, seen) = fresh fst candidates seen
        in related_loop g node depth (queue @ map (\<lambda>(k, incoming). (k, next_depth)) new) seen
             (fold (note_related next_depth) candidates related))"
  by pat_completeness auto

termination
proof (relation "measure (\<lambda>(g, node, depth, queue, seen, related). card (endpoints g - seen) + length queue)")
  fix g and node :: string and depth :: nat and current and current_depth :: nat and queue seen related candidates
    and next_depth :: nat and p new seen'
  assume "candidates = filter (\<lambda>(k, incoming). k \<noteq> node) (neighbors_both g current)"
    "p = fresh fst candidates seen" "(new, seen') = p"
  then have "fresh fst candidates seen = (new, seen')" "fst ` set candidates \<subseteq> endpoints g"
    using neighbors_both_endpoints [of g current] by auto
  from fresh_shrinks [OF this]
  show "((g, node, depth, queue @ map (\<lambda>(k, incoming). (k, next_depth)) new, seen',
       fold (note_related next_depth) candidates related),
     g, node, depth, (current, current_depth) # queue, seen, related)
    \<in> measure (\<lambda>(g, node, depth, queue, seen, related). card (endpoints g - seen) + length queue)"
    by simp
qed auto

definition what_relates_to :: "CatalogGraph \<Rightarrow> string \<Rightarrow> nat \<Rightarrow> RelatedNode list" where
  "what_relates_to g node depth =
     (if has_node g node then map snd (related_loop g node depth [(node, 0)] {node} []) else [])"

section \<open>The indexes\<close>

definition near_end :: "Direction \<Rightarrow> CatalogEdge \<Rightarrow> string" where
  "near_end direction e = (case direction of Outgoing \<Rightarrow> ce_source e | Incoming \<Rightarrow> ce_target e)"

definition index_ok :: "Direction \<Rightarrow> string set \<Rightarrow> CatalogEdge list \<Rightarrow> (string, nat list) btree \<Rightarrow> bool" where
  "index_ok direction ks edges index \<longleftrightarrow> bt_inv index \<and>
     (\<forall>k. map_of index k =
        (if k \<in> ks \<union> near_end direction ` set edges
         then Some (filter (\<lambda>i. near_end direction (edges ! i) = k) [0..<length edges]) else None))"

text \<open>Well-formedness: each index has a row per node and per end of an edge, naming its edges.\<close>

definition graph_ok :: "CatalogGraph \<Rightarrow> bool" where
  "graph_ok g \<longleftrightarrow> bt_inv (gr_nodes g)
     \<and> index_ok Outgoing (fst ` set (gr_nodes g)) (gr_edges g) (gr_outgoing g)
     \<and> index_ok Incoming (fst ` set (gr_nodes g)) (gr_edges g) (gr_incoming g)
     \<and> distinct (map edge_key (gr_edges g)) \<and> gr_edge_keys g = edge_key ` set (gr_edges g)"

lemma insort_insert_last: "\<forall>j \<in> set xs. j < (i :: nat) \<Longrightarrow> insort_insert i xs = xs @ [i]"
  by (auto simp: insort_insert_key_def) (induction xs; auto)

lemma no_edges: "k \<notin> near_end direction ` set edges \<Longrightarrow>
    filter (\<lambda>i. near_end direction (edges ! i) = k) [0..<length edges] = []"
  by (auto intro!: filter_False)

lemma index_ok_ensure:
  "index_ok direction ks edges index \<Longrightarrow> index_ok direction (insert k ks) edges (ensure_row k index)"
  unfolding index_ok_def ensure_row_def
  by (auto simp: bt_inv_update map_of_bt_update no_edges)

lemma index_ok_add:
  assumes "index_ok direction ks edges index"
  shows "index_ok direction ks (edges @ [e]) (index_row (near_end direction e) (length edges) index)"
proof -
  have "filter (\<lambda>i. near_end direction ((edges @ [e]) ! i) = k) [0..<length (edges @ [e])]
      = filter (\<lambda>i. near_end direction (edges ! i) = k) [0..<length edges]
        @ (if near_end direction e = k then [length edges] else [])" for k
    by (auto simp: nth_append intro!: filter_cong)
  with no_edges [of _ direction edges] show ?thesis using assms unfolding index_ok_def index_row_def
    by (auto simp: bt_inv_update map_of_bt_update insort_insert_last split: option.splits)
qed

lemma graph_ok_new: "graph_ok new_graph"
  by (simp add: graph_ok_def new_graph_def index_ok_def)

lemma graph_ok_add_node: "graph_ok g \<Longrightarrow> graph_ok (add_node node g)"
  by (simp add: graph_ok_def add_node_def bt_insert_def bt_inv_update bt_update_keys index_ok_ensure)

lemma graph_ok_add_edge: "graph_ok g \<Longrightarrow> graph_ok (add_edge e g)"
  using index_ok_add [of Outgoing "fst ` set (gr_nodes g)" "gr_edges g" "gr_outgoing g" e]
    index_ok_add [of Incoming "fst ` set (gr_nodes g)" "gr_edges g" "gr_incoming g" e]
  by (auto simp: graph_ok_def add_edge_def near_end_def)

lemma graph_ok_add_edges: "graph_ok g \<Longrightarrow> graph_ok (foldl (\<lambda>g e. add_edge e g) g es)"
  by (induction es arbitrary: g) (simp_all add: graph_ok_add_edge)

lemma index_ok_rows: "index_ok direction (fst ` set nodes) [] (fold (ensure_row \<circ> fst) nodes [])"
proof -
  have "index_ok direction (ks \<union> fst ` set nodes) [] (fold (ensure_row \<circ> fst) nodes index)"
    if "index_ok direction ks [] index" for ks index
    using that
  proof (induction nodes arbitrary: ks index)
    case (Cons kv nodes)
    from Cons.IH [OF index_ok_ensure [OF Cons.prems, of "fst kv"]] show ?case by simp
  qed simp
  from this [of "{}" "[]"] show ?thesis by (simp add: index_ok_def)
qed

lemma graph_ok_rebuild: "bt_inv (gr_nodes g) \<Longrightarrow> graph_ok (rebuild_indexes g)"
  unfolding rebuild_indexes_def by (intro graph_ok_add_edges) (simp add: graph_ok_def index_ok_rows)


text \<open>The graphs the operations build.\<close>

inductive built :: "CatalogGraph \<Rightarrow> bool" where
  built_new: "built new_graph"
| built_node: "built g \<Longrightarrow> built (add_node node g)"
| built_edge: "built g \<Longrightarrow> built (add_edge e g)"
| built_wire: "bt_inv nodes \<Longrightarrow> built (graph_of_wire nodes edges)"

lemma built_ok: "built g \<Longrightarrow> graph_ok g"
proof (induction rule: built.induct)
  case (built_wire nodes edges)
  then show ?case
    using graph_ok_rebuild [of "new_graph\<lparr>gr_nodes := nodes, gr_edges := edges\<rparr>"] by (simp add: graph_of_wire_def)
qed (simp_all add: graph_ok_new graph_ok_add_node graph_ok_add_edge)

text \<open>Two ordered maps with the same lookups are the same list.\<close>

lemma bt_eqI:
  assumes "bt_inv m" "bt_inv n" "\<And>k. map_of m k = map_of n k"
  shows "m = n"
proof (rule map_sorted_distinct_set_unique)
  show sets: "set m = set n"
    using bt.entries_look [OF assms(1)] bt.entries_look [OF assms(2)] assms(3) by auto
  show "sorted (map fst m)" "sorted (map fst n)" "distinct (map fst m)" "distinct (map fst n)"
    using assms(1,2) by (simp_all add: bt_inv_def strict_sorted_iff)
  then show "inj_on fst (set m \<union> set n)" unfolding sets by (simp add: distinct_map)
qed

lemma index_ok_unique:
  "index_ok direction ks edges a \<Longrightarrow> index_ok direction ks edges b \<Longrightarrow> a = b"
  by (rule bt_eqI) (simp_all add: index_ok_def)

lemma graph_ok_unique:
  "graph_ok g \<Longrightarrow> graph_ok h \<Longrightarrow> gr_nodes g = gr_nodes h \<Longrightarrow> gr_edges g = gr_edges h \<Longrightarrow> g = h"
  unfolding graph_ok_def by (metis (full_types) CatalogGraph.equality index_ok_unique old.unit.exhaust)

lemma add_edges_edges:
  "gr_edge_keys g = edge_key ` set (gr_edges g) \<Longrightarrow>
     gr_edges (foldl (\<lambda>g e. add_edge e g) g es) = gr_edges g @ fst (fresh edge_key es (gr_edge_keys g))"
proof (induction es arbitrary: g)
  case (Cons e es)
  have "gr_edge_keys (add_edge e g) = edge_key ` set (gr_edges (add_edge e g))"
    using Cons.prems by (auto simp: add_edge_def)
  from Cons.IH [OF this] show ?case by (simp add: add_edge_def split: prod.split)
qed simp

lemma add_edges_nodes: "gr_nodes (foldl (\<lambda>g e. add_edge e g) g es) = gr_nodes g"
  by (induction es arbitrary: g) (simp_all add: add_edge_def)

lemma fresh_distinct: "distinct (map key es) \<Longrightarrow> key ` set es \<inter> seen = {} \<Longrightarrow> fst (fresh key es seen) = es"
  by (induction key es seen rule: fresh.induct) (auto split: prod.splits)

lemma rebuild_edges: "gr_edges (rebuild_indexes g) = fst (fresh edge_key (gr_edges g) {})"
  by (simp add: rebuild_indexes_def add_edges_edges)

lemma rebuild_id:
  assumes "graph_ok g"
  shows "rebuild_indexes g = g"
proof (rule graph_ok_unique [OF _ assms])
  show "graph_ok (rebuild_indexes g)" using assms graph_ok_rebuild by (simp add: graph_ok_def)
  show "gr_nodes (rebuild_indexes g) = gr_nodes g" by (simp add: rebuild_indexes_def add_edges_nodes)
  show "gr_edges (rebuild_indexes g) = gr_edges g"
    using assms by (simp add: rebuild_edges fresh_distinct graph_ok_def)
qed

text \<open>What a row of an index reads back.\<close>

lemma row_edges_ok:
  assumes "graph_ok g"
  shows "row_edges g direction k = filter (\<lambda>e. near_end direction e = k) (gr_edges g)"
proof -
  let ?index = "case direction of Outgoing \<Rightarrow> gr_outgoing g | Incoming \<Rightarrow> gr_incoming g"
  have "index_ok direction (fst ` set (gr_nodes g)) (gr_edges g) ?index"
    using assms by (cases direction) (simp_all add: graph_ok_def)
  then have row: "case_option [] id (map_of ?index k)
      = filter (\<lambda>i. near_end direction (gr_edges g ! i) = k) [0..<length (gr_edges g)]"
    by (auto simp: index_ok_def no_edges)
  have "row_edges g direction k
      = map ((!) (gr_edges g)) (filter (\<lambda>i. near_end direction (gr_edges g ! i) = k) [0..<length (gr_edges g)])"
    unfolding row_edges_def row by (auto simp: map_filter_def intro!: map_cong filter_cong)
  also have "\<dots> = filter (\<lambda>e. near_end direction e = k) (map ((!) (gr_edges g)) [0..<length (gr_edges g)])"
    by (simp add: filter_map comp_def)
  finally show ?thesis by (simp add: map_nth)
qed

definition edge_arcs :: "CatalogGraph \<Rightarrow> (CatalogEdgeKind \<Rightarrow> bool) \<Rightarrow> (string \<times> string) set" where
  "edge_arcs g follow = {(ce_source e, ce_target e) | e. e \<in> set (gr_edges g) \<and> follow (ce_kind e)}"

definition oriented :: "Direction \<Rightarrow> ('k \<times> 'k) set \<Rightarrow> ('k \<times> 'k) set" where
  "oriented direction r = (case direction of Outgoing \<Rightarrow> r | Incoming \<Rightarrow> r\<inverse>)"

lemma search_arcs:
  assumes "graph_ok g"
  shows "search.arcs direction g follow = oriented direction (edge_arcs g follow)"
  unfolding search.arcs_def
  by (cases direction) (auto simp: row_edges_ok [OF assms] near_end_def far_end_def edge_arcs_def oriented_def)


section \<open>What the searches find\<close>

lemma fold_insort_insert:
  "sorted r \<Longrightarrow> distinct r \<Longrightarrow>
     sorted (fold insort_insert new r) \<and> distinct (fold insort_insert new r)
     \<and> set (fold insort_insert new r) = set r \<union> set new"
  by (induction new arbitrary: r) (auto simp: sorted_insort_insert distinct_insort_insert set_insort_insert)

lemma walk_loop_spec:
  assumes "search.search_inv direction g (\<lambda>_. True) root Q D"
    and "map fst Q = queue" "dom D = seen" "set r = dom D - {root}" "sorted r" "distinct r"
  shows "sorted (walk_loop g direction queue seen r) \<and> distinct (walk_loop g direction queue seen r)
    \<and> set (walk_loop g direction queue seen r) = {y. \<exists>d. search.at direction g (\<lambda>_. True) root d y} - {root}"
  using assms
proof (induction g direction queue seen r arbitrary: Q D rule: walk_loop.induct)
  case (1 g direction seen r)
  then have "dom D = {y. \<exists>d. search.at direction g (\<lambda>_. True) root d y}"
    using search.search_inv_end [of direction g "\<lambda>_. True" root D] by auto
  with 1 show ?case by simp
next
  case (2 g direction current queue seen r)
  from 2(3) obtain d Q' where Q: "Q = (current, d) # Q'" "map fst Q' = queue" by (cases Q) auto
  obtain new seen' where f: "fresh id (neighbors g direction current) seen = (new, seen')" by fastforce
  from search.search_inv_fresh [OF 2(2) [unfolded Q(1)] f [folded 2(4)]]
  obtain D' where D': "search.search_inv direction g (\<lambda>_. True) root (Q' @ map (\<lambda>e. (id e, Suc d)) new) D'"
    "dom D' = seen'" by (auto simp: neighbors_def)
  moreover have "map fst (Q' @ map (\<lambda>e. (id e, Suc d)) new) = queue @ new" using Q(2) by (simp add: comp_def)
  moreover have "set (fold insort_insert new r) = dom D' - {root}"
  proof -
    have "root \<in> seen" using search.search_invD(2) [OF 2(2)] 2(4) by auto
    with fresh_facts [OF f] fold_insort_insert [OF 2(6,7), of new] 2(4,5) D'(2) show ?thesis by auto
  qed
  ultimately have "sorted (walk_loop g direction (queue @ new) seen' (fold insort_insert new r))
    \<and> distinct (walk_loop g direction (queue @ new) seen' (fold insort_insert new r))
    \<and> set (walk_loop g direction (queue @ new) seen' (fold insort_insert new r))
      = {y. \<exists>d. search.at direction g (\<lambda>_. True) root d y} - {root}"
    using 2(1) [OF f [symmetric] refl, of "Q' @ map (\<lambda>e. (id e, Suc d)) new" D'] fold_insort_insert [OF 2(6,7), of new]
    by blast
  then show ?case by (simp add: f)
qed

lemma walk_spec:
  assumes "graph_ok g" "has_node g node"
  shows "sorted (walk g node direction) \<and> distinct (walk g node direction)
    \<and> set (walk g node direction) = {y. (node, y) \<in> (oriented direction (edge_arcs g (\<lambda>_. True)))\<^sup>*} - {node}"
proof -
  have "walk g node direction = walk_loop g direction [node] {node} []" using assms(2) by (simp add: walk_def)
  moreover have "sorted (walk_loop g direction [node] {node} []) \<and> distinct (walk_loop g direction [node] {node} [])
      \<and> set (walk_loop g direction [node] {node} []) = {y. \<exists>d. search.at direction g (\<lambda>_. True) node d y} - {node}"
    by (rule walk_loop_spec [OF search.search_inv_start]) (auto split: if_splits)
  moreover have "(node, y) \<in> (oriented direction (edge_arcs g (\<lambda>_. True)))\<^sup>*
      \<longleftrightarrow> (\<exists>d. search.at direction g (\<lambda>_. True) node d y)" for y
    unfolding search_arcs [OF assms(1), symmetric] by (rule search.reachable_at)
  ultimately show ?thesis by (simp only:)
qed

lemma reachable_iff:
  assumes "graph_ok g" "has_node g node"
  shows "reachable g node y \<longleftrightarrow> (node, y) \<in> (edge_arcs g (\<lambda>_. True))\<^sup>*"
proof -
  have "set (descendants g node) = {y. (node, y) \<in> (edge_arcs g (\<lambda>_. True))\<^sup>*} - {node}"
    using walk_spec [OF assms, of Outgoing] by (simp add: descendants_def oriented_def)
  then show ?thesis unfolding reachable_def by blast
qed

definition steps_ok :: "CatalogGraph \<Rightarrow> Direction \<Rightarrow> string \<Rightarrow> (string \<rightharpoonup> nat) \<Rightarrow> LineageStep list \<Rightarrow> bool" where
  "steps_ok g side root D steps \<longleftrightarrow>
     (\<lambda>s. (ls_node s, ls_depth s)) ` set steps = {(y, d). y \<noteq> root \<and> D y = Some d}
     \<and> distinct (map ls_node steps) \<and> sorted (map ls_depth steps)
     \<and> (\<forall>s \<in> set steps. \<exists>e \<in> set (gr_edges g). is_dependency (ce_kind e) \<and> ls_via s = ce_kind e
          \<and> ls_from s = near_end side e \<and> ls_node s = far_end side e
          \<and> (\<exists>c. D (ls_from s) = Some c \<and> ls_depth s = Suc c))"

abbreviation lineage_step :: "Direction \<Rightarrow> string \<Rightarrow> nat \<Rightarrow> CatalogEdge \<Rightarrow> LineageStep" where
  "lineage_step side current depth e \<equiv>
     \<lparr>ls_node = far_end side e, ls_depth = depth, ls_via = ce_kind e, ls_from = current\<rparr>"

lemma steps_ok_more:
  assumes ok: "steps_ok g side root D steps" and D: "D current = Some d" "D root \<noteq> None"
    and new: "distinct (map (far_end side) new)" "far_end side ` set new \<inter> dom D = {}"
      "\<And>e. e \<in> set new \<Longrightarrow> e \<in> set (gr_edges g) \<and> is_dependency (ce_kind e) \<and> near_end side e = current"
    and depths: "\<And>s. s \<in> set steps \<Longrightarrow> ls_depth s \<le> Suc d"
  defines "D' \<equiv> (\<lambda>y. if y \<in> far_end side ` set new then Some (Suc d) else D y)"
  shows "steps_ok g side root D' (steps @ map (lineage_step side current (Suc d)) new)"
proof -
  let ?f = "\<lambda>s. (ls_node s, ls_depth s)" and ?far = "far_end side"
  have nodes: "ls_node ` set steps \<subseteq> dom D"
  proof
    fix y assume "y \<in> ls_node ` set steps"
    then obtain s where "s \<in> set steps" "y = ls_node s" by blast
    then have "(y, ls_depth s) \<in> ?f ` set steps" by auto
    with ok show "y \<in> dom D" unfolding steps_ok_def by auto
  qed
  have old: "D' y = D y" if "D y \<noteq> None" for y using that new(2) by (auto simp: D'_def)
  have "{(y, c). y \<noteq> root \<and> D' y = Some c}
      = {(y, c). y \<noteq> root \<and> D y = Some c} \<union> (\<lambda>y. (y, Suc d)) ` (far_end side ` set new)"
    using new(2) D(2) by (auto simp: D'_def split: if_splits)
  moreover have "?f ` set (steps @ map (lineage_step side current (Suc d)) new)
      = ?f ` set steps \<union> (\<lambda>y. (y, Suc d)) ` (far_end side ` set new)"
    by (simp only: set_append image_Un set_map image_image) simp
  ultimately have "?f ` set (steps @ map (lineage_step side current (Suc d)) new) = {(y, c). y \<noteq> root \<and> D' y = Some c}"
    using ok unfolding steps_ok_def by simp
  moreover have "distinct (map ls_node (steps @ map (lineage_step side current (Suc d)) new))"
  proof -
    have "ls_node ` set steps \<inter> ?far ` set new = {}" using nodes new(2) by blast
    then show ?thesis using ok new(1) unfolding steps_ok_def by (auto simp: comp_def)
  qed
  moreover have "sorted (map ls_depth (steps @ map (lineage_step side current (Suc d)) new))"
    using ok depths unfolding steps_ok_def by (auto simp: sorted_append comp_def sorted_map)
  moreover have "\<exists>e \<in> set (gr_edges g). is_dependency (ce_kind e) \<and> ls_via s = ce_kind e
      \<and> ls_from s = near_end side e \<and> ls_node s = far_end side e
      \<and> (\<exists>c. D' (ls_from s) = Some c \<and> ls_depth s = Suc c)"
    if s: "s \<in> set (steps @ map (lineage_step side current (Suc d)) new)" for s
  proof (cases "s \<in> set steps")
    case True
    with ok obtain e c where "e \<in> set (gr_edges g)" "is_dependency (ce_kind e)" "ls_via s = ce_kind e"
      "ls_from s = near_end side e" "ls_node s = far_end side e" "D (ls_from s) = Some c" "ls_depth s = Suc c"
      unfolding steps_ok_def by blast
    with old [of "ls_from s"] show ?thesis by auto
  next
    case False
    with s obtain e where "e \<in> set new" "s = lineage_step side current (Suc d) e" by auto
    with new(3) [of e] D(1) old [of current] show ?thesis by auto
  qed
  ultimately show ?thesis unfolding steps_ok_def by blast
qed

lemma next_edges_set:
  "graph_ok g \<Longrightarrow> set (next_edges g direction k)
     = {e \<in> set (gr_edges g). is_dependency (ce_kind e) \<and> near_end (lineage_side direction) e = k}"
  by (auto simp: next_edges_def row_edges_ok)

lemma lineage_loop_spec:
  assumes "search.search_inv (lineage_side direction) g is_dependency root queue D"
    and "graph_ok g" "card (endpoints g) < usize_max"
    and "dom D = seen" "steps_ok g (lineage_side direction) root D steps"
    and "\<And>s. queue \<noteq> [] \<Longrightarrow> s \<in> set steps \<Longrightarrow> ls_depth s \<le> Suc (snd (hd queue))"
  shows "\<exists>D. (\<forall>y d. D y = Some d \<longleftrightarrow> search.at (lineage_side direction) g is_dependency root d y)
    \<and> steps_ok g (lineage_side direction) root D (lineage_loop g direction queue seen steps)"
  using assms
proof (induction g direction queue seen steps arbitrary: D rule: lineage_loop.induct)
  case (1 g direction seen steps)
  then show ?case using search.search_inv_end [OF 1(1)] by auto
next
  case (2 g direction current d queue seen steps)
  let ?side = "lineage_side direction"
  let ?far = "far_end ?side"
  obtain new seen' where f: "fresh ?far (next_edges g direction current) seen = (new, seen')" by fastforce
  have succ: "?far ` set (next_edges g direction current)
      = ?far ` {e \<in> set (row_edges g ?side current). is_dependency (ce_kind e)}"
    by (auto simp: next_edges_def)
  define D' where "D' = (\<lambda>y. if y \<in> ?far ` set new then Some (Suc d) else D y)"
  from search.search_inv_fresh [OF 2(2) f [folded 2(5)] succ]
  have inv: "search.search_inv ?side g is_dependency root (queue @ map (\<lambda>e. (?far e, Suc d)) new) D'" "dom D' = seen'"
    and new: "distinct (map ?far new)" "?far ` set new \<inter> dom D = {}" "set new \<subseteq> set (next_edges g direction current)"
    by (auto simp: D'_def)
  have D: "D current = Some d" using search.search_invD(3) [OF 2(2), of current d] by simp
  have depths: "ls_depth s \<le> Suc d" if "s \<in> set steps" for s using 2(7) [OF _ that] by simp
  have "d \<le> card (endpoints g)"
    using search.at_bounded search.search_invD(1) [OF 2(2) D] by blast
  with 2(4) have sat: "sat_add usize_max d 1 = Suc d" by (simp add: sat_add_def)
  have ok: "steps_ok g ?side root D' (steps @ map (lineage_step ?side current (Suc d)) new)"
    unfolding D'_def
    by (rule steps_ok_more [OF 2(6) D search.search_invD(2) [OF 2(2)] new(1,2) _ depths])
      (use new(3) next_edges_set [OF 2(3)] in auto)
  have head: "ls_depth s \<le> Suc (snd (hd (queue @ map (\<lambda>e. (?far e, Suc d)) new)))"
    if "queue @ map (\<lambda>e. (?far e, Suc d)) new \<noteq> []" "s \<in> set (steps @ map (lineage_step ?side current (Suc d)) new)" for s
  proof -
    have "d \<le> snd (hd (queue @ map (\<lambda>e. (?far e, Suc d)) new))"
      using search.search_invD(4) [OF 2(2)] that(1) by (cases queue; cases new; force)
    moreover have "ls_depth s \<le> Suc d" using that(2) depths by auto
    ultimately show ?thesis by linarith
  qed
  have "lineage_loop g direction ((current, d) # queue) seen steps
      = lineage_loop g direction (queue @ map (\<lambda>e. (?far e, Suc d)) new) seen'
          (steps @ map (lineage_step ?side current (Suc d)) new)"
    using sat by (simp add: f Let_def)
  then show ?case
    by (simp only:) (rule 2(1) [OF refl f [symmetric] refl refl, unfolded sat, OF inv(1) 2(3,4) inv(2) ok head])
qed

definition distance :: "('k \<times> 'k) set \<Rightarrow> 'k \<Rightarrow> 'k \<Rightarrow> nat \<Rightarrow> bool" where
  "distance r x y d \<longleftrightarrow> (x, y) \<in> r ^^ d \<and> (\<forall>c < d. (x, y) \<notin> r ^^ c)"

lemma at_distance:
  "graph_ok g \<Longrightarrow> search.at direction g follow root d y \<longleftrightarrow>
     distance (oriented direction (edge_arcs g follow)) root y d"
  unfolding search.at_def distance_def search_arcs [symmetric] ..


text \<open>The neighbourhood follows edges both ways.\<close>

interpretation both: bfs "\<lambda>k. fst ` set (neighbors_both g k)" "endpoints g" root for g root
  by standard (simp add: endpoints_def, rule neighbors_both_endpoints)

lemma neighbors_both_set:
  "graph_ok g \<Longrightarrow> (y, incoming) \<in> set (neighbors_both g x)
     \<longleftrightarrow> (if incoming then (y, x) else (x, y)) \<in> edge_arcs g (\<lambda>_. True)"
  by (force simp: neighbors_both_def neighbors_def row_edges_ok near_end_def far_end_def edge_arcs_def)

lemma fst_image_bool: "y \<in> fst ` S \<longleftrightarrow> (y, True) \<in> S \<or> (y, False) \<in> S"
  by (auto simp: image_iff) (metis (full_types) fst_conv surj_pair)+

lemma near_both:
  "graph_ok g \<Longrightarrow> y \<in> fst ` set (neighbors_both g x)
     \<longleftrightarrow> (y, x) \<in> edge_arcs g (\<lambda>_. True) \<or> (x, y) \<in> edge_arcs g (\<lambda>_. True)"
  unfolding fst_image_bool by (simp add: neighbors_both_set)

lemma both_arcs:
  "graph_ok g \<Longrightarrow> both.arcs g = edge_arcs g (\<lambda>_. True) \<union> (edge_arcs g (\<lambda>_. True))\<inverse>"
  unfolding both.arcs_def by (auto simp: near_both)

lemma fresh_filter: "root \<in> seen \<Longrightarrow> fresh key (filter (\<lambda>e. key e \<noteq> root) es) seen = fresh key es seen"
  by (induction key es seen rule: fresh.induct) auto

lemma bt_inv_note: "bt_inv m \<Longrightarrow> bt_inv (fold (note_related depth) cs m)"
  by (induction cs arbitrary: m) (auto simp: note_related_def bt_inv_update split: prod.splits)

lemma note_all:
  "bt_inv m \<Longrightarrow> map_of (fold (note_related depth) cs m) y =
     (if (y, True) \<in> set cs \<or> (y, False) \<in> set cs then
        Some (case map_of m y of
            None \<Rightarrow> \<lparr>rn_node = y, rn_depth = depth, rn_incoming = (y, True) \<in> set cs, rn_outgoing = (y, False) \<in> set cs\<rparr>
          | Some old \<Rightarrow> old\<lparr>rn_depth := min (rn_depth old) depth,
                           rn_incoming := rn_incoming old \<or> (y, True) \<in> set cs,
                           rn_outgoing := rn_outgoing old \<or> (y, False) \<in> set cs\<rparr>)
      else map_of m y)"
proof (induction cs arbitrary: m)
  case (Cons c cs)
  obtain k incoming where c: "c = (k, incoming)" by (cases c)
  have "bt_inv (note_related depth c m)" using Cons.prems by (simp add: c note_related_def bt_inv_update)
  note IH = Cons.IH [OF this]
  have here: "map_of (note_related depth c m) y =
      (if y = k then Some (case map_of m k of
            None \<Rightarrow> \<lparr>rn_node = k, rn_depth = depth, rn_incoming = incoming, rn_outgoing = \<not> incoming\<rparr>
          | Some old \<Rightarrow> old\<lparr>rn_depth := min (rn_depth old) depth, rn_incoming := rn_incoming old \<or> incoming,
                           rn_outgoing := rn_outgoing old \<or> \<not> incoming\<rparr>)
       else map_of m y)"
    using Cons.prems by (simp add: c note_related_def map_of_bt_update Let_def split: option.split)
  show ?case
  proof (cases "y = k")
    case True
    then show ?thesis using IH unfolding here by (cases incoming) (auto simp: c split: option.split)
  next
    case False
    then show ?thesis using IH unfolding here by (auto simp: c split: option.split)
  qed
qed simp

definition related_ok ::
  "CatalogGraph \<Rightarrow> string \<Rightarrow> (string \<rightharpoonup> nat) \<Rightarrow> string set \<Rightarrow> (string, RelatedNode) btree \<Rightarrow> bool" where
  "related_ok g root D expanded related \<longleftrightarrow> bt_inv related \<and>
     (\<forall>y. map_of related y =
        (if y = root then None
         else map_option (\<lambda>d. \<lparr>rn_node = y, rn_depth = d,
                rn_incoming = (\<exists>x \<in> expanded. (y, x) \<in> edge_arcs g (\<lambda>_. True)),
                rn_outgoing = (\<exists>x \<in> expanded. (x, y) \<in> edge_arcs g (\<lambda>_. True))\<rparr>) (D y)))"

lemma related_ok_more:
  fixes x :: string
  assumes g: "graph_ok g" and ok: "related_ok g root D expanded related"
    and D: "\<And>y c. D y = Some c \<Longrightarrow> c \<le> Suc d" and closed: "\<And>z. z \<in> expanded \<Longrightarrow> fst ` set (neighbors_both g z) \<subseteq> dom D"
  defines "D' \<equiv> (\<lambda>y. if y \<in> fst ` set (neighbors_both g x) - dom D then Some (Suc d) else D y)"
  shows "related_ok g root D' (insert x expanded)
    (fold (note_related (Suc d)) (filter (\<lambda>(k, incoming). k \<noteq> root) (neighbors_both g x)) related)"
proof -
  let ?cs = "filter (\<lambda>(k, incoming). k \<noteq> root) (neighbors_both g x)"
  let ?r = "edge_arcs g (\<lambda>_. True)"
  have inv: "bt_inv related" using ok by (simp add: related_ok_def)
  have map: "map_of related y = (if y = root then None
         else map_option (\<lambda>d. \<lparr>rn_node = y, rn_depth = d,
                rn_incoming = (\<exists>x \<in> expanded. (y, x) \<in> ?r), rn_outgoing = (\<exists>x \<in> expanded. (x, y) \<in> ?r)\<rparr>) (D y))" for y
    using ok by (simp add: related_ok_def)
  have cs: "(y, b) \<in> set ?cs \<longleftrightarrow> y \<noteq> root \<and> (y, b) \<in> set (neighbors_both g x)" for y b by auto
  have flags: "(y, True) \<in> set (neighbors_both g x) \<longleftrightarrow> (y, x) \<in> ?r" "(y, False) \<in> set (neighbors_both g x) \<longleftrightarrow> (x, y) \<in> ?r" for y
    by (simp_all add: neighbors_both_set [OF g])
  note near = near_both [OF g]
  have unseen: "(y, z) \<notin> ?r \<and> (z, y) \<notin> ?r" if "D y = None" "z \<in> expanded" for y z
    using closed [OF that(2)] that(1) near [of y z] by auto
  have "map_of (fold (note_related (Suc d)) ?cs related) y = (if y = root then None
         else map_option (\<lambda>d. \<lparr>rn_node = y, rn_depth = d,
                rn_incoming = (\<exists>x \<in> insert x expanded. (y, x) \<in> ?r),
                rn_outgoing = (\<exists>x \<in> insert x expanded. (x, y) \<in> ?r)\<rparr>) (D' y))" for y
  proof (cases "y = root")
    case True
    then show ?thesis by (simp add: note_all [OF inv] map)
  next
    case False
    then show ?thesis
      using D [of y] unseen [of y] near [of y x]
      by (cases "D y") (auto simp: note_all [OF inv] map cs flags D'_def min_def)
  qed
  with bt_inv_note [OF inv] show ?thesis unfolding related_ok_def by blast
qed

lemma related_loop_skip:
  "\<forall>(x, d) \<in> set queue. depth \<le> d \<Longrightarrow> related_loop g root depth queue seen related = related"
proof (induction queue)
  case (Cons a queue)
  then show ?case by (cases a) simp
qed simp

lemma related_loop_spec:
  assumes "both.search_inv g root queue D" "graph_ok g" "card (endpoints g) < usize_max" "dom D = seen"
    and "related_ok g root D expanded related"
    and "\<And>y c. D y = Some c \<Longrightarrow> c \<le> depth \<and> (queue \<noteq> [] \<longrightarrow> c \<le> Suc (snd (hd queue)))"
    and "\<And>x. x \<in> expanded \<Longrightarrow> fst ` set (neighbors_both g x) \<subseteq> dom D \<and> (\<exists>c < depth. D x = Some c)"
    and "dom D = expanded \<union> fst ` set queue"
  shows "related_ok g root (both.within g root depth)
    {x. \<exists>d < depth. both.at g root d x} (related_loop g root depth queue seen related)"
  using assms
proof (induction g root depth queue seen related arbitrary: D expanded rule: related_loop.induct)
  case (1 g root depth seen related)
  have D: "D y = Some c \<longleftrightarrow> both.at g root c y" for y c by (rule both.search_inv_end [OF 1(1)])
  have "D = both.within g root depth" using 1(6) D by (intro both.withinI) blast+
  moreover have "expanded = {x. \<exists>d < depth. both.at g root d x}"
    using 1(7,8) D by auto
  ultimately show ?case using 1(5) by simp
next
  case (2 g root depth current d queue seen related)
  have inv: "both.search_inv g root ((current, d) # queue) D" by (rule 2(3))
  have Dc: "D current = Some d" using both.search_invD(3) [OF inv, of current d] by simp
  show ?case
  proof (cases "depth \<le> d")
    case True
    have all: "depth \<le> c" if "(x, c) \<in> set queue" for x c
      using both.search_invD(4) [OF inv] True that by auto
    have skip: "related_loop g root depth ((current, d) # queue) seen related = related"
      by (rule related_loop_skip) (use True all in auto)
    have low: "D y = Some c" if "both.at g root c y" "c \<le> depth" for y c
      using both.search_inv_low [OF inv that(1)] that(2) True by simp
    have at: "both.at g root c y" if "D y = Some c" for y c using both.search_invD(1) [OF inv that] .
    have "D = both.within g root depth" using 2(8) at low by (intro both.withinI) blast+
    moreover have "expanded = {x. \<exists>d < depth. both.at g root d x}"
    proof (intro equalityI subsetI)
      fix x assume "x \<in> {x. \<exists>d < depth. both.at g root d x}"
      then obtain c where c: "c < depth" "both.at g root c x" by auto
      with low [of c x] have "D x = Some c" by simp
      then have "x \<in> expanded \<or> x \<in> fst ` set ((current, d) # queue)" using 2(10) by blast
      moreover have "e = c" if "(x, e) \<in> set ((current, d) # queue)" for e
        using both.search_invD(3) [OF inv that] \<open>D x = Some c\<close> by simp
      moreover have "depth \<le> e" if "(x, e) \<in> set ((current, d) # queue)" for e using that True all by auto
      ultimately show "x \<in> expanded" using c(1) by force
    qed (use 2(9) at in blast)
    ultimately show ?thesis using 2(7) skip by simp
  next
    case False
    let ?cs = "filter (\<lambda>(k, incoming). k \<noteq> root) (neighbors_both g current)"
    obtain new seen' where f: "fresh fst (neighbors_both g current) seen = (new, seen')" by fastforce
    have "root \<in> seen" using both.search_invD(2) [OF inv] 2(6) by auto
    from fresh_filter [OF this, of fst "neighbors_both g current"] f
    have fc: "fresh fst ?cs seen = (new, seen')" by (simp add: case_prod_beta')
    define D' where "D' = (\<lambda>y. if y \<in> fst ` set new then Some (Suc d) else D y)"
    from both.search_inv_fresh [OF inv f [folded 2(6)] refl]
    have step: "both.search_inv g root (queue @ map (\<lambda>e. (fst e, Suc d)) new) D'" "dom D' = seen'"
      by (auto simp: D'_def)
    have new: "fst ` set new = fst ` set (neighbors_both g current) - dom D"
      using fresh_facts [OF f] 2(6) by auto
    have "d \<le> card (endpoints g)" using both.at_bounded both.search_invD(1) [OF inv Dc] by blast
    with 2(5) have sat: "sat_add usize_max d 1 = Suc d" by (simp add: sat_add_def)
    have ok: "related_ok g root D' (insert current expanded) (fold (note_related (Suc d)) ?cs related)"
      unfolding D'_def new by (rule related_ok_more [OF 2(4,7)]) (use 2(8,9) in auto)
    have eq: "related_loop g root depth ((current, d) # queue) seen related
        = related_loop g root depth (queue @ map (\<lambda>(k, incoming). (k, Suc d)) new) seen'
            (fold (note_related (Suc d)) ?cs related)"
      using False sat by (simp add: fc Let_def)
    have head: "c \<le> depth \<and> (queue @ map (\<lambda>(k, incoming). (k, Suc d)) new \<noteq> [] \<longrightarrow>
        c \<le> Suc (snd (hd (queue @ map (\<lambda>(k, incoming). (k, Suc d)) new))))" if "D' y = Some c" for y c
    proof -
      have "c \<le> Suc d \<and> c \<le> depth" using that 2(8) [of y c] False by (auto simp: D'_def split: if_splits)
      moreover have "d \<le> snd (hd (queue @ map (\<lambda>(k, incoming). (k, Suc d)) new))"
        if "queue @ map (\<lambda>(k, incoming). (k, Suc d)) new \<noteq> []"
        using both.search_invD(4) [OF inv] that by (cases queue; cases new; force)
      ultimately show ?thesis by linarith
    qed
    have closed: "fst ` set (neighbors_both g x) \<subseteq> dom D' \<and> (\<exists>c < depth. D' x = Some c)"
      if "x \<in> insert current expanded" for x
    proof (cases "x = current")
      case True
      have "fst ` set (neighbors_both g current) \<subseteq> dom D'" using step(2) fresh_facts [OF f] by auto
      moreover have "current \<notin> fst ` set new" using new Dc by auto
      ultimately show ?thesis using True Dc False by (auto simp: D'_def)
    next
      case other: False
      with that 2(9) [of x] obtain c where c: "fst ` set (neighbors_both g x) \<subseteq> dom D" "c < depth" "D x = Some c" by auto
      then have "x \<notin> fst ` set new" using new by auto
      with c show ?thesis by (auto simp: D'_def)
    qed
    have dom: "dom D' = insert current expanded \<union> fst ` set (queue @ map (\<lambda>(k, incoming). (k, Suc d)) new)"
    proof -
      have "dom D' = dom D \<union> fst ` set new" by (simp add: D'_def dom_def set_eq_iff)
      moreover have "fst ` set (queue @ map (\<lambda>(k, incoming). (k, Suc d)) new) = fst ` set queue \<union> fst ` set new"
        by (simp add: image_Un image_image case_prod_beta')
      ultimately show ?thesis using 2(10) by (simp add: Un_assoc)
    qed
    have inv': "both.search_inv g root (queue @ map (\<lambda>(k, incoming). (k, Suc d)) new) D'"
      using step(1) by (simp add: case_prod_beta')
    show ?thesis unfolding eq
    proof (rule 2(2) [OF False refl refl fc [symmetric] refl, unfolded sat, OF inv' 2(4,5) step(2) ok])
      fix y c assume "D' y = Some c"
      then show "c \<le> depth \<and> (queue @ map (\<lambda>(k, incoming). (k, Suc d)) new \<noteq> [] \<longrightarrow>
          c \<le> Suc (snd (hd (queue @ map (\<lambda>(k, incoming). (k, Suc d)) new))))" by (rule head)
    next
      fix x assume "x \<in> insert current expanded"
      then show "fst ` set (neighbors_both g x) \<subseteq> dom D' \<and> (\<exists>c < depth. D' x = Some c)" by (rule closed)
    qed (rule dom)
  qed
qed


section \<open>The properties\<close>

text \<open>A diamond of views over one table, in one schema.\<close>

definition sample_provenance :: Provenance where
  "sample_provenance =
     \<lparr>prov_source = InformationSchema, prov_data_source = LiveSource, prov_snapshot_id = '''', prov_discovered_at = '''',
      prov_profile_fingerprint = ''p'', prov_object_fingerprint = '''', prov_command_id = '''', prov_trace_id = '''',
      prov_redactions_applied = []\<rparr>"

definition sample_edge :: "string \<Rightarrow> CatalogEdgeKind \<Rightarrow> string \<Rightarrow> CatalogEdge" where
  "sample_edge source kind target =
     \<lparr>ce_source = source, ce_target = target, ce_kind = kind, ce_detail = None, ce_provenance = sample_provenance,
      ce_redactions_applied = []\<rparr>"

definition sample_node :: "string \<Rightarrow> CatalogNode" where
  "sample_node k = \<lparr>cn_key = k, cn_kind = ObjectNode, cn_label = k, cn_qualified_name = None,
     cn_provenance = sample_provenance, cn_redactions_applied = []\<rparr>"

definition diamond :: CatalogGraph where
  "diamond =
     add_edge (sample_edge ''d'' Tagged ''t'') (add_edge (sample_edge ''c'' EdgeViewDependsOn ''d'')
     (add_edge (sample_edge ''b'' EdgeViewDependsOn ''d'') (add_edge (sample_edge ''a'' EdgeViewDependsOn ''c'')
     (add_edge (sample_edge ''a'' EdgeViewDependsOn ''b'') (add_node (sample_node ''d'')
       (add_node (sample_node ''a'') new_graph))))))"

lemma diamond_facts: "built diamond" "has_node diamond ''a''" "card (endpoints diamond) < usize_max"
proof -
  show "built diamond" unfolding diamond_def by (intro built.intros)
  show "has_node diamond ''a''" by code_simp
  have "endpoints diamond = {''a'', ''b'', ''c'', ''d'', ''t''}" by code_simp
  then show "card (endpoints diamond) < usize_max" by (simp add: usize_max_def)
qed

lemma diamond_rows:
  "next_edges diamond Upstream ''a'' = [sample_edge ''a'' EdgeViewDependsOn ''b'', sample_edge ''a'' EdgeViewDependsOn ''c'']"
  "next_edges diamond Upstream ''b'' = [sample_edge ''b'' EdgeViewDependsOn ''d'']"
  "next_edges diamond Upstream ''c'' = [sample_edge ''c'' EdgeViewDependsOn ''d'']"
  "next_edges diamond Upstream ''d'' = []"
  "neighbors_both diamond ''a'' = [(''b'', False), (''c'', False)]"
  "neighbors_both diamond ''b'' = [(''a'', True), (''d'', False)]"
  "neighbors_both diamond ''c'' = [(''a'', True), (''d'', False)]"
  by code_simp+

lemma small_depths [simp]: "sat_add usize_max 0 (Suc 0) = 1" "sat_add usize_max (Suc 0) (Suc 0) = 2" "sat_add usize_max 2 (Suc 0) = 3"
  by (simp_all add: sat_add_def usize_max_def)

text \<open>
  C28. The searches find what is reachable. Over a graph that the operations built or that was read
  back, the descendants and the ancestors of a node are the other nodes a path leads to, or leads
  from, each once and in order, and \<^verbatim>\<open>reachable\<close> decides whether there is a path.
\<close>

theorem searches_find_reachable:
  assumes "built g" and "has_node g node"
  shows "sorted (descendants g node) \<and> distinct (descendants g node)
    \<and> set (descendants g node) = {y. (node, y) \<in> (edge_arcs g (\<lambda>_. True))\<^sup>*} - {node}
    \<and> sorted (ancestors g node) \<and> distinct (ancestors g node)
    \<and> set (ancestors g node) = {y. (y, node) \<in> (edge_arcs g (\<lambda>_. True))\<^sup>*} - {node}
    \<and> (\<forall>y. reachable g node y \<longleftrightarrow> (node, y) \<in> (edge_arcs g (\<lambda>_. True))\<^sup>*)"
  using walk_spec [OF built_ok [OF assms(1)] assms(2), of Outgoing]
    walk_spec [OF built_ok [OF assms(1)] assms(2), of Incoming]
  by (auto simp: ancestors_def descendants_def reachable_def oriented_def rtrancl_converse)

theorem searches_find_reachable_witness: "(''a'', ''t'') \<in> (edge_arcs diamond (\<lambda>_. True))\<^sup>*"
proof -
  have "reachable diamond ''a'' ''t''" by code_simp
  with searches_find_reachable [OF diamond_facts(1,2)] show ?thesis by blast
qed

text \<open>
  C27. Lineage is shortest. The steps of a lineage walk are the nodes that dependencies connect the seed
  with, in the direction asked for, each once; a step's depth is the length of a shortest such path,
  and steps come in order of depth; its edge leads to it from a node one hop nearer to the seed.
\<close>

theorem lineage_is_shortest:
  fixes direction :: LineageDirection
  assumes "built g" and "has_node g node" and "card (endpoints g) < usize_max"
  defines "steps \<equiv> lineage g node direction"
    and "r \<equiv> oriented (lineage_side direction) (edge_arcs g is_dependency)"
  shows "(\<forall>y d. (\<exists>s \<in> set steps. ls_node s = y \<and> ls_depth s = d) \<longleftrightarrow> y \<noteq> node \<and> distance r node y d)
    \<and> distinct (map ls_node steps) \<and> sorted (map ls_depth steps)
    \<and> (\<forall>s \<in> set steps. \<exists>e \<in> set (gr_edges g). is_dependency (ce_kind e) \<and> ls_via s = ce_kind e
         \<and> ls_from s = near_end (lineage_side direction) e \<and> ls_node s = far_end (lineage_side direction) e
         \<and> (\<exists>c. distance r node (ls_from s) c \<and> ls_depth s = Suc c))"
proof -
  let ?side = "lineage_side direction"
  note g = built_ok [OF assms(1)]
  have steps: "steps = lineage_loop g direction [(node, 0)] {node} []" using assms(2) by (simp add: steps_def lineage_def)
  have "steps_ok g ?side node [node \<mapsto> 0] []" by (auto simp: steps_ok_def)
  from lineage_loop_spec [OF search.search_inv_start g assms(3) _ this, of "{node}"]
  obtain D where D: "\<And>y d. D y = Some d \<longleftrightarrow> distance r node y d" "steps_ok g ?side node D steps"
    unfolding steps at_distance [OF g] r_def by auto
  have "(\<exists>s \<in> set steps. ls_node s = y \<and> ls_depth s = d) \<longleftrightarrow> (y, d) \<in> (\<lambda>s. (ls_node s, ls_depth s)) ` set steps" for y d
    by auto
  with D show ?thesis unfolding steps_ok_def by auto
qed

theorem lineage_is_shortest_witness:
  "distance (oriented Outgoing (edge_arcs diamond is_dependency)) ''a'' ''d'' 2"
proof -
  have "map (\<lambda>s. (ls_node s, ls_depth s)) (lineage diamond ''a'' Upstream) = [(''b'', 1), (''c'', 1), (''d'', 2)]"
    by (simp add: lineage_def diamond_facts diamond_rows far_end_def sample_edge_def)
  then have "(''d'', 2) \<in> set (map (\<lambda>s. (ls_node s, ls_depth s)) (lineage diamond ''a'' Upstream))" by simp
  then obtain s where "s \<in> set (lineage diamond ''a'' Upstream)" "ls_node s = ''d''" "ls_depth s = 2" by auto
  with lineage_is_shortest [OF diamond_facts, of Upstream] show ?thesis by fastforce
qed

text \<open>
  C31. The neighbourhood is exact. What relates to a node within a depth is every other node at most that
  many edges away, whatever way they point, each once, in order and at its distance; a node is marked
  incoming when one of its edges enters a node nearer than the depth, outgoing when one leaves it.
\<close>

theorem neighbourhood_is_exact:
  assumes "built g" and "has_node g node" and "card (endpoints g) < usize_max"
  defines "r \<equiv> edge_arcs g (\<lambda>_. True)"
  shows "sorted (map rn_node (what_relates_to g node depth)) \<and> distinct (map rn_node (what_relates_to g node depth))
    \<and> set (what_relates_to g node depth) =
        {\<lparr>rn_node = y, rn_depth = d,
          rn_incoming = (\<exists>x. (\<exists>c < depth. distance (r \<union> r\<inverse>) node x c) \<and> (y, x) \<in> r),
          rn_outgoing = (\<exists>x. (\<exists>c < depth. distance (r \<union> r\<inverse>) node x c) \<and> (x, y) \<in> r)\<rparr>
         | y d. y \<noteq> node \<and> distance (r \<union> r\<inverse>) node y d \<and> d \<le> depth}"
proof -
  note g = built_ok [OF assms(1)]
  define m where "m = related_loop g node depth [(node, 0)] {node} []"
  have at: "both.at g node d y \<longleftrightarrow> distance (r \<union> r\<inverse>) node y d" for d y
    unfolding both.at_def distance_def both_arcs [OF g] r_def ..
  have list: "what_relates_to g node depth = map snd m" using assms(2) by (simp add: what_relates_to_def m_def)
  have start: "related_ok g node [node \<mapsto> 0] {} []" by (auto simp: related_ok_def)
  have "related_ok g node (both.within g node depth) {x. \<exists>d < depth. both.at g node d x} m"
    unfolding m_def
    by (rule related_loop_spec [OF both.search_inv_start g assms(3) _ start]) (auto split: if_splits)
  then have m: "bt_inv m" and look: "map_of m y = (if y = node then None
         else map_option (\<lambda>d. \<lparr>rn_node = y, rn_depth = d,
                rn_incoming = (\<exists>x \<in> {x. \<exists>d < depth. both.at g node d x}. (y, x) \<in> r),
                rn_outgoing = (\<exists>x \<in> {x. \<exists>d < depth. both.at g node d x}. (x, y) \<in> r)\<rparr>) (both.within g node depth y))" for y
    unfolding related_ok_def r_def by blast+
  have keys: "rn_node v = y" if "(y, v) \<in> set m" for y v
    using that unfolding bt.entries_look [OF m] look by (auto split: if_splits)
  then have "map rn_node (map snd m) = map fst m" by auto
  moreover have "sorted (map fst m) \<and> distinct (map fst m)" using m by (simp add: bt_inv_def strict_sorted_iff)
  ultimately have "sorted (map rn_node (map snd m)) \<and> distinct (map rn_node (map snd m))" by (simp only:)
  moreover have "v \<in> set (map snd m) \<longleftrightarrow> (\<exists>y d. v = \<lparr>rn_node = y, rn_depth = d,
        rn_incoming = (\<exists>x. (\<exists>c < depth. distance (r \<union> r\<inverse>) node x c) \<and> (y, x) \<in> r),
        rn_outgoing = (\<exists>x. (\<exists>c < depth. distance (r \<union> r\<inverse>) node x c) \<and> (x, y) \<in> r)\<rparr>
      \<and> y \<noteq> node \<and> distance (r \<union> r\<inverse>) node y d \<and> d \<le> depth)" (is "_ \<longleftrightarrow> (\<exists>y d. v = ?v y d \<and> _ y d)") for v
  proof -
    have "v \<in> set (map snd m) \<longleftrightarrow> (\<exists>y. map_of m y = Some v)" using bt.entries_look [OF m] by force
    also have "\<dots> \<longleftrightarrow> (\<exists>y. y \<noteq> node \<and> (\<exists>d. both.within g node depth y = Some d \<and> v = ?v y d))"
      unfolding look at by auto
    finally show ?thesis unfolding both.within_iff at by blast
  qed
  ultimately show ?thesis unfolding list by blast
qed

theorem neighbourhood_is_exact_witness:
  "distance (edge_arcs diamond (\<lambda>_. True) \<union> (edge_arcs diamond (\<lambda>_. True))\<inverse>) ''a'' ''d'' 2"
proof -
  have "map (\<lambda>s. (rn_node s, rn_depth s)) (what_relates_to diamond ''a'' 2) = [(''b'', 1), (''c'', 1), (''d'', 2)]"
    by (simp add: what_relates_to_def diamond_facts diamond_rows note_related_def)
  then have "(''d'', 2) \<in> set (map (\<lambda>s. (rn_node s, rn_depth s)) (what_relates_to diamond ''a'' 2))" by simp
  then obtain s where "s \<in> set (what_relates_to diamond ''a'' 2)" "rn_node s = ''d''" "rn_depth s = 2" by auto
  with neighbourhood_is_exact [OF diamond_facts, of 2] show ?thesis by auto
qed

text \<open>
  C30. A graph survives the wire. Only the nodes and the edges of a graph are serialised; reading them
  back rebuilds the same graph, indexes and edge keys included. Of edges that agree in source, kind,
  target and detail the first is kept.
\<close>

theorem graph_survives_the_wire:
  "(built g \<longrightarrow> graph_of_wire (gr_nodes g) (gr_edges g) = g)
    \<and> gr_edges (graph_of_wire nodes edges) = fst (fresh edge_key edges {})"
proof -
  have "graph_of_wire (gr_nodes g) (gr_edges g) = rebuild_indexes g" by (simp add: graph_of_wire_def rebuild_indexes_def)
  then show ?thesis using rebuild_id [OF built_ok] by (auto simp: graph_of_wire_def rebuild_edges)
qed

theorem graph_survives_the_wire_witness:
  "graph_of_wire (gr_nodes diamond) (gr_edges diamond) = diamond"
  using graph_survives_the_wire [of diamond "[]" "[]"] diamond_facts(1) by blast

end
