(* ===== verification/GraphBuild.thy ===== *)
theory GraphBuild
  imports Graph
begin

text \<open>
  The graph of a catalog snapshot, \<^verbatim>\<open>CatalogGraph::from_snapshot\<close> of
  \<^verbatim>\<open>crates/franken-snowflake-graph/src/lib.rs\<close>: node keys, the nodes and edges of datasets, columns,
  fields, relations and tags.

  An operation that adds nodes and yields a key returns the key with the graph.

  Lemmas: what the snapshot names is in the graph, and edges connect nodes of it.
\<close>

section \<open>Keys, nodes and edges\<close>









definition edge :: "string \<Rightarrow> CatalogEdgeKind \<Rightarrow> string \<Rightarrow> string option \<Rightarrow> Provenance \<Rightarrow> CatalogEdge" where
  "edge source kind target detail provenance =
     \<lparr>ce_source = source, ce_target = target, ce_kind = kind, ce_detail = detail,
      ce_provenance = provenance, ce_redactions_applied = prov_redactions_applied provenance\<rparr>"



section \<open>Datasets and columns\<close>






section \<open>Relations and tags\<close>









section \<open>The snapshot\<close>





section \<open>Growing\<close>

definition has_edge :: "CatalogGraph \<Rightarrow> EdgeKey \<Rightarrow> bool" where
  "has_edge g k \<longleftrightarrow> k \<in> edge_key ` set (gr_edges g)"






lemma has_node_add_node [simp]: "built g \<Longrightarrow> has_node (add_node n g) k \<longleftrightarrow> k = cn_key n \<or> has_node g k"
  using built_ok [of g]
  by (auto simp: has_node_def add_node_def bt_insert_def map_of_bt_update graph_ok_def)

lemma has_node_add_edge [simp]: "has_node (add_edge e g) k = has_node g k"
  by (simp add: has_node_def add_edge_def)

lemma has_edge_add_node [simp]: "has_edge (add_node n g) k = has_edge g k"
  by (simp add: has_edge_def add_node_def)

lemma has_edge_add_edge [simp]: "built g \<Longrightarrow> has_edge (add_edge e g) k \<longleftrightarrow> k = edge_key e \<or> has_edge g k"
  using built_ok [of g] by (auto simp: has_edge_def add_edge_def graph_ok_def)


lemma edge_key_edge [simp]: "edge_key (edge s kind t detail p) = (s, kind, t, detail)"
  by (simp add: edge_key_def edge_def)


declare built.intros [simp]







section \<open>What each operation adds\<close>






























section \<open>The properties\<close>






end
