(* ===== verification/Spec2Isabelle.thy ===== *)
theory Spec2Isabelle
  imports SqlStatements WriteIntent Guardrails Endpoint Typed Lifecycle PlanMeaning RawPlan HttpRoute HttpDate HttpRetry HttpStream Driver GraphBuild
begin

text \<open>
  A verification library for \<^verbatim>\<open>franken_snowflake\<close>, a command line and library that runs SQL on
  Snowflake for agents: it classifies a statement before it leaves the machine, refuses or
  authorizes it, sends it, follows it to its end, assembles the result partitions, decodes the
  cells and redacts what it prints. Paths below are under \<^verbatim>\<open>crates/\<close>.

  How the parts interact. The command line (\<^verbatim>\<open>franken-snowflake-cli/src/lib.rs\<close>) lexes a statement
  (\<^verbatim>\<open>core/src/sql_lexer.rs\<close>) and lets a single, unambiguous, side-effect-free read through; the
  query guard (\<^verbatim>\<open>core/src/guardrails.rs\<close>) bounds it; anything else must climb the write-intent
  ladder (\<^verbatim>\<open>core/src/write_intent.rs\<close>), which classifies the redacted preview
  (\<^verbatim>\<open>core/src/redact.rs\<close>) with the same lexer. The account is turned into an endpoint the bearer
  token may go to (\<^verbatim>\<open>core/src/endpoint.rs\<close>). The driver (\<^verbatim>\<open>sqlapi/src/driver.rs\<close>) submits the
  statement over the HTTP transport (\<^verbatim>\<open>http/src/lib.rs\<close>), which builds the request, repeats it when it
  may and classifies the answer; the driver feeds every answer to the statement
  machine (\<^verbatim>\<open>sqlapi/src/lifecycle.rs\<close>) and cancels the statement when it gives up on it. The machine
  extracts and decodes partitions with the byte scanner (\<^verbatim>\<open>core/src/jsonv2_scanner.rs\<close>); cells are
  then decoded per column (\<^verbatim>\<open>core/src/typed.rs\<close>). A dataset request takes another way in: the catalog
  (\<^verbatim>\<open>catalog/src/model.rs\<close>, \<^verbatim>\<open>operator.rs\<close>) validates its filter (\<^verbatim>\<open>catalog/src/predicate.rs\<close>) and the
  planner (\<^verbatim>\<open>catalog/src/planner.rs\<close>) writes the SQL and its bindings, under the same query guard. Errors, outcomes, cancellations and exit codes
  (\<^verbatim>\<open>core/src/error.rs\<close>, \<^verbatim>\<open>outcome.rs\<close>, \<^verbatim>\<open>cancel.rs\<close>, \<^verbatim>\<open>exit.rs\<close>) are the vocabulary of all of them.

  Theories, in the order they import each other:

  \<^item> \<open>Prelude\<close>: bytes and their ASCII classes, prefixes, suffixes and substring search, decimal text,
    machine integer bounds and saturating arithmetic, with the facts the components share.
  \<^item> \<open>Utf8\<close>: validity, character boundaries and slices, the encoder, Unicode trimming. A string of the
    source is its bytes.
  \<^item> \<open>SqlLexer\<close>: the tokens of \<^verbatim>\<open>sql_lexer.rs\<close>. Every byte is in exactly one token; on valid text no
    token cuts a character.
  \<^item> \<open>SqlStatements\<close>: statement counting and splitting, read classification, the command line's
    statement guards. Splitting agrees with counting; the classification as a condition on tokens;
    the two read guards agree.
  \<^item> \<open>Redact\<close>: the span finders and the redactor. The locale \<open>secret_redactor\<close> is the contract between
    a detector and a redactor (sorted disjoint spans); it is interpreted on the code's two
    routines, and redaction is masking what the detector covers.
  \<^item> \<open>Registry\<close>: error codes, outcomes, cancellation, exit codes, response classes, crash-pack
    fingerprints. Consistency of the tables and of their projections.
  \<^item> \<open>WriteIntent\<close>: the ladder. When it authorizes, what a grant proves, what it covers.
  \<^item> \<open>Guardrails\<close>: rights, query bounds, cost, canary scan. An accepted plan is bounded.
  \<^item> \<open>Endpoint\<close>: account to URL. An accepted endpoint is a Snowflake host; where validation panics.
  \<^item> \<open>Jsonv2Scanner\<close>: the partition scanner. The word search is the byte search; streaming is batch
    decoding followed by the visitor; rendered tables decode to themselves.
  \<^item> \<open>Typed\<close>: cell decoding. Dates are the Gregorian calendar's; instants survive the wire; a cell has
    the shape its column announces.
  \<^item> \<open>Lifecycle\<close>: the statement machine. The locale \<open>invariant_machine\<close> is the contract of a step
    relation and its invariant, interpreted on the handlers. Completion means the announced
    rows, terminal machines stay terminal, polling ends, draining loses nothing.

  \<^item> \<open>Json\<close>: the value type of \<^verbatim>\<open>serde_json\<close>.
  \<^item> \<open>BTreeMap\<close>: the standard library's ordered map as a sorted association list; the locale
    \<open>ordered_map\<close> is its contract, interpreted on the lists.
  \<^item> \<open>Catalog\<close>: snapshots, manifests, columns, identifiers and the operator table.
  \<^item> \<open>Predicates\<close>: the predicate tree. Validation as a condition on the leaves; the edit distance is
    the edit distance; suggestions are the best there are.
  \<^item> \<open>SqlPieces\<close>: the quoting routines, and texts put together from pieces: they lex back.
  \<^item> \<open>Planner\<close>: requests, plans, compilation of a predicate to SQL with typed bindings.
  \<^item> \<open>PlanSql\<close>: a grammar of conditions over tokens with its meaning, and that compiled predicates
    are read by it as what they mean.
  \<^item> \<open>PlanMeaning\<close>: a plan means its request, is one read, is bounded and holds no value in its text.
  \<^item> \<open>RawPlan\<close>: the planner's raw mode with its own tokenizer. An accepted plan is one select for the
    lexer where the two tokenizers agree; where they do not.

  \<^item> \<open>HttpRoute\<close>: routes, URLs, headers, limits and status classes of the transport. A URL reads back
    to its route; a wire request goes to the host of its endpoint and no header splits.
  \<^item> \<open>HttpDate\<close>: \<^verbatim>\<open>Retry-After\<close> and the three date formats of HTTP. They denote Gregorian instants.
  \<^item> \<open>HttpRetry\<close>: the retry policy and the loop of \<^verbatim>\<open>execute\<close>. It is bounded in attempts and sleep,
    repeats only what may be repeated, survives transient failures.
  \<^item> \<open>HttpStream\<close>: streaming of partitions and the remote cancel. Delivery in order and once; what a
    local cancellation sends.
  \<^item> \<open>Driver\<close>: submission, the poll and fetch loop, the guard of a dropped driver, the entry points.
    It returns, no statement is left running, and the rows handed out are those announced.

  \<^item> \<open>Bfs\<close>: breadth-first search with a queue. The locale \<open>bfs\<close> is what holds of queue and depths over a
    finite graph; \<open>Graph\<close> interprets it on its successor functions.
  \<^item> \<open>Graph\<close>: the relation graph (\<^verbatim>\<open>graph/src/lib.rs\<close>) and its searches. The indexes describe the edges,
    reading a serialised graph gives it back, searches find what is reachable at its distance.
  \<^item> \<open>GraphBuild\<close>: the graph of a catalog snapshot. What the snapshot names is in it and edges connect
    its nodes.

  How the code is represented. A structure is a record and an enumeration a datatype with the
  source's constructors; a function keeps its name, prefixed where the name is a method of several
  types. A byte position in a loop is the suffix that starts there, so the loops are recursions on
  suffixes that get shorter; nothing uses fuel. The loops of the transport and the driver read what the
  world answers from a function or a list of turns: the first ends by the attempts of its policy, and
  \<open>Driver\<close> proves how many turns are enough for the second. A fallible routine returns a sum, with \<^term>\<open>Inl\<close> the error;
  a routine that can panic (an unchecked slice in \<open>Endpoint\<close>, an unchecked addition in \<open>Typed\<close>)
  returns an option, with \<^term>\<open>None\<close> the panic. Saturating and checked arithmetic on machine integers is
  written out on natural numbers and integers (\<open>sat_add\<close>, \<open>i128_max\<close>); the word search of the scanner and
  the crash-pack hash wrap on \<^typ>\<open>64 word\<close>. Error texts are left out where the error's class
  determines them. The handlers of the machine return the machine after every outcome, errors
  included.

  Parameters. \<^verbatim>\<open>serde_json\<close> is not under the repository: \<open>Lifecycle\<close> takes the three body parsers
  and \<open>Typed\<close> the JSON parser and number operations, with the parsing of floats, as arguments; no
  law of theirs is assumed. \<open>Catalog\<close> and what rests on it take the lower-casing \<open>lc\<close> of a non-ASCII
  character (Unicode tables of the standard library), \<open>Planner\<close> the printers of \<^verbatim>\<open>serde_json\<close> for numbers
  and nested values, and the statements about meaning an arbitrary meaning \<open>E\<close> of a comparison
  (Snowflake's). The protocol relation of \<open>Lifecycle\<close> lets submit and poll responses arrive only while
  the statement is pending, as the driver sends them.

  Of the transport, the runtime's budgets and decompressors are the fields of \<open>Runtime\<close>, and the
  answers of the HTTP client are read from \<open>Pass\<close> values; of the driver, what the runtime, the provider
  of credentials, the transport and the sink answer is read from turns.

  Not modelled. Sockets, TLS, the asynchronous runtime, key pairs and tokens, the caches, the
  data frame, exports, the MCP server, the command line around its guards and the terminal UI: their
  core is I/O, rendering or a third-party library. Of the planner and the driver the log lines,
  progress events and serde derivations are left out; of the relation graph the renderings, the layered
  layout and the mirror in a third-party graph library. The rest of the catalog (search, diff, overlay,
  relations) is pure and not modelled.
\<close>

end
